(* ===== verification/Rt_Prelude.thy ===== *)
theory Rt_Prelude
  imports Main "HOL-Library.Word" "HOL-Library.Multiset"
begin

text \<open>
  Shared vocabulary of the development: the machine types of the C++ sources, the status codes
  of \<^verbatim>\<open>rt/status.hpp\<close>, the checked 64-bit arithmetic every compiler of the runtime uses, and the
  generic list facts the component theories share.

  A \<^verbatim>\<open>std::uint64_t\<close> is a 64-bit word and a \<^verbatim>\<open>std::uint32_t\<close> a 32-bit word, so addition and
  multiplication wrap.  A \<^verbatim>\<open>std::size_t\<close> that counts or indexes a container is a natural number;
  the largest \<^verbatim>\<open>std::size_t\<close> is written out where the code compares against it.  The collection
  \<open>checked_simps\<close> gathers the facts that turn a successful checked operation into arithmetic
  on natural numbers.
\<close>

unbundle bit_operations_syntax

type_synonym u8 = "8 word"
type_synonym u32 = "32 word"
type_synonym u64 = "64 word"

named_theorems checked_simps

section \<open>Status codes\<close>

datatype status =
    ok
  | invalid_argument
  | invalid_state
  | invalid_config
  | capacity_exceeded
  | callback_failed
  | resource_exhausted
  | internal_error
  | invalid_handle
  | graph_cycle
  | resource_conflict
  | queue_full
  | scratch_exhausted
  | platform_preflight_failed
  | clock_failure
  | invalid_artifact
  | incompatible_artifact
  | device_queue_full
  | device_timeout
  | device_error
  | device_lost
  | device_canceled
  | device_reset_required
  | incompatible_abi

section \<open>Machine limits\<close>

definition u64_max :: u64 where
  "u64_max = 18446744073709551615"

definition size_max :: nat where
  "size_max = 18446744073709551615"

lemma unat_u64_max: "unat u64_max = 18446744073709551615"
  by (simp add: u64_max_def)

lemma u64_max_greatest: "x \<le> u64_max"
proof -
  have "unat x < 2 ^ 64" using unsigned_less [of x, where 'a = nat] by simp
  then show ?thesis by (simp add: u64_max_def word_le_nat_alt)
qed

section \<open>Checked 64-bit arithmetic\<close>

definition checked_add :: "u64 \<Rightarrow> u64 \<Rightarrow> u64 option" where
  "checked_add left right =
     (if left > u64_max - right then None else Some (left + right))"

definition checked_multiply :: "u64 \<Rightarrow> u64 \<Rightarrow> u64 option" where
  "checked_multiply left right =
     (if left \<noteq> 0 \<and> right > u64_max div left then None else Some (left * right))"

definition gcd_u64 :: "u64 \<Rightarrow> u64 \<Rightarrow> u64" where
  "gcd_u64 left right = word_of_nat (gcd (unat left) (unat right))"

definition checked_lcm :: "u64 \<Rightarrow> u64 \<Rightarrow> u64 option" where
  "checked_lcm left right =
     (let divisor = gcd_u64 left right
      in if divisor = 0 then None else checked_multiply (left div divisor) right)"

definition ceil_div :: "u64 \<Rightarrow> u64 \<Rightarrow> u64 option" where
  "ceil_div v divisor =
     (if divisor = 0 then None
      else let output = v div divisor
           in if v mod divisor \<noteq> 0
              then (if output = u64_max then None else Some (output + 1))
              else Some output)"

lemma unat_u64_less: "unat (x :: u64) < 18446744073709551616"
  using unsigned_less [of x, where 'a = nat] by simp

lemma unat_of_nat_u64: "n < 18446744073709551616 \<Longrightarrow> unat (word_of_nat n :: u64) = n"
  by (simp add: unsigned_of_nat take_bit_nat_eq_self)

lemma unat_of_nat_u32: "n < 4294967296 \<Longrightarrow> unat (word_of_nat n :: u32) = n"
  by (simp add: unsigned_of_nat take_bit_nat_eq_self)

lemma unat_u32_less: "unat (x :: u32) < 4294967296"
  using unsigned_less [of x, where 'a = nat] by simp

lemma unat_ucast_u32 [simp]: "unat (ucast (w :: u32) :: u64) = unat w"
  using unat_u32_less [of w] by (simp add: unsigned_ucast_eq take_bit_nat_eq_self)

lemma unat_inc: "x \<noteq> u64_max \<Longrightarrow> unat (x + 1) = Suc (unat x)"
proof -
  assume "x \<noteq> u64_max"
  then have "unat x \<noteq> 18446744073709551615" by (metis unat_u64_max word_unat_eq_iff)
  then show ?thesis using unat_u64_less [of x] by (simp add: unat_word_ariths(1))
qed

lemma checked_add_eq:
  "checked_add a b =
     (if unat a + unat b < 18446744073709551616 then Some (a + b) else None)"
proof -
  have "b \<le> u64_max" by (rule u64_max_greatest)
  then have "unat (u64_max - b) = 18446744073709551615 - unat b"
    by (simp add: unat_sub unat_u64_max)
  then have "a > u64_max - b \<longleftrightarrow> \<not> unat a + unat b < 18446744073709551616"
    using unat_u64_less [of a] unat_u64_less [of b] by (simp add: word_less_nat_alt, arith)
  then show ?thesis by (simp add: checked_add_def)
qed

lemma checked_add_Some [checked_simps]:
  "checked_add a b = Some c \<longleftrightarrow>
     unat a + unat b < 18446744073709551616 \<and> unat c = unat a + unat b"
proof -
  have "unat (a + b) = unat a + unat b" if "unat a + unat b < 18446744073709551616"
    using that by (simp add: unat_word_ariths)
  then show ?thesis
    by (auto simp: checked_add_eq word_unat_eq_iff)
qed

lemma checked_add_None:
  "checked_add a b = None \<longleftrightarrow> 18446744073709551616 \<le> unat a + unat b"
  by (simp add: checked_add_eq not_less)

lemma checked_multiply_eq:
  "checked_multiply a b =
     (if unat a * unat b < 18446744073709551616 then Some (a * b) else None)"
proof (cases "a = 0")
  case True
  then show ?thesis by (simp add: checked_multiply_def)
next
  case False
  then have a: "0 < unat a" by (simp add: unat_gt_0)
  have "b > u64_max div a \<longleftrightarrow> 18446744073709551615 div unat a < unat b"
    by (simp add: word_less_nat_alt unat_div unat_u64_max)
  also have "\<dots> \<longleftrightarrow> 18446744073709551615 < unat b * unat a"
    using a by (simp add: div_less_iff_less_mult)
  also have "\<dots> \<longleftrightarrow> \<not> unat a * unat b < 18446744073709551616"
    by (simp add: mult.commute, arith)
  finally show ?thesis using False by (simp add: checked_multiply_def)
qed

lemma checked_multiply_Some [checked_simps]:
  "checked_multiply a b = Some c \<longleftrightarrow>
     unat a * unat b < 18446744073709551616 \<and> unat c = unat a * unat b"
proof -
  have "unat (a * b) = unat a * unat b" if "unat a * unat b < 18446744073709551616"
    using that by (simp add: unat_word_ariths)
  then show ?thesis
    by (auto simp: checked_multiply_eq word_unat_eq_iff)
qed

lemma checked_multiply_None:
  "checked_multiply a b = None \<longleftrightarrow> 18446744073709551616 \<le> unat a * unat b"
  by (simp add: checked_multiply_eq not_less)

lemma unat_gcd_u64 [checked_simps]: "unat (gcd_u64 a b) = gcd (unat a) (unat b)"
proof -
  have "gcd (unat a) (unat b) < 18446744073709551616"
  proof (cases "a = 0")
    case True
    then show ?thesis using unat_u64_less [of b] by simp
  next
    case False
    then have "0 < unat a" by (simp add: unat_gt_0)
    then have "gcd (unat a) (unat b) \<le> unat a"
      by (simp add: gcd_le1_nat)
    then show ?thesis using unat_u64_less [of a] by simp
  qed
  then show ?thesis by (simp add: gcd_u64_def unat_of_nat)
qed

lemma checked_lcm_Some [checked_simps]:
  assumes "a \<noteq> 0"
  shows "checked_lcm a b = Some c \<longleftrightarrow>
     lcm (unat a) (unat b) < 18446744073709551616 \<and> unat c = lcm (unat a) (unat b)"
proof -
  have "0 < unat a" using assms by (simp add: unat_gt_0)
  then have g: "gcd_u64 a b \<noteq> 0"
    by (simp add: unat_gt_0 [symmetric] unat_gcd_u64)
  have "unat (a div gcd_u64 a b) * unat b = lcm (unat a) (unat b)"
    by (simp add: unat_div unat_gcd_u64 lcm_nat_def dvd_div_mult)
  then show ?thesis
    by (simp add: checked_lcm_def Let_def g checked_multiply_Some)
qed

lemma checked_lcm_None:
  assumes "a \<noteq> 0"
  shows "checked_lcm a b = None \<longleftrightarrow> 18446744073709551616 \<le> lcm (unat a) (unat b)"
proof -
  have "checked_lcm a b \<noteq> None \<longleftrightarrow> lcm (unat a) (unat b) < 18446744073709551616"
    using checked_lcm_Some [OF assms, of b]
    by (auto intro: exI [of _ "word_of_nat (lcm (unat a) (unat b))"]
        simp: unat_of_nat_u64)
  then show ?thesis by auto
qed

definition ceil_nat :: "nat \<Rightarrow> nat \<Rightarrow> nat" where
  "ceil_nat v d = (if v mod d = 0 then v div d else Suc (v div d))"

lemma ceil_div_Some [checked_simps]:
  "ceil_div v d = Some q \<longleftrightarrow> d \<noteq> 0 \<and> unat q = ceil_nat (unat v) (unat d)"
proof (cases "d = 0")
  case True
  then show ?thesis by (simp add: ceil_div_def)
next
  case False
  then have d: "0 < unat d" by (simp add: unat_gt_0)
  have m: "v mod d = 0 \<longleftrightarrow> unat v mod unat d = 0"
    by (simp add: unat_mod [symmetric] unat_eq_zero)
  show ?thesis
  proof (cases "unat v mod unat d = 0")
    case True
    then show ?thesis
      using False m by (auto simp: ceil_div_def ceil_nat_def Let_def unat_div word_unat_eq_iff)
  next
    case rem: False
    then have "unat d \<noteq> 1" and "0 < unat v" by (auto intro!: gr0I)
    then have "unat v div unat d < unat v"
      using d by (intro div_less_dividend) auto
    then have small: "unat (v div d) < 18446744073709551615"
      using unat_u64_less [of v] by (simp add: unat_div)
    then have "v div d \<noteq> u64_max" by (auto simp: unat_u64_max)
    moreover have "unat (v div d + 1) = Suc (unat v div unat d)"
      using small unat_div [of v d] by (simp add: unat_word_ariths(1))
    ultimately show ?thesis
      using False m rem by (auto simp: ceil_div_def ceil_nat_def Let_def word_unat_eq_iff)
  qed
qed

text \<open>
  Rounding up divides a half-open interval: a multiple of the divisor is at or beyond \<open>v\<close>
  exactly when its index is at or beyond the rounded quotient.
\<close>

lemma ceil_nat_le_iff:
  assumes "0 < d"
  shows "ceil_nat v d \<le> k \<longleftrightarrow> v \<le> k * d"
proof (cases "v mod d = 0")
  case True
  then have "v = v div d * d" by (metis div_mod_decomp add.right_neutral)
  then show ?thesis using assms True
    by (metis ceil_nat_def mult_le_cancel2)
next
  case False
  have "Suc (v div d) \<le> k \<longleftrightarrow> v < k * d"
    using assms by (simp add: Suc_le_eq div_less_iff_less_mult)
  moreover have "v \<noteq> k * d" using False by auto
  ultimately show ?thesis using False by (auto simp: ceil_nat_def)
qed

section \<open>Results with errors\<close>

text \<open>A stage that may fail, followed by a stage that uses its result.\<close>

definition sum_bind :: "'e + 'a \<Rightarrow> ('a \<Rightarrow> 'e + 'b) \<Rightarrow> 'e + 'b" where
  "sum_bind m f = (case m of Inl e \<Rightarrow> Inl e | Inr a \<Rightarrow> f a)"

lemma sum_bind_simps [simp]: "sum_bind (Inl e) f = Inl e" "sum_bind (Inr a) f = f a"
  by (simp_all add: sum_bind_def)

lemma sum_bind_Inr: "sum_bind m f = Inr b \<longleftrightarrow> (\<exists>a. m = Inr a \<and> f a = Inr b)"
  by (simp add: sum_bind_def split: sum.splits)

lemma sum_bind_Inl: "sum_bind m f = Inl e \<longleftrightarrow> m = Inl e \<or> (\<exists>a. m = Inr a \<and> f a = Inl e)"
  by (simp add: sum_bind_def split: sum.splits)

section \<open>Lists updated in place\<close>

lemma length_filter_update:
  assumes "i < length xs"
  shows "length (filter P (xs[i := v])) + (if P (xs ! i) then 1 else 0) =
    length (filter P xs) + (if P v then 1 else 0)"
  using assms
proof (induction xs arbitrary: i)
  case Nil
  then show ?case by simp
next
  case (Cons x xs)
  then show ?case by (cases i) auto
qed

lemma nth_update_eq:
  "j < length xs \<Longrightarrow> xs[i := v] ! j = (if i = j then v else xs ! j)"
  by simp

definition position :: "'a list \<Rightarrow> 'a \<Rightarrow> nat" where
  "position xs x = length (takeWhile (\<lambda>y. y \<noteq> x) xs)"

lemma position_nth:
  assumes "distinct xs" and "k < length xs"
  shows "position xs (xs ! k) = k"
proof -
  have "takeWhile (\<lambda>y. y \<noteq> xs ! k) xs = take k xs"
    using assms by (intro takeWhile_eq_take_P_nth) (auto simp: nth_eq_iff_index_eq)
  then show ?thesis using assms by (simp add: position_def)
qed

lemma nth_position: "x \<in> set xs \<Longrightarrow> xs ! position xs x = x \<and> position xs x < length xs"
  by (induction xs) (auto simp: position_def)

lemma position_less:
  assumes "distinct xs" and "k < length xs" and "x \<in> set (take k xs)"
  shows "position xs x < k"
proof -
  obtain j where "j < k" "j < length xs" "x = xs ! j"
    using assms(2,3) by (auto simp: in_set_conv_nth)
  then show ?thesis using assms(1) by (simp add: position_nth)
qed

lemma acyclic_rank:
  fixes f :: "'a \<Rightarrow> nat"
  assumes "\<And>a b. (a, b) \<in> E \<Longrightarrow> f a < f b"
  shows "acyclic E"
proof (rule acyclicI, rule allI, rule notI)
  have "(a, b) \<in> E\<^sup>+ \<Longrightarrow> f a < f b" for a b
    by (induction rule: trancl_induct) (auto intro: assms less_trans)
  then show False if "(x, x) \<in> E\<^sup>+" for x using that by blast
qed

lemma distinct_concat_map:
  assumes "distinct (map h is)" and "\<And>i. i \<in> set is \<Longrightarrow> distinct (f i)"
    and "\<And>i x. i \<in> set is \<Longrightarrow> x \<in> set (f i) \<Longrightarrow> tag x = h i"
  shows "distinct (concat (map f is))"
  using assms
proof (induction "is")
  case Nil
  then show ?case by simp
next
  case (Cons i "is")
  have "set (f i) \<inter> set (f j) = {}" if "j \<in> set is" for j
  proof -
    have "h i \<noteq> h j" using Cons.prems(1) that by (metis distinct.simps(2) image_eqI list.map(2) list.set_map)
    then show ?thesis
      using Cons.prems(3) [of i] Cons.prems(3) [of j] that by (metis disjoint_iff list.set_intros)
  qed
  moreover have "distinct (concat (map f is))"
    using Cons.prems by (intro Cons.IH) auto
  ultimately show ?case using Cons.prems(2) by auto
qed

lemma sorted_key_strict:
  assumes "distinct (map f xs)"
  shows "sorted_wrt (<) (map f (sort_key f xs))"
proof -
  have "distinct (map f (sort_key f xs))"
    using assms by (metis mset_map mset_sort mset_eq_imp_distinct_iff)
  then show ?thesis using sorted_sort_key [of f xs] by (simp add: strict_sorted_iff)
qed

end
