(* ===== verification/Graph_Handles.thy ===== *)
theory Graph_Handles
  imports Rt_Prelude
begin

text \<open>
  The instance-local handles of \<^verbatim>\<open>rt/include/rt/graph.hpp\<close>: one 64-bit word that packs the owning
  runtime (upper half), two kind bits and a 30-bit index.  The four handle structs share one
  interface, the locale \<open>graph_handle\<close>; its laws are the round trips between a handle and its
  parts, and the clients (the graph, rate and channel compilers) use the injectivity proved from
  them.
\<close>

section \<open>Encoding constants\<close>

definition invalid_graph_handle :: u64 where
  "invalid_graph_handle = u64_max"

definition graph_resource_kind_bit :: u32 where
  "graph_resource_kind_bit = push_bit 31 1"

definition graph_rate_domain_kind_bit :: u32 where
  "graph_rate_domain_kind_bit = push_bit 30 1"

definition graph_handle_index_mask :: u32 where
  "graph_handle_index_mask = graph_rate_domain_kind_bit - 1"

section \<open>Phase handles\<close>

datatype phase_handle = PhaseHandle (phase_value: u64)

definition phase_handle_of :: "u32 \<Rightarrow> u32 \<Rightarrow> phase_handle" where
  "phase_handle_of owner index = PhaseHandle (push_bit 32 (ucast owner) OR ucast index)"

definition phase_valid :: "phase_handle \<Rightarrow> bool" where
  "phase_valid h \<longleftrightarrow>
     phase_value h \<noteq> invalid_graph_handle \<and>
     (ucast (phase_value h) AND (graph_resource_kind_bit OR graph_rate_domain_kind_bit)) = 0"

definition phase_owner :: "phase_handle \<Rightarrow> u32" where
  "phase_owner h = ucast (drop_bit 32 (phase_value h))"

definition phase_index :: "phase_handle \<Rightarrow> u32" where
  "phase_index h = ucast (phase_value h) AND graph_handle_index_mask"

section \<open>Resource handles\<close>

datatype resource_handle = ResourceHandle (resource_value: u64)

definition resource_handle_of :: "u32 \<Rightarrow> u32 \<Rightarrow> resource_handle" where
  "resource_handle_of owner index =
     ResourceHandle (push_bit 32 (ucast owner) OR ucast graph_resource_kind_bit OR ucast index)"

definition resource_valid :: "resource_handle \<Rightarrow> bool" where
  "resource_valid h \<longleftrightarrow>
     resource_value h \<noteq> invalid_graph_handle \<and>
     (ucast (resource_value h) AND graph_resource_kind_bit) \<noteq> 0 \<and>
     (ucast (resource_value h) AND graph_rate_domain_kind_bit) = 0"

definition resource_owner :: "resource_handle \<Rightarrow> u32" where
  "resource_owner h = ucast (drop_bit 32 (resource_value h))"

definition resource_index :: "resource_handle \<Rightarrow> u32" where
  "resource_index h = ucast (resource_value h) AND graph_handle_index_mask"

section \<open>Rate-domain handles\<close>

datatype rate_domain_handle = RateDomainHandle (rate_domain_value: u64)

definition rate_domain_handle_of :: "u32 \<Rightarrow> u32 \<Rightarrow> rate_domain_handle" where
  "rate_domain_handle_of owner index =
     RateDomainHandle
       (push_bit 32 (ucast owner) OR ucast graph_rate_domain_kind_bit OR ucast index)"

definition rate_domain_valid :: "rate_domain_handle \<Rightarrow> bool" where
  "rate_domain_valid h \<longleftrightarrow>
     rate_domain_value h \<noteq> invalid_graph_handle \<and>
     (ucast (rate_domain_value h) AND graph_resource_kind_bit) = 0 \<and>
     (ucast (rate_domain_value h) AND graph_rate_domain_kind_bit) \<noteq> 0"

definition rate_domain_owner :: "rate_domain_handle \<Rightarrow> u32" where
  "rate_domain_owner h = ucast (drop_bit 32 (rate_domain_value h))"

definition rate_domain_index :: "rate_domain_handle \<Rightarrow> u32" where
  "rate_domain_index h = ucast (rate_domain_value h) AND graph_handle_index_mask"

section \<open>Cross-rate channel handles\<close>

datatype channel_handle = CrossRateChannelHandle (channel_value: u64)

definition channel_handle_of :: "u32 \<Rightarrow> u32 \<Rightarrow> channel_handle" where
  "channel_handle_of owner index =
     CrossRateChannelHandle
       (push_bit 32 (ucast owner) OR ucast graph_resource_kind_bit OR
        ucast graph_rate_domain_kind_bit OR ucast index)"

definition channel_valid :: "channel_handle \<Rightarrow> bool" where
  "channel_valid h \<longleftrightarrow>
     channel_value h \<noteq> invalid_graph_handle \<and>
     (ucast (channel_value h) AND graph_resource_kind_bit) \<noteq> 0 \<and>
     (ucast (channel_value h) AND graph_rate_domain_kind_bit) \<noteq> 0"

definition channel_owner :: "channel_handle \<Rightarrow> u32" where
  "channel_owner h = ucast (drop_bit 32 (channel_value h))"

definition channel_index :: "channel_handle \<Rightarrow> u32" where
  "channel_index h = ucast (channel_value h) AND graph_handle_index_mask"

text \<open>
  An access mode is an enumeration over one byte; a value outside the two enumerators can reach
  the compiler, which rejects it, and is kept as \<open>access_unknown\<close>.
\<close>

datatype resource_access = access_read | access_write | access_unknown u8

section \<open>The handle interface\<close>

abbreviation phase_number :: "phase_handle \<Rightarrow> nat" where
  "phase_number h \<equiv> unat (phase_index h)"

abbreviation resource_number :: "resource_handle \<Rightarrow> nat" where
  "resource_number h \<equiv> unat (resource_index h)"

abbreviation rate_domain_number :: "rate_domain_handle \<Rightarrow> nat" where
  "rate_domain_number h \<equiv> unat (rate_domain_index h)"

abbreviation channel_number :: "channel_handle \<Rightarrow> nat" where
  "channel_number h \<equiv> unat (channel_index h)"

lemma index_mask_numeral: "graph_handle_index_mask = 1073741823"
  by (simp add: graph_rate_domain_kind_bit_def graph_handle_index_mask_def)

locale graph_handle =
  fixes make :: "u32 \<Rightarrow> u32 \<Rightarrow> 'h"
    and valid :: "'h \<Rightarrow> bool"
    and owner :: "'h \<Rightarrow> u32"
    and index :: "'h \<Rightarrow> u32"
  assumes owner_make: "owner (make ow i) = ow"
    and index_make: "i \<le> graph_handle_index_mask \<Longrightarrow> index (make ow i) = i"
    and valid_make: "i < graph_handle_index_mask \<Longrightarrow> valid (make ow i)"
    and make_parts: "valid h \<Longrightarrow> make (owner h) (index h) = h"
    and index_bound: "index h \<le> graph_handle_index_mask"
begin

lemma handle_eqI:
  assumes "valid h" and "valid h'" and "owner h = owner h'" and "index h = index h'"
  shows "h = h'"
  using assms by (metis make_parts)

lemma make_inj:
  assumes "i \<le> graph_handle_index_mask" and "j \<le> graph_handle_index_mask"
  shows "make ow i = make ow' j \<longleftrightarrow> ow = ow' \<and> i = j"
  using assms by (metis owner_make index_make)

text \<open>The handles of the first \<open>n\<close> entities of one owner, as a set and as the tests that the compilers make.\<close>

lemma in_range_iff:
  assumes "n \<le> unat graph_handle_index_mask"
  shows "h \<in> (\<lambda>i. make ow (word_of_nat i)) ` {..<n} \<longleftrightarrow> valid h \<and> owner h = ow \<and> unat (index h) < n"
proof
  assume "h \<in> (\<lambda>i. make ow (word_of_nat i)) ` {..<n}"
  then obtain i where i: "i < n" "h = make ow (word_of_nat i)" by auto
  have "unat (word_of_nat i :: u32) = i"
    using i(1) assms unat_u32_less [of graph_handle_index_mask] by (intro unat_of_nat_u32) simp
  then have "word_of_nat i < graph_handle_index_mask" "unat (word_of_nat i :: u32) < n"
    using i(1) assms by (simp_all add: word_less_nat_alt)
  then show "valid h \<and> owner h = ow \<and> unat (index h) < n"
    unfolding i(2) by (simp add: valid_make owner_make index_make)
next
  assume h: "valid h \<and> owner h = ow \<and> unat (index h) < n"
  then have "h = make ow (word_of_nat (unat (index h)))" using make_parts [of h] by simp
  then show "h \<in> (\<lambda>i. make ow (word_of_nat i)) ` {..<n}" using h by blast
qed

lemma unat_index_bound: "unat (index h) < 1073741824"
proof -
  have "unat (index h) \<le> unat graph_handle_index_mask"
    using index_bound by (simp add: word_le_nat_alt)
  also have "\<dots> < 1073741824"
    unfolding index_mask_numeral by simp
  finally show ?thesis .
qed

end

lemma index_mask_eq: "graph_handle_index_mask = mask 30"
  by (simp add: graph_rate_domain_kind_bit_def graph_handle_index_mask_def mask_eq_exp_minus_1)

lemma invalid_handle_eq: "invalid_graph_handle = - 1"
  by (simp add: invalid_graph_handle_def u64_max_def)

lemma and_exp_eq_0:
  fixes w :: u32
  assumes "n < 32"
  shows "w AND push_bit n 1 = 0 \<longleftrightarrow> \<not> bit w n"
proof
  assume "w AND push_bit n 1 = 0"
  then have "bit (w AND push_bit n 1) n = False" by simp
  then show "\<not> bit w n"
    using assms by (simp add: bit_simps)
next
  assume "\<not> bit w n"
  then show "w AND push_bit n 1 = 0"
    by (auto intro!: bit_eqI simp: bit_simps)
qed

lemma and_two_exp_eq_0:
  fixes w :: u32
  assumes "n < 32" and "m < 32"
  shows "w AND (push_bit n 1 OR push_bit m 1) = 0 \<longleftrightarrow> \<not> bit w n \<and> \<not> bit w m"
  unfolding bit.conj_disj_distrib or_eq_0_iff and_exp_eq_0 [OF assms(1)] and_exp_eq_0 [OF assms(2)] ..

lemma le_index_mask: "i \<le> graph_handle_index_mask \<longleftrightarrow> \<not> bit i 30 \<and> \<not> bit i 31"
proof -
  have "i \<le> mask 30 \<longleftrightarrow> unat i < 2 ^ 30"
    by (simp add: mask_eq_exp_minus_1 word_le_nat_alt) arith
  also have "\<dots> \<longleftrightarrow> take_bit 30 (unat i) = unat i"
    by (simp add: take_bit_nat_eq_self_iff)
  also have "\<dots> \<longleftrightarrow> take_bit 30 i = i"
    by (simp add: word_unat_eq_iff unsigned_take_bit_eq)
  also have "\<dots> \<longleftrightarrow> (\<forall>n<32. bit i n \<longrightarrow> n < 30)"
    by (auto simp: bit_eq_iff bit_simps)
  also have "\<dots> \<longleftrightarrow> \<not> bit i 30 \<and> \<not> bit i 31"
  proof -
    have "n < 32 \<longleftrightarrow> n < 30 \<or> n = 30 \<or> n = 31" for n :: nat by linarith
    then show ?thesis by auto
  qed
  finally show ?thesis unfolding index_mask_eq .
qed

lemma not_all_ones:
  fixes v :: u64
  assumes "\<not> bit v n" and "n < 64"
  shows "v \<noteq> invalid_graph_handle"
  using assms by (auto simp: invalid_handle_eq)

lemma phase_valid_bits:
  "phase_valid h \<longleftrightarrow> \<not> bit (phase_value h) 31 \<and> \<not> bit (phase_value h) 30"
proof -
  have "ucast (phase_value h) AND (graph_resource_kind_bit OR graph_rate_domain_kind_bit) = 0 \<longleftrightarrow>
    \<not> bit (phase_value h) 31 \<and> \<not> bit (phase_value h) 30"
    unfolding graph_resource_kind_bit_def graph_rate_domain_kind_bit_def
    by (subst and_two_exp_eq_0) (simp_all add: bit_simps)
  then show ?thesis by (auto simp: phase_valid_def dest: not_all_ones)
qed

lemma kind_test_bits:
  fixes v :: u64
  shows "ucast v AND graph_resource_kind_bit = 0 \<longleftrightarrow> \<not> bit v 31"
    and "ucast v AND graph_rate_domain_kind_bit = 0 \<longleftrightarrow> \<not> bit v 30"
  unfolding graph_resource_kind_bit_def graph_rate_domain_kind_bit_def
  by (subst and_exp_eq_0; simp add: bit_simps)+

lemma resource_valid_bits:
  "resource_valid h \<longleftrightarrow> bit (resource_value h) 31 \<and> \<not> bit (resource_value h) 30"
  by (auto simp: resource_valid_def kind_test_bits dest: not_all_ones)

lemma rate_domain_valid_bits:
  "rate_domain_valid h \<longleftrightarrow> \<not> bit (rate_domain_value h) 31 \<and> bit (rate_domain_value h) 30"
  by (auto simp: rate_domain_valid_def kind_test_bits dest: not_all_ones)

lemma channel_valid_bits:
  "channel_valid h \<longleftrightarrow>
     channel_value h \<noteq> invalid_graph_handle \<and> bit (channel_value h) 31 \<and> bit (channel_value h) 30"
  by (auto simp: channel_valid_def kind_test_bits)

lemma bit_kind_words:
  "bit graph_resource_kind_bit n \<longleftrightarrow> n = 31"
  "bit graph_rate_domain_kind_bit n \<longleftrightarrow> n = 30"
  unfolding graph_resource_kind_bit_def graph_rate_domain_kind_bit_def
  by (auto simp: bit_simps simp del: push_bit_of_1)

lemmas handle_defs =
  phase_handle_of_def phase_owner_def phase_index_def
  resource_handle_of_def resource_owner_def resource_index_def
  rate_domain_handle_of_def rate_domain_owner_def rate_domain_index_def
  channel_handle_of_def channel_owner_def channel_index_def

lemma bit_le_index_mask: "i \<le> graph_handle_index_mask \<Longrightarrow> bit i n \<Longrightarrow> n < 30"
proof -
  assume "i \<le> graph_handle_index_mask" and b: "bit i n"
  then have "\<not> bit i 30" and "\<not> bit i 31" by (auto simp: le_index_mask)
  moreover have "n < 32" using bit_imp_le_length [OF b] by simp
  ultimately show ?thesis using b by (cases "n = 30"; cases "n = 31") auto
qed

lemma bit_u32_beyond [simp]: "\<not> bit (w :: u32) (32 + n)"
  by (auto dest: bit_imp_le_length)

lemma owner_part:
  fixes low :: u64
  assumes "\<And>n. 32 \<le> n \<Longrightarrow> \<not> bit low n"
  shows "ucast (drop_bit 32 (push_bit 32 (ucast ow) OR low)) = (ow :: u32)"
  using assms by (auto simp: bit_eq_iff bit_simps)

lemma index_part:
  fixes low :: u64 and i :: u32
  assumes "\<And>n. n < 30 \<Longrightarrow> bit low n \<longleftrightarrow> bit i n" and "i \<le> graph_handle_index_mask"
  shows "ucast (push_bit 32 (ucast (ow :: u32)) OR low) AND graph_handle_index_mask = i"
  using assms(1) bit_le_index_mask [OF assms(2)]
  by (auto simp: index_mask_eq bit_eq_iff bit_simps)

lemma repack:
  fixes v low :: u64
  assumes "\<And>n. n < 30 \<Longrightarrow> bit low n \<longleftrightarrow> bit v n"
    and "bit low 30 \<longleftrightarrow> bit v 30" and "bit low 31 \<longleftrightarrow> bit v 31"
    and "\<And>n. 32 \<le> n \<Longrightarrow> \<not> bit low n"
  shows "push_bit 32 (ucast (ucast (drop_bit 32 v) :: u32)) OR low = v"
proof (rule bit_eqI)
  fix n
  assume "possible_bit TYPE(64 word) n"
  then have "n < 64" by simp
  show "bit (push_bit 32 (ucast (ucast (drop_bit 32 v) :: u32)) OR low) n = bit v n"
  proof (cases "n < 32")
    case True
    then consider "n < 30" | "n = 30" | "n = 31" by linarith
    then show ?thesis using True assms(1-3) by cases (simp_all add: bit_simps)
  next
    case False
    then show ?thesis using assms(4) \<open>n < 64\<close> by (auto simp: bit_simps)
  qed
qed

lemma index_part_bound: "ucast (v :: u64) AND graph_handle_index_mask \<le> graph_handle_index_mask"
  by (simp add: word_and_le1)

lemma bit_index_mask: "bit graph_handle_index_mask n \<longleftrightarrow> n < 30"
  by (auto simp: index_mask_eq bit_simps)

lemma index_zero_bit:
  assumes "i < graph_handle_index_mask"
  obtains n where "n < 30" and "\<not> bit i n"
proof -
  have "i \<noteq> mask 30" using assms by (simp add: index_mask_eq)
  then obtain n where "bit i n \<noteq> (n < 30)" and "n < 32"
    by (auto simp: bit_eq_iff bit_simps)
  moreover have "bit i n \<Longrightarrow> n < 30"
    using assms by (blast intro: bit_le_index_mask less_imp_le)
  ultimately show ?thesis using that by blast
qed

interpretation phase: graph_handle phase_handle_of phase_valid phase_owner phase_index
proof
  fix ow i :: u32 and h :: phase_handle
  show "phase_owner (phase_handle_of ow i) = ow"
    unfolding handle_defs phase_handle.sel
    by (rule owner_part) (auto simp: bit_simps bit_kind_words dest: bit_imp_le_length)
  show "i \<le> graph_handle_index_mask \<Longrightarrow> phase_index (phase_handle_of ow i) = i"
    unfolding handle_defs phase_handle.sel
    by (rule index_part) (auto simp: bit_simps bit_kind_words)
  show "i < graph_handle_index_mask \<Longrightarrow> phase_valid (phase_handle_of ow i)"
    by (auto simp: phase_valid_bits handle_defs bit_simps bit_kind_words
        dest!: less_imp_le dest: bit_le_index_mask)
  show "phase_valid h \<Longrightarrow> phase_handle_of (phase_owner h) (phase_index h) = h"
    unfolding handle_defs phase_valid_bits
    by (subst repack) (auto simp: bit_simps bit_index_mask bit_kind_words dest: bit_imp_le_length)
  show "phase_index h \<le> graph_handle_index_mask"
    by (simp add: phase_index_def index_part_bound)
qed

interpretation resource: graph_handle resource_handle_of resource_valid resource_owner resource_index
proof
  fix ow i :: u32 and h :: resource_handle
  show "resource_owner (resource_handle_of ow i) = ow"
    unfolding handle_defs resource_handle.sel
    by (rule owner_part) (auto simp: bit_simps bit_kind_words dest: bit_imp_le_length)
  show "i \<le> graph_handle_index_mask \<Longrightarrow> resource_index (resource_handle_of ow i) = i"
    unfolding handle_defs resource_handle.sel
    by (rule index_part) (auto simp: bit_simps bit_kind_words)
  show "i < graph_handle_index_mask \<Longrightarrow> resource_valid (resource_handle_of ow i)"
    by (auto simp: resource_valid_bits handle_defs bit_simps bit_kind_words
        dest!: less_imp_le dest: bit_le_index_mask)
  show "resource_valid h \<Longrightarrow> resource_handle_of (resource_owner h) (resource_index h) = h"
    unfolding handle_defs resource_valid_bits
    by (subst repack) (auto simp: bit_simps bit_index_mask bit_kind_words dest: bit_imp_le_length)
  show "resource_index h \<le> graph_handle_index_mask"
    by (simp add: resource_index_def index_part_bound)
qed

interpretation rate_domain: graph_handle rate_domain_handle_of rate_domain_valid rate_domain_owner rate_domain_index
proof
  fix ow i :: u32 and h :: rate_domain_handle
  show "rate_domain_owner (rate_domain_handle_of ow i) = ow"
    unfolding handle_defs rate_domain_handle.sel
    by (rule owner_part) (auto simp: bit_simps bit_kind_words dest: bit_imp_le_length)
  show "i \<le> graph_handle_index_mask \<Longrightarrow> rate_domain_index (rate_domain_handle_of ow i) = i"
    unfolding handle_defs rate_domain_handle.sel
    by (rule index_part) (auto simp: bit_simps bit_kind_words)
  show "i < graph_handle_index_mask \<Longrightarrow> rate_domain_valid (rate_domain_handle_of ow i)"
    by (auto simp: rate_domain_valid_bits handle_defs bit_simps bit_kind_words
        dest!: less_imp_le dest: bit_le_index_mask)
  show "rate_domain_valid h \<Longrightarrow> rate_domain_handle_of (rate_domain_owner h) (rate_domain_index h) = h"
    unfolding handle_defs rate_domain_valid_bits
    by (subst repack) (auto simp: bit_simps bit_index_mask bit_kind_words dest: bit_imp_le_length)
  show "rate_domain_index h \<le> graph_handle_index_mask"
    by (simp add: rate_domain_index_def index_part_bound)
qed

interpretation channel: graph_handle channel_handle_of channel_valid channel_owner channel_index
proof
  fix ow i :: u32 and h :: channel_handle
  show "channel_owner (channel_handle_of ow i) = ow"
    unfolding handle_defs channel_handle.sel
    by (rule owner_part) (auto simp: bit_simps bit_kind_words dest: bit_imp_le_length)
  show "i \<le> graph_handle_index_mask \<Longrightarrow> channel_index (channel_handle_of ow i) = i"
    unfolding handle_defs channel_handle.sel
    by (rule index_part) (auto simp: bit_simps bit_kind_words)
  show "channel_valid (channel_handle_of ow i)" if less: "i < graph_handle_index_mask"
  proof -
    obtain n where n: "n < 30" "\<not> bit i n"
      using less by (rule index_zero_bit)
    have "\<not> bit (channel_value (channel_handle_of ow i)) n"
      using n by (simp add: handle_defs bit_simps bit_kind_words)
    then have "channel_value (channel_handle_of ow i) \<noteq> invalid_graph_handle"
      using n by (intro not_all_ones) auto
    then show ?thesis
      by (simp add: channel_valid_bits handle_defs bit_simps bit_kind_words)
  qed
  show "channel_valid h \<Longrightarrow> channel_handle_of (channel_owner h) (channel_index h) = h"
    unfolding handle_defs channel_valid_bits
    by (subst repack) (auto simp: bit_simps bit_index_mask bit_kind_words dest: bit_imp_le_length)
  show "channel_index h \<le> graph_handle_index_mask"
    by (simp add: channel_index_def index_part_bound)
qed

section \<open>Kinds\<close>

text \<open>
  C40. The kind bits type the handles: every 64-bit word but the invalid one is a valid handle of exactly
  one of the four kinds, the invalid word of none, and each constructor makes, for every owner and
  every index below the mask, a valid handle of its own kind that gives the owner and the index
  back.
\<close>

theorem handle_kinds:
  assumes "i < graph_handle_index_mask"
  shows "length (filter (\<lambda>valid. valid w)
      [\<lambda>w. phase_valid (PhaseHandle w), \<lambda>w. resource_valid (ResourceHandle w),
       \<lambda>w. rate_domain_valid (RateDomainHandle w), \<lambda>w. channel_valid (CrossRateChannelHandle w)]) =
      (if w = invalid_graph_handle then 0 else 1) \<and>
    phase_valid (phase_handle_of ow i) \<and> phase_owner (phase_handle_of ow i) = ow \<and>
      phase_index (phase_handle_of ow i) = i \<and>
    resource_valid (resource_handle_of ow i) \<and> resource_owner (resource_handle_of ow i) = ow \<and>
      resource_index (resource_handle_of ow i) = i \<and>
    rate_domain_valid (rate_domain_handle_of ow i) \<and> rate_domain_owner (rate_domain_handle_of ow i) = ow \<and>
      rate_domain_index (rate_domain_handle_of ow i) = i \<and>
    channel_valid (channel_handle_of ow i) \<and> channel_owner (channel_handle_of ow i) = ow \<and>
      channel_index (channel_handle_of ow i) = i"
proof -
  have "w = invalid_graph_handle \<Longrightarrow> bit w 30 \<and> bit w 31" by (simp add: invalid_handle_eq)
  then have "length (filter (\<lambda>valid. valid w)
      [\<lambda>w. phase_valid (PhaseHandle w), \<lambda>w. resource_valid (ResourceHandle w),
       \<lambda>w. rate_domain_valid (RateDomainHandle w), \<lambda>w. channel_valid (CrossRateChannelHandle w)]) =
      (if w = invalid_graph_handle then 0 else 1)"
    by (auto simp: phase_valid_bits resource_valid_bits rate_domain_valid_bits channel_valid_bits)
  then show ?thesis
    using assms less_imp_le [OF assms]
    by (simp add: phase.valid_make phase.owner_make phase.index_make resource.valid_make resource.owner_make
        resource.index_make rate_domain.valid_make rate_domain.owner_make rate_domain.index_make
        channel.valid_make channel.owner_make channel.index_make)
qed

theorem handle_kinds_witness:
  "(0 :: u32) < graph_handle_index_mask \<and>
   \<not> resource_valid (ResourceHandle (phase_value (phase_handle_of 7 0))) \<and> phase_index (phase_handle_of 7 0) = 0"
  using handle_kinds [of 0 "phase_value (phase_handle_of 7 0)" 7]
  by (auto simp: index_mask_numeral split: if_splits)

end
