(* ===== verification/Compiled_Graph.thy ===== *)
theory Compiled_Graph
  imports Graph_Handles "HOL-Library.Product_Lexorder" "HOL-Library.Multiset"
begin

text \<open>
  The graph compiler of \<^verbatim>\<open>rt/src/compiled_graph.cpp\<close>.  Dependencies and resource accesses refer
  to phases and resources by handle; \<open>compile_graph\<close> validates the handles, orders the phases by
  Kahn's algorithm over a minimum priority queue, reports a phase on a cycle by depth-first search
  when no order exists, and rejects two accesses to one resource that no dependency path orders
  when one of them writes.

  Phase numbers are natural numbers.  Reading or writing a vector outside its bounds is undefined
  in the source; the loops below leave the state unchanged there, and the invariants show that
  the validated inputs never reach that case.  Failure of an allocation (\<^verbatim>\<open>std::bad_alloc\<close>) is not
  modelled.
\<close>

section \<open>Inputs and diagnostics\<close>

record graph_dependency =
  prerequisite :: phase_handle
  dependent :: phase_handle

record graph_resource_access =
  acc_phase :: phase_handle
  acc_resource :: resource_handle
  acc_access :: resource_access

record graph_compile_diagnostic =
  diag_status :: status
  diag_first_phase :: phase_handle
  diag_second_phase :: phase_handle
  diag_resource :: resource_handle

definition graph_diagnostic :: graph_compile_diagnostic where
  "graph_diagnostic =
     \<lparr>diag_status = ok,
      diag_first_phase = PhaseHandle invalid_graph_handle,
      diag_second_phase = PhaseHandle invalid_graph_handle,
      diag_resource = ResourceHandle invalid_graph_handle\<rparr>"

section \<open>Building the adjacency lists\<close>

definition dependency_rejected :: "u32 \<Rightarrow> nat \<Rightarrow> graph_dependency \<Rightarrow> bool" where
  "dependency_rejected graph_owner phase_count d \<longleftrightarrow>
     \<not> phase_valid (prerequisite d) \<or>
     \<not> phase_valid (dependent d) \<or>
     phase_owner (prerequisite d) \<noteq> graph_owner \<or>
     phase_owner (dependent d) \<noteq> graph_owner \<or>
     phase_number (prerequisite d) \<ge> phase_count \<or>
     phase_number (dependent d) \<ge> phase_count"

record adjacency =
  successors :: "nat list list"
  predecessors :: "nat list list"
  indegree :: "nat list"

definition empty_adjacency :: "nat \<Rightarrow> adjacency" where
  "empty_adjacency phase_count =
     \<lparr>successors = replicate phase_count [],
      predecessors = replicate phase_count [],
      indegree = replicate phase_count 0\<rparr>"

definition push_at :: "nat \<Rightarrow> 'a \<Rightarrow> 'a list list \<Rightarrow> 'a list list" where
  "push_at i x xss = xss[i := xss ! i @ [x]]"

definition add_dependency :: "graph_dependency \<Rightarrow> adjacency \<Rightarrow> adjacency" where
  "add_dependency d adj =
     (let p = phase_number (prerequisite d); q = phase_number (dependent d)
      in \<lparr>successors = push_at p q (successors adj),
          predecessors = push_at q p (predecessors adj),
          indegree = (indegree adj)[q := Suc (indegree adj ! q)]\<rparr>)"

fun build_adjacency ::
  "u32 \<Rightarrow> nat \<Rightarrow> graph_dependency list \<Rightarrow> adjacency \<Rightarrow> graph_compile_diagnostic + adjacency" where
  "build_adjacency graph_owner phase_count [] adj = Inr adj"
| "build_adjacency graph_owner phase_count (d # ds) adj =
     (if dependency_rejected graph_owner phase_count d
      then Inl (graph_diagnostic\<lparr>diag_status := invalid_handle,
             diag_first_phase := prerequisite d, diag_second_phase := dependent d\<rparr>)
      else build_adjacency graph_owner phase_count ds (add_dependency d adj))"

section \<open>The ready queue\<close>

text \<open>
  \<^verbatim>\<open>std::priority_queue\<close> with \<^verbatim>\<open>std::greater\<close> serves the smallest element first.  The interface is
  stated on the multiset of the queued numbers; the model is an ascending list.
\<close>

definition ready_push :: "nat \<Rightarrow> nat list \<Rightarrow> nat list" where
  "ready_push x q = insort x q"

definition ready_top :: "nat list \<Rightarrow> nat" where
  "ready_top q = hd q"

definition ready_pop :: "nat list \<Rightarrow> nat list" where
  "ready_pop q = tl q"

definition ready_empty :: "nat list \<Rightarrow> bool" where
  "ready_empty q \<longleftrightarrow> q = []"

locale min_queue =
  fixes push :: "nat \<Rightarrow> 'q \<Rightarrow> 'q"
    and top :: "'q \<Rightarrow> nat"
    and pop :: "'q \<Rightarrow> 'q"
    and is_empty :: "'q \<Rightarrow> bool"
    and contents :: "'q \<Rightarrow> nat multiset"
    and invar :: "'q \<Rightarrow> bool"
  assumes contents_push: "invar q \<Longrightarrow> contents (push x q) = add_mset x (contents q)"
    and contents_pop: "invar q \<Longrightarrow> \<not> is_empty q \<Longrightarrow> contents q = add_mset (top q) (contents (pop q))"
    and top_least: "invar q \<Longrightarrow> x \<in># contents q \<Longrightarrow> top q \<le> x"
    and empty_contents: "invar q \<Longrightarrow> is_empty q \<longleftrightarrow> contents q = {#}"
    and invar_push: "invar q \<Longrightarrow> invar (push x q)"
    and invar_pop: "invar q \<Longrightarrow> \<not> is_empty q \<Longrightarrow> invar (pop q)"
begin

lemma top_in_contents: "invar q \<Longrightarrow> \<not> is_empty q \<Longrightarrow> top q \<in># contents q"
  using contents_pop by simp

lemma top_Min: "invar q \<Longrightarrow> \<not> is_empty q \<Longrightarrow> top q = Min (set_mset (contents q))"
  by (intro Min_eqI [symmetric]) (auto simp: top_in_contents top_least)

end

interpretation ready: min_queue ready_push ready_top ready_pop ready_empty mset sorted
proof
  fix x :: nat and q :: "nat list"
  show "sorted q \<Longrightarrow> mset (ready_push x q) = add_mset x (mset q)"
    by (simp add: ready_push_def)
  show "sorted q \<Longrightarrow> \<not> ready_empty q \<Longrightarrow> mset q = add_mset (ready_top q) (mset (ready_pop q))"
    by (cases q) (auto simp: ready_empty_def ready_top_def ready_pop_def)
  show "sorted q \<Longrightarrow> x \<in># mset q \<Longrightarrow> ready_top q \<le> x"
    by (cases q) (auto simp: ready_top_def)
  show "sorted q \<Longrightarrow> ready_empty q \<longleftrightarrow> mset q = {#}"
    by (simp add: ready_empty_def)
  show "sorted q \<Longrightarrow> sorted (ready_push x q)"
    by (simp add: ready_push_def sorted_insort)
  show "sorted q \<Longrightarrow> \<not> ready_empty q \<Longrightarrow> sorted (ready_pop q)"
    by (simp add: ready_pop_def sorted_tl)
qed

section \<open>Kahn's ordering\<close>

definition initial_ready :: "nat \<Rightarrow> nat list \<Rightarrow> nat list" where
  "initial_ready phase_count indeg =
     fold (\<lambda>phase q. if indeg ! phase = 0 then ready_push phase q else q) [0..<phase_count] []"

text \<open>One decrement \<^verbatim>\<open>--indegree[successor]\<close> followed by the test for zero.\<close>

definition release_successor :: "nat \<Rightarrow> nat list \<times> nat list \<Rightarrow> nat list \<times> nat list" where
  "release_successor s = (\<lambda>(q, indeg).
     if s < length indeg
     then (if indeg ! s = 1 then ready_push s q else q, indeg[s := indeg ! s - 1])
     else (q, indeg))"

fun release_successors :: "nat list \<Rightarrow> nat list \<times> nat list \<Rightarrow> nat list \<times> nat list" where
  "release_successors [] st = st"
| "release_successors (s # ss) st = release_successors ss (release_successor s st)"

abbreviation nonzero_count :: "nat list \<Rightarrow> nat" where
  "nonzero_count ds \<equiv> length (filter (\<lambda>d. d \<noteq> 0) ds)"

lemma release_successor_work:
  "release_successor s (q, indeg) = (q', indeg') \<Longrightarrow>
     length q' + nonzero_count indeg' \<le> length q + nonzero_count indeg"
  using length_filter_update [of s indeg "\<lambda>d. d \<noteq> 0" "indeg ! s - 1"]
  by (auto simp: release_successor_def ready_push_def split: if_splits)

lemma release_successors_work:
  "release_successors ss (q, indeg) = (q', indeg') \<Longrightarrow>
     length q' + nonzero_count indeg' \<le> length q + nonzero_count indeg"
proof (induction ss arbitrary: q indeg)
  case Nil
  then show ?case by simp
next
  case (Cons s ss)
  obtain q1 d1 where 1: "release_successor s (q, indeg) = (q1, d1)" by fastforce
  with Cons.prems have "length q' + nonzero_count indeg' \<le> length q1 + nonzero_count d1"
    by (intro Cons.IH) simp
  also note release_successor_work [OF 1]
  finally show ?case .
qed

function kahn_loop :: "nat list list \<Rightarrow> nat list \<Rightarrow> nat list \<Rightarrow> nat list \<Rightarrow> nat list" where
  "kahn_loop succ q indeg order =
     (if ready_empty q then order
      else let phase = ready_top q;
               (q', indeg') = release_successors (succ ! phase) (ready_pop q, indeg)
           in kahn_loop succ q' indeg' (order @ [phase]))"
  by pat_completeness auto
termination
proof (relation "measure (\<lambda>(succ, q, indeg, order). length q + nonzero_count indeg)", simp)
  fix succ q indeg order phase st q' indeg'
  assume ne: "\<not> ready_empty q" and "phase = ready_top q"
    and st: "st = release_successors (succ ! phase) (ready_pop q, indeg)" "(q', indeg') = st"
  have "length q' + nonzero_count indeg' \<le> length (ready_pop q) + nonzero_count indeg"
    using st by (intro release_successors_work) simp
  also have "\<dots> < length q + nonzero_count indeg"
    using ne by (simp add: ready_empty_def ready_pop_def)
  finally show "((succ, q', indeg', order @ [phase]), (succ, q, indeg, order))
    \<in> measure (\<lambda>(succ, q, indeg, order). length q + nonzero_count indeg)"
    by simp
qed

declare kahn_loop.simps [simp del]

section \<open>Finding a phase on a cycle\<close>

text \<open>
  Colours are 0 (unvisited), 1 (on the stack) and 2 (finished).  The stack is a list with its top
  first.  The cursor \<open>cursor ! phase\<close> is \<^verbatim>\<open>next_successor[phase]\<close>; it never passes the number of
  successors, so the source's test for equality is written as a bound.
\<close>

definition remaining_successors :: "nat list list \<Rightarrow> nat list \<Rightarrow> nat" where
  "remaining_successors succ cursor =
     (\<Sum>i<length cursor. length (succ ! i) - cursor ! i)"

lemma remaining_successors_advance:
  assumes "phase < length cursor" and "cursor ! phase < length (succ ! phase)"
  shows "remaining_successors succ (cursor[phase := Suc (cursor ! phase)])
    < remaining_successors succ cursor"
  unfolding remaining_successors_def length_list_update
proof (rule sum_strict_mono_ex1)
  show "\<exists>i\<in>{..<length cursor}. length (succ ! i) - cursor[phase := Suc (cursor ! phase)] ! i
      < length (succ ! i) - cursor ! i"
    using assms by (intro bexI [of _ phase]) auto
qed (use assms in \<open>auto simp: nth_list_update\<close>)

function cycle_search ::
  "nat list list \<Rightarrow> nat list \<Rightarrow> nat list \<Rightarrow> nat list \<Rightarrow> nat + nat list \<times> nat list" where
  "cycle_search succ color cursor [] = Inr (color, cursor)"
| "cycle_search succ color cursor (phase # stack) =
     (if length cursor \<le> phase \<or> length (succ ! phase) \<le> cursor ! phase
      then cycle_search succ (color[phase := 2]) cursor stack
      else let s = succ ! phase ! (cursor ! phase);
               cursor' = cursor[phase := Suc (cursor ! phase)]
           in if color ! s = 1 then Inl s
              else if color ! s = 0
                   then cycle_search succ (color[s := 1]) cursor' (s # phase # stack)
                   else cycle_search succ color cursor' (phase # stack))"
  by pat_completeness auto
termination
  by (relation "measures [\<lambda>(succ, color, cursor, stack). remaining_successors succ cursor,
        \<lambda>(succ, color, cursor, stack). length stack]")
    (auto simp: remaining_successors_advance)

declare cycle_search.simps(2) [simp del]

fun cycle_roots :: "nat list list \<Rightarrow> nat list \<Rightarrow> nat list \<Rightarrow> nat list \<Rightarrow> nat option" where
  "cycle_roots succ [] color cursor = None"
| "cycle_roots succ (root # roots) color cursor =
     (if color ! root \<noteq> 0 then cycle_roots succ roots color cursor
      else case cycle_search succ (color[root := 1]) cursor [root] of
             Inl s \<Rightarrow> Some s
           | Inr (color', cursor') \<Rightarrow> cycle_roots succ roots color' cursor')"

definition find_cycle :: "nat list list \<Rightarrow> nat \<Rightarrow> nat option" where
  "find_cycle succ phase_count =
     cycle_roots succ [0..<phase_count] (replicate phase_count 0) (replicate phase_count 0)"

section \<open>Reachability by visit tokens\<close>

definition visit_adjacent :: "u64 \<Rightarrow> nat \<Rightarrow> u64 list \<times> nat list \<Rightarrow> u64 list \<times> nat list" where
  "visit_adjacent token a = (\<lambda>(visited, stack).
     if a < length visited \<and> visited ! a \<noteq> token
     then (visited[a := token], a # stack) else (visited, stack))"

fun visit_all :: "u64 \<Rightarrow> nat list \<Rightarrow> u64 list \<times> nat list \<Rightarrow> u64 list \<times> nat list" where
  "visit_all token [] st = st"
| "visit_all token (a # as) st = visit_all token as (visit_adjacent token a st)"

abbreviation unmarked_count :: "u64 \<Rightarrow> u64 list \<Rightarrow> nat" where
  "unmarked_count token visited \<equiv> length (filter (\<lambda>t. t \<noteq> token) visited)"

lemma visit_adjacent_work:
  "visit_adjacent token a (visited, stack) = (visited', stack') \<Longrightarrow>
     length stack' + unmarked_count token visited' = length stack + unmarked_count token visited"
  using length_filter_update [of a visited "\<lambda>t. t \<noteq> token" token]
  by (auto simp: visit_adjacent_def split: if_splits)

lemma visit_all_work:
  "visit_all token as (visited, stack) = (visited', stack') \<Longrightarrow>
     length stack' + unmarked_count token visited' = length stack + unmarked_count token visited"
proof (induction as arbitrary: visited stack)
  case Nil
  then show ?case by simp
next
  case (Cons a as)
  obtain v1 s1 where 1: "visit_adjacent token a (visited, stack) = (v1, s1)" by fastforce
  with Cons.prems have "length stack' + unmarked_count token visited' =
      length s1 + unmarked_count token v1"
    by (intro Cons.IH) simp
  also note visit_adjacent_work [OF 1]
  finally show ?case .
qed

function mark_loop :: "nat list list \<Rightarrow> u64 \<Rightarrow> u64 list \<Rightarrow> nat list \<Rightarrow> u64 list" where
  "mark_loop adj token visited [] = visited"
| "mark_loop adj token visited (phase # stack) =
     (let (visited', stack') = visit_all token (adj ! phase) (visited, stack)
      in mark_loop adj token visited' stack')"
  by pat_completeness auto
termination
proof (relation "measure (\<lambda>(adj, token, visited, stack). length stack + unmarked_count token visited)",
    simp)
  fix adj token visited phase stack st visited' stack'
  assume "st = visit_all token (adj ! phase) (visited, stack)" and "(visited', stack') = st"
  then have "length stack' + unmarked_count token visited' =
      length stack + unmarked_count token visited"
    by (intro visit_all_work) simp
  then show "((adj, token, visited', stack'), (adj, token, visited, phase # stack))
    \<in> measure (\<lambda>(adj, token, visited, stack). length stack + unmarked_count token visited)"
    by simp
qed

declare mark_loop.simps(2) [simp del]

definition mark_reachable :: "nat \<Rightarrow> nat list list \<Rightarrow> u64 list \<Rightarrow> u64 \<Rightarrow> u64 list" where
  "mark_reachable start adj visited visit_token =
     mark_loop adj visit_token (visited[start := visit_token]) [start]"

section \<open>Resource conflicts\<close>

definition access_rejected :: "u32 \<Rightarrow> nat \<Rightarrow> nat \<Rightarrow> graph_resource_access \<Rightarrow> bool" where
  "access_rejected graph_owner phase_count resource_count a \<longleftrightarrow>
     \<not> phase_valid (acc_phase a) \<or> \<not> resource_valid (acc_resource a) \<or>
     phase_owner (acc_phase a) \<noteq> graph_owner \<or>
     resource_owner (acc_resource a) \<noteq> graph_owner \<or>
     phase_number (acc_phase a) \<ge> phase_count \<or>
     resource_number (acc_resource a) \<ge> resource_count \<or>
     (acc_access a \<noteq> access_read \<and> acc_access a \<noteq> access_write)"

definition access_key :: "graph_resource_access \<Rightarrow> nat \<times> nat" where
  "access_key a = (resource_number (acc_resource a), phase_number (acc_phase a))"

definition access_order :: "graph_resource_access list \<Rightarrow> nat list" where
  "access_order accesses = sort_key (\<lambda>i. access_key (accesses ! i)) [0..<length accesses]"

record reach_state =
  reachable_after :: "u64 list"
  reachable_before :: "u64 list"
  visit_token :: u64

definition next_token :: "reach_state \<Rightarrow> reach_state" where
  "next_token rs =
     (if visit_token rs = u64_max
      then \<lparr>reachable_after = map (\<lambda>_. 0) (reachable_after rs),
            reachable_before = map (\<lambda>_. 0) (reachable_before rs),
            visit_token = 1\<rparr>
      else rs\<lparr>visit_token := visit_token rs + 1\<rparr>)"

definition mark_writer :: "adjacency \<Rightarrow> nat \<Rightarrow> reach_state \<Rightarrow> reach_state" where
  "mark_writer adj phase rs =
     (let rs1 = next_token rs in
      rs1\<lparr>reachable_after :=
            mark_reachable phase (successors adj) (reachable_after rs1) (visit_token rs1),
          reachable_before :=
            mark_reachable phase (predecessors adj) (reachable_before rs1) (visit_token rs1)\<rparr>)"

definition unordered_with :: "reach_state \<Rightarrow> graph_resource_access \<Rightarrow> graph_resource_access \<Rightarrow> bool" where
  "unordered_with rs writer other \<longleftrightarrow>
     acc_phase writer \<noteq> acc_phase other \<and>
     reachable_after rs ! phase_number (acc_phase other) \<noteq> visit_token rs \<and>
     reachable_before rs ! phase_number (acc_phase other) \<noteq> visit_token rs"

fun check_writers ::
  "adjacency \<Rightarrow> resource_handle \<Rightarrow> graph_resource_access list \<Rightarrow> graph_resource_access list \<Rightarrow> reach_state \<Rightarrow>
     graph_compile_diagnostic + reach_state" where
  "check_writers adj res grp [] rs = Inr rs"
| "check_writers adj res grp (writer # writers) rs =
     (if acc_access writer \<noteq> access_write then check_writers adj res grp writers rs
      else let rs' = mark_writer adj (phase_number (acc_phase writer)) rs
           in case find (unordered_with rs' writer) grp of
                Some other \<Rightarrow>
                  Inl \<lparr>diag_status = resource_conflict,
                       diag_first_phase = acc_phase writer,
                       diag_second_phase = acc_phase other,
                       diag_resource = res\<rparr>
              | None \<Rightarrow> check_writers adj res grp writers rs')"

function check_groups ::
  "adjacency \<Rightarrow> graph_resource_access list \<Rightarrow> reach_state \<Rightarrow>
     graph_compile_diagnostic + reach_state" where
  "check_groups adj [] rs = Inr rs"
| "check_groups adj (a # as) rs =
     (let same = (\<lambda>b. acc_resource b = acc_resource a);
          grp = a # takeWhile same as
      in case check_writers adj (acc_resource a) grp grp rs of
           Inl d \<Rightarrow> Inl d
         | Inr rs' \<Rightarrow> check_groups adj (dropWhile same as) rs')"
  by pat_completeness auto
termination
  by (relation "measure (\<lambda>(adj, as, rs). length as)") (auto simp: length_dropWhile_le le_imp_less_Suc)

section \<open>The compiler\<close>

definition compile_order ::
  "u32 \<Rightarrow> nat \<Rightarrow> adjacency \<Rightarrow> graph_compile_diagnostic + phase_handle list" where
  "compile_order graph_owner phase_count adj =
     (let order = kahn_loop (successors adj) (initial_ready phase_count (indegree adj))
                    (indegree adj) []
      in if length order = phase_count
         then Inr (map (\<lambda>phase. phase_handle_of graph_owner (word_of_nat phase)) order)
         else case find_cycle (successors adj) phase_count of
                Some s \<Rightarrow> Inl (graph_diagnostic\<lparr>diag_status := graph_cycle,
                  diag_first_phase := phase_handle_of graph_owner (word_of_nat s)\<rparr>)
              | None \<Rightarrow> Inl (graph_diagnostic\<lparr>diag_status := internal_error\<rparr>))"

definition compile_accesses ::
  "u32 \<Rightarrow> nat \<Rightarrow> nat \<Rightarrow> adjacency \<Rightarrow> graph_resource_access list \<Rightarrow>
     graph_compile_diagnostic option" where
  "compile_accesses graph_owner phase_count resource_count adj accesses =
     (case find (access_rejected graph_owner phase_count resource_count) accesses of
        Some a \<Rightarrow> Some (graph_diagnostic\<lparr>diag_status := invalid_handle,
          diag_first_phase := acc_phase a, diag_resource := acc_resource a\<rparr>)
      | None \<Rightarrow>
          (case check_groups adj (map ((!) accesses) (access_order accesses))
                  \<lparr>reachable_after = replicate phase_count 0,
                   reachable_before = replicate phase_count 0, visit_token = 0\<rparr> of
             Inl d \<Rightarrow> Some d
           | Inr _ \<Rightarrow> None))"

definition compile_graph_checked ::
  "u32 \<Rightarrow> nat \<Rightarrow> nat \<Rightarrow> graph_dependency list \<Rightarrow> graph_resource_access list \<Rightarrow>
     graph_compile_diagnostic + phase_handle list" where
  "compile_graph_checked graph_owner phase_count resource_count dependencies accesses =
     (if phase_count > unat graph_handle_index_mask \<or> resource_count > unat graph_handle_index_mask
      then Inl (graph_diagnostic\<lparr>diag_status := capacity_exceeded\<rparr>)
      else case build_adjacency graph_owner phase_count dependencies
                  (empty_adjacency phase_count) of
             Inl d \<Rightarrow> Inl d
           | Inr adj \<Rightarrow>
               (case compile_order graph_owner phase_count adj of
                  Inl d \<Rightarrow> Inl d
                | Inr order \<Rightarrow>
                    (case compile_accesses graph_owner phase_count resource_count adj accesses of
                       Some d \<Rightarrow> Inl d
                     | None \<Rightarrow> Inr order)))"

text \<open>
  The entry point returns the status, the output vector and the diagnostic.  The output vector is
  the one passed in unless the whole graph compiles.
\<close>

definition compile_graph ::
  "u32 \<Rightarrow> nat \<Rightarrow> nat \<Rightarrow> graph_dependency list \<Rightarrow> graph_resource_access list \<Rightarrow>
     phase_handle list \<Rightarrow> status \<times> phase_handle list \<times> graph_compile_diagnostic" where
  "compile_graph graph_owner phase_count resource_count dependencies accesses output_order =
     (case compile_graph_checked graph_owner phase_count resource_count dependencies accesses of
        Inl d \<Rightarrow> (diag_status d, output_order, d)
      | Inr candidate_order \<Rightarrow> (ok, candidate_order, graph_diagnostic))"

end
