(* ===== verification/Graph_Order.thy ===== *)
theory Graph_Order
  imports Compiled_Graph
begin

text \<open>
  Correctness of the graph compiler: the adjacency lists represent the dependency relation, the
  Kahn loop enumerates exactly the phases outside every cycle in the greedy order.
\<close>

section \<open>The dependency relation\<close>

definition edge_list :: "graph_dependency list \<Rightarrow> (nat \<times> nat) list" where
  "edge_list ds = map (\<lambda>d. (phase_number (prerequisite d), phase_number (dependent d))) ds"

definition succs :: "(nat \<times> nat) list \<Rightarrow> nat \<Rightarrow> nat list" where
  "succs es i = map snd (filter (\<lambda>e. fst e = i) es)"

definition preds :: "(nat \<times> nat) list \<Rightarrow> nat \<Rightarrow> nat list" where
  "preds es i = map fst (filter (\<lambda>e. snd e = i) es)"

definition pending :: "(nat \<times> nat) list \<Rightarrow> nat set \<Rightarrow> nat \<Rightarrow> nat" where
  "pending es finished i = length (filter (\<lambda>e. snd e = i \<and> fst e \<notin> finished) es)"

definition adjacency_of :: "nat \<Rightarrow> (nat \<times> nat) list \<Rightarrow> adjacency" where
  "adjacency_of n es =
     \<lparr>successors = map (succs es) [0..<n],
      predecessors = map (preds es) [0..<n],
      indegree = map (pending es {}) [0..<n]\<rparr>"

lemma set_succs [simp]: "set (succs es i) = {j. (i, j) \<in> set es}"
  by (force simp: succs_def)

lemma set_preds [simp]: "set (preds es i) = {j. (j, i) \<in> set es}"
  by (force simp: preds_def)

lemma count_succs: "count_list (succs es i) j = length (filter (\<lambda>e. e = (i, j)) es)"
  by (induction es) (auto simp: succs_def)

lemma pending_0: "pending es finished i = 0 \<longleftrightarrow> (\<forall>a. (a, i) \<in> set es \<longrightarrow> a \<in> finished)"
  by (force simp: pending_def filter_empty_conv)

lemma pending_insert:
  assumes "p \<notin> finished"
  shows "pending es finished i = pending es (insert p finished) i + count_list (succs es p) i"
  unfolding count_succs pending_def using assms by (induction es) auto

lemma empty_adjacency_of: "empty_adjacency n = adjacency_of n []"
  by (simp add: empty_adjacency_def adjacency_of_def succs_def preds_def pending_def fun_eq_iff
      map_replicate_trivial list_eq_iff_nth_eq)

lemma push_at_map:
  assumes "i < n"
  shows "push_at i x (map f [0..<n]) = map (f(i := f i @ [x])) [0..<n]"
  using assms by (auto simp: push_at_def intro!: nth_equalityI)

lemma add_dependency_of:
  assumes "phase_number (prerequisite d) < n" and "phase_number (dependent d) < n"
  shows "add_dependency d (adjacency_of n es) = adjacency_of n (es @ edge_list [d])"
proof -
  let ?p = "phase_number (prerequisite d)" and ?q = "phase_number (dependent d)"
  have "(succs es)(?p := succs es ?p @ [?q]) = succs (es @ edge_list [d])"
    by (auto simp: succs_def edge_list_def)
  moreover have "(preds es)(?q := preds es ?q @ [?p]) = preds (es @ edge_list [d])"
    by (auto simp: preds_def edge_list_def)
  moreover have "(map (pending es {}) [0..<n])[?q := Suc (map (pending es {}) [0..<n] ! ?q)] =
      map (pending (es @ edge_list [d]) {}) [0..<n]"
    using assms by (auto simp: pending_def edge_list_def nth_list_update intro!: nth_equalityI)
  ultimately show ?thesis
    using assms by (simp add: add_dependency_def adjacency_of_def Let_def push_at_map)
qed

lemma edge_list_append: "edge_list (ds @ ds') = edge_list ds @ edge_list ds'"
  by (simp add: edge_list_def)

lemma build_adjacency_eq:
  "build_adjacency ow n ds (adjacency_of n es) =
     (case find (dependency_rejected ow n) ds of
        Some d \<Rightarrow> Inl (graph_diagnostic\<lparr>diag_status := invalid_handle,
             diag_first_phase := prerequisite d, diag_second_phase := dependent d\<rparr>)
      | None \<Rightarrow> Inr (adjacency_of n (es @ edge_list ds)))"
proof (induction ds arbitrary: es)
  case Nil
  then show ?case by (simp add: edge_list_def)
next
  case (Cons d ds)
  show ?case
  proof (cases "dependency_rejected ow n d")
    case True
    then show ?thesis by simp
  next
    case False
    then have "phase_number (prerequisite d) < n" and "phase_number (dependent d) < n"
      by (auto simp: dependency_rejected_def)
    with False show ?thesis
      using Cons.IH [of "es @ edge_list [d]"] edge_list_append [of "[d]" ds]
      by (simp add: add_dependency_of split: option.split)
  qed
qed

definition edges_within :: "nat \<Rightarrow> (nat \<times> nat) list \<Rightarrow> bool" where
  "edges_within n es \<longleftrightarrow> (\<forall>(a, b) \<in> set es. a < n \<and> b < n)"

lemma edges_withinD: "edges_within n es \<Longrightarrow> (a, b) \<in> set es \<Longrightarrow> a < n \<and> b < n"
  by (auto simp: edges_within_def)

lemma edge_list_within:
  "find (dependency_rejected ow n) ds = None \<Longrightarrow> edges_within n (edge_list ds)"
  by (auto simp: find_None_iff edges_within_def edge_list_def dependency_rejected_def)

section \<open>Kahn's loop\<close>

lemma release_successor_simp:
  assumes "s < length indeg"
  shows "release_successor s (q, indeg) =
    (if indeg ! s = 1 then ready_push s q else q, indeg[s := indeg ! s - 1])"
  using assms by (simp add: release_successor_def)

text \<open>
  Releasing a list of successors decrements each counter once per occurrence and queues exactly
  the phases whose counter reaches zero; no counter is decremented below zero.
\<close>

lemma release_successors_spec:
  assumes "release_successors ss (q, indeg) = (q', indeg')"
    and "\<forall>i \<in> set ss. i < length indeg"
    and "\<forall>i < length indeg. count_list ss i \<le> indeg ! i"
    and "sorted q" and "distinct q" and "\<forall>i \<in> set q. i < length indeg \<and> indeg ! i = 0"
  shows "length indeg' = length indeg \<and>
    (\<forall>i < length indeg. indeg' ! i = indeg ! i - count_list ss i) \<and>
    set q' = set q \<union> {i \<in> set ss. indeg ! i = count_list ss i} \<and> sorted q' \<and> distinct q'"
  using assms
proof (induction ss arbitrary: q indeg)
  case Nil
  then show ?case by simp
next
  case (Cons s ss)
  let ?q1 = "if indeg ! s = 1 then ready_push s q else q"
  let ?d1 = "indeg[s := indeg ! s - 1]"
  have s: "s < length indeg" "1 + count_list ss s \<le> indeg ! s"
    using Cons.prems(2,3) by auto
  then have "s \<notin> set q" using Cons.prems(6) by auto
  have "release_successors ss (?q1, ?d1) = (q', indeg')"
    using Cons.prems(1) s by (simp add: release_successor_simp)
  moreover have "\<forall>i < length ?d1. count_list ss i \<le> ?d1 ! i"
    using Cons.prems(3) s by (auto simp: nth_list_update split: if_splits)
  moreover have "sorted ?q1" and "distinct ?q1"
    using Cons.prems(4,5) \<open>s \<notin> set q\<close>
    by (auto simp: ready_push_def sorted_insort distinct_insort)
  moreover have "\<forall>i \<in> set ?q1. i < length ?d1 \<and> ?d1 ! i = 0"
    using Cons.prems(6) s \<open>s \<notin> set q\<close>
    by (auto simp: ready_push_def set_insort_key nth_list_update)
  ultimately have IH: "length indeg' = length ?d1 \<and>
    (\<forall>i < length ?d1. indeg' ! i = ?d1 ! i - count_list ss i) \<and>
    set q' = set ?q1 \<union> {i \<in> set ss. ?d1 ! i = count_list ss i} \<and> sorted q' \<and> distinct q'"
    using Cons.prems(2) by (intro Cons.IH) simp_all
  have "set q' = set q \<union> {i \<in> set (s # ss). indeg ! i = count_list (s # ss) i}"
  proof (rule set_eqI)
    fix i
    show "i \<in> set q' \<longleftrightarrow> i \<in> set q \<union> {i \<in> set (s # ss). indeg ! i = count_list (s # ss) i}"
    proof (cases "i = s")
      case True
      then show ?thesis
        using IH s by (auto simp: ready_push_def set_insort_key nth_list_update count_list_0_iff)
    next
      case False
      then show ?thesis
        using IH by (auto simp: ready_push_def set_insort_key nth_list_update)
    qed
  qed
  then show ?case using IH s by (auto simp: nth_list_update)
qed

definition available :: "(nat \<times> nat) list \<Rightarrow> nat \<Rightarrow> nat set \<Rightarrow> nat set" where
  "available es n finished =
     {i. i < n \<and> i \<notin> finished \<and> (\<forall>a. (a, i) \<in> set es \<longrightarrow> a \<in> finished)}"

text \<open>
  An order is greedy when every entry is the least phase whose prerequisites all precede it.
  A greedy order is topological and is determined by the edges.
\<close>

definition greedy_order :: "(nat \<times> nat) list \<Rightarrow> nat \<Rightarrow> nat list \<Rightarrow> bool" where
  "greedy_order es n order \<longleftrightarrow>
     (\<forall>k < length order.
        order ! k \<in> available es n (set (take k order)) \<and>
        (\<forall>j \<in> available es n (set (take k order)). order ! k \<le> j))"

lemma greedy_order_snoc:
  "greedy_order es n (order @ [p]) \<longleftrightarrow>
     greedy_order es n order \<and> p \<in> available es n (set order) \<and>
     (\<forall>j \<in> available es n (set order). p \<le> j)"
  unfolding greedy_order_def
  by (simp add: All_less_Suc nth_append conj_commute conj_left_commute cong: conj_cong)

lemma greedy_order_closed:
  assumes "greedy_order es n order" and "i \<in> set order" and "(a, i) \<in> set es"
  shows "a \<in> set order"
proof -
  obtain k where "k < length order" and "order ! k = i"
    using assms(2) by (auto simp: in_set_conv_nth)
  then have "a \<in> set (take k order)"
    using assms(1,3) by (auto simp: greedy_order_def available_def)
  then show ?thesis by (rule in_set_takeD)
qed

lemma greedy_order_distinct: "greedy_order es n order \<Longrightarrow> distinct order"
proof (induction order rule: rev_induct)
  case Nil
  then show ?case by simp
next
  case (snoc p order)
  then show ?case by (simp add: greedy_order_snoc available_def)
qed

definition kahn_inv :: "(nat \<times> nat) list \<Rightarrow> nat \<Rightarrow> nat list \<Rightarrow> nat list \<Rightarrow> nat list \<Rightarrow> bool" where
  "kahn_inv es n q indeg order \<longleftrightarrow>
     sorted q \<and> distinct q \<and> set q = available es n (set order) \<and>
     length indeg = n \<and> (\<forall>i < n. indeg ! i = pending es (set order) i) \<and>
     greedy_order es n order"

lemma available_step:
  assumes greedy: "greedy_order es n order" and p: "p \<in> available es n (set order)"
    and within: "edges_within n es"
  shows "available es n (insert p (set order)) =
    available es n (set order) - {p} \<union>
    {i \<in> set (succs es p). pending es (set order) i = count_list (succs es p) i}"
proof -
  have pn: "p \<notin> set order" using p by (simp add: available_def)
  have iff: "pending es (set order) i = count_list (succs es p) i \<longleftrightarrow>
      (\<forall>a. (a, i) \<in> set es \<longrightarrow> a \<in> insert p (set order))" for i
    using pending_insert [OF pn, of es i] pending_0 [of es "insert p (set order)" i] by simp
  have new: "i < n \<and> i \<noteq> p \<and> i \<notin> set order" if "(p, i) \<in> set es" for i
    using that pn p greedy_order_closed [OF greedy _ that] edges_withinD [OF within that]
    unfolding available_def by blast
  show ?thesis
  proof (rule set_eqI, rule iffI)
    fix i assume i: "i \<in> available es n (insert p (set order))"
    then have all: "\<forall>a. (a, i) \<in> set es \<longrightarrow> a \<in> insert p (set order)"
      and ni: "i < n" "i \<noteq> p" "i \<notin> set order" by (auto simp: available_def)
    show "i \<in> available es n (set order) - {p} \<union>
      {i \<in> set (succs es p). pending es (set order) i = count_list (succs es p) i}"
    proof (cases "(p, i) \<in> set es")
      case True
      then show ?thesis using all iff [of i] by simp
    next
      case False
      then have "\<forall>a. (a, i) \<in> set es \<longrightarrow> a \<in> set order" using all by blast
      then show ?thesis using ni by (simp add: available_def)
    qed
  next
    fix i assume "i \<in> available es n (set order) - {p} \<union>
      {i \<in> set (succs es p). pending es (set order) i = count_list (succs es p) i}"
    then show "i \<in> available es n (insert p (set order))"
      using iff [of i] new [of i] by (auto simp: available_def)
  qed
qed

lemma kahn_step:
  assumes inv: "kahn_inv es n q indeg order" and ne: "\<not> ready_empty q"
    and within: "edges_within n es"
    and rel: "release_successors (succs es (ready_top q)) (ready_pop q, indeg) = (q', indeg')"
  shows "kahn_inv es n q' indeg' (order @ [ready_top q])"
proof -
  let ?p = "ready_top q" and ?r = "ready_pop q"
  have q: "q = ?p # ?r" "sorted q" "distinct q" "set q = available es n (set order)"
    using inv ne by (auto simp: kahn_inv_def ready_empty_def ready_top_def ready_pop_def)
  have len: "length indeg = n" and indeg: "\<forall>i < n. indeg ! i = pending es (set order) i"
    and greedy: "greedy_order es n order"
    using inv by (auto simp: kahn_inv_def)
  have p: "?p \<in> available es n (set order)" using q by (metis list.set_intros(1))
  then have pn: "?p < n" "?p \<notin> set order" by (auto simp: available_def)
  have least: "\<forall>j \<in> available es n (set order). ?p \<le> j"
    using q(2,4) ready.top_least by (metis set_mset_mset)
  have r: "set ?r = available es n (set order) - {?p}" "sorted ?r" "distinct ?r"
    using q by (metis Diff_insert_absorb distinct.simps(2) list.simps(15), metis sorted_simps(2),
        metis distinct.simps(2))
  have avail0: "indeg ! i = 0" if "i \<in> available es n (set order)" for i
    using that indeg by (auto simp: available_def pending_0)
  have spec: "length indeg' = length indeg \<and>
    (\<forall>i < length indeg. indeg' ! i = indeg ! i - count_list (succs es ?p) i) \<and>
    set q' = set ?r \<union> {i \<in> set (succs es ?p). indeg ! i = count_list (succs es ?p) i} \<and>
    sorted q' \<and> distinct q'"
    using rel
  proof (rule release_successors_spec)
    show "\<forall>i \<in> set (succs es ?p). i < length indeg"
      using within len by (auto dest: edges_withinD)
    show "\<forall>i < length indeg. count_list (succs es ?p) i \<le> indeg ! i"
      using indeg len pending_insert [OF pn(2), of es] by simp
    show "\<forall>i \<in> set ?r. i < length indeg \<and> indeg ! i = 0"
      using r avail0 len by (auto simp: available_def)
  qed (use r in auto)
  have "{i \<in> set (succs es ?p). indeg ! i = count_list (succs es ?p) i} =
      {i \<in> set (succs es ?p). pending es (set order) i = count_list (succs es ?p) i}"
    using indeg within by (auto dest: edges_withinD)
  with spec r available_step [OF greedy p within]
  have "set q' = available es n (set (order @ [?p]))" by simp
  moreover have "\<forall>i < n. indeg' ! i = pending es (set (order @ [?p])) i"
    using spec len indeg pending_insert [OF pn(2), of es] by simp
  ultimately show ?thesis
    using spec len greedy p least by (simp add: kahn_inv_def greedy_order_snoc)
qed

lemma kahn_loop_inv:
  assumes "kahn_inv es n q indeg order" and "edges_within n es"
  shows "greedy_order es n (kahn_loop (map (succs es) [0..<n]) q indeg order) \<and>
    available es n (set (kahn_loop (map (succs es) [0..<n]) q indeg order)) = {}"
  using assms
proof (induction "map (succs es) [0..<n]" q indeg order rule: kahn_loop.induct)
  case (1 q indeg order)
  show ?case
  proof (cases "ready_empty q")
    case True
    then show ?thesis
      using "1.prems" by (subst (1 2) kahn_loop.simps) (auto simp: kahn_inv_def ready_empty_def)
  next
    case False
    then have "ready_top q \<in> available es n (set order)"
      using "1.prems"(1) by (auto simp: kahn_inv_def ready_empty_def ready_top_def)
    then have top: "map (succs es) [0..<n] ! ready_top q = succs es (ready_top q)"
      by (simp add: available_def)
    obtain q' indeg' where rel:
      "release_successors (succs es (ready_top q)) (ready_pop q, indeg) = (q', indeg')"
      by fastforce
    with False "1.prems" have "kahn_inv es n q' indeg' (order @ [ready_top q])"
      by (intro kahn_step)
    with False rel top "1.hyps" [OF False refl refl] "1.prems"(2) show ?thesis
      by (subst (1 2) kahn_loop.simps) (simp add: Let_def)
  qed
qed

lemma initial_ready_inv:
  assumes "length indeg = n"
  shows "sorted (initial_ready n indeg) \<and> distinct (initial_ready n indeg) \<and>
    set (initial_ready n indeg) = {i. i < n \<and> indeg ! i = 0}"
proof -
  let ?f = "\<lambda>phase q. if indeg ! phase = 0 then ready_push phase q else q"
  have "sorted (fold ?f [0..<m] []) \<and> distinct (fold ?f [0..<m] []) \<and>
      set (fold ?f [0..<m] []) = {i. i < m \<and> indeg ! i = 0}" for m
  proof (induction m)
    case 0
    then show ?case by simp
  next
    case (Suc m)
    then have "m \<notin> set (fold ?f [0..<m] [])" by simp
    moreover have "{i. i < Suc m \<and> indeg ! i = 0} =
        (if indeg ! m = 0 then insert m {i. i < m \<and> indeg ! i = 0} else {i. i < m \<and> indeg ! i = 0})"
      by (auto elim: less_SucE)
    ultimately show ?case
      using Suc by (simp add: ready_push_def sorted_insort distinct_insort set_insort_key)
  qed
  then show ?thesis by (simp add: initial_ready_def)
qed

lemma kahn_order:
  assumes "edges_within n es"
  defines "order \<equiv> kahn_loop (map (succs es) [0..<n])
    (initial_ready n (map (pending es {}) [0..<n])) (map (pending es {}) [0..<n]) []"
  shows "greedy_order es n order" and "available es n (set order) = {}"
proof -
  let ?d = "map (pending es {}) [0..<n]"
  have "set (initial_ready n ?d) = available es n (set [])"
    using initial_ready_inv [of ?d n] by (simp add: available_def pending_0 cong: conj_cong)
  then have "kahn_inv es n (initial_ready n ?d) ?d []"
    using initial_ready_inv [of ?d n] by (simp add: kahn_inv_def greedy_order_def)
  from kahn_loop_inv [OF this assms(1)]
  show "greedy_order es n order" and "available es n (set order) = {}"
    by (simp_all add: order_def)
qed

text \<open>The order covers every phase exactly when the dependencies are acyclic.\<close>

lemma greedy_complete:
  assumes "greedy_order es n order" and "available es n (set order) = {}"
    and "edges_within n es"
  shows "length order = n \<longleftrightarrow> acyclic (set es)"
proof -
  have sub: "set order \<subseteq> {..<n}"
    using assms(1) by (force simp: greedy_order_def available_def in_set_conv_nth)
  have card: "card (set order) = length order"
    using greedy_order_distinct [OF assms(1)] by (rule distinct_card)
  show ?thesis
  proof
    assume "length order = n"
    then have all: "set order = {..<n}"
      using sub card by (intro card_subset_eq) auto
    have "position order a < position order b" if e: "(a, b) \<in> set es" for a b
    proof -
      have "b \<in> set order" using edges_withinD [OF assms(3) e] all by simp
      then obtain k where k: "k < length order" "order ! k = b"
        by (auto simp: in_set_conv_nth)
      then have "a \<in> set (take k order)"
        using assms(1) e by (auto simp: greedy_order_def available_def)
      then show ?thesis
        using k position_less position_nth greedy_order_distinct [OF assms(1)] by metis
    qed
    then show "acyclic (set es)" by (rule acyclic_rank)
  next
    assume "acyclic (set es)"
    then have "wf (set es)" by (simp add: finite_acyclic_wf)
    have "{..<n} - set order = {}"
    proof (rule ccontr)
      assume "{..<n} - set order \<noteq> {}"
      then obtain z where z: "z \<in> {..<n} - set order"
        and least: "\<And>a. (a, z) \<in> set es \<Longrightarrow> a \<notin> {..<n} - set order"
        using wfE_min [OF \<open>wf (set es)\<close>] by (metis all_not_in_conv)
      have "z \<in> available es n (set order)"
        using z least edges_withinD [OF assms(3)] by (auto simp: available_def)
      then show False using assms(2) by simp
    qed
    then have "set order = {..<n}" using sub by blast
    then show "length order = n" using card by simp
  qed
qed

end
