(* ===== verification/Graph_Cycles.thy ===== *)
theory Graph_Cycles
  imports Graph_Order
begin

text \<open>
  The depth-first search that reports a cycle: a reported phase lies on a cycle, and a search
  that reports nothing has visited every phase of an acyclic graph.
\<close>

section \<open>The invariant of the search\<close>

text \<open>
  Read from the top of the stack downwards: every explored successor of an entry is finished or is
  the entry above it, and the entry above it is one of its successors.
\<close>

fun stack_ok ::
  "(nat \<times> nat) list \<Rightarrow> nat list \<Rightarrow> nat list \<Rightarrow> nat list \<Rightarrow> nat option \<Rightarrow> bool" where
  "stack_ok es color cursor [] child \<longleftrightarrow> True"
| "stack_ok es color cursor (p # st) child \<longleftrightarrow>
     (\<forall>k < cursor ! p. k < length (succs es p) \<longrightarrow>
        color ! (succs es p ! k) = 2 \<or> child = Some (succs es p ! k)) \<and>
     (\<forall>c. child = Some c \<longrightarrow> (p, c) \<in> set es) \<and>
     stack_ok es color cursor st (Some p)"

definition dfs_inv :: "(nat \<times> nat) list \<Rightarrow> nat \<Rightarrow> nat list \<Rightarrow> nat list \<Rightarrow> nat list \<Rightarrow> bool" where
  "dfs_inv es n color cursor stack \<longleftrightarrow>
     length color = n \<and> length cursor = n \<and> distinct stack \<and>
     (\<forall>i. i \<in> set stack \<longleftrightarrow> i < n \<and> color ! i = 1) \<and>
     (\<forall>i < n. color ! i \<le> 2 \<and> (color ! i = 0 \<longrightarrow> cursor ! i = 0)) \<and>
     (\<forall>i < n. color ! i = 2 \<longrightarrow> (\<forall>s. (i, s) \<in> set es \<longrightarrow> color ! s = 2) \<and> (i, i) \<notin> (set es)\<^sup>+) \<and>
     stack_ok es color cursor stack None"

lemma succs_nth: "k < length (succs es p) \<Longrightarrow> (p, succs es p ! k) \<in> set es"
  using nth_mem [of k "succs es p"] by simp

lemma stack_ok_mono:
  assumes "stack_ok es color cursor st child"
    and "\<And>i. color ! i = 2 \<Longrightarrow> color' ! i = 2"
    and "\<And>i. i \<in> set st \<Longrightarrow> cursor' ! i = cursor ! i"
    and "child' = child \<or> (child' = None \<and> (\<forall>c. child = Some c \<longrightarrow> color' ! c = 2))"
  shows "stack_ok es color' cursor' st child'"
  using assms
proof (induction st arbitrary: child child')
  case Nil
  then show ?case by simp
next
  case (Cons p st)
  have "stack_ok es color' cursor' st (Some p)"
    using Cons.prems by (intro Cons.IH [of "Some p" "Some p"]) auto
  with Cons.prems show ?case by fastforce
qed

lemma stack_ok_path:
  assumes "stack_ok es color cursor (p # st) child" and "s \<in> set (p # st)"
  shows "(s, p) \<in> (set es)\<^sup>*"
  using assms
proof (induction st arbitrary: p child)
  case Nil
  then show ?case by simp
next
  case (Cons q st)
  have edge: "(q, p) \<in> set es" and below: "stack_ok es color cursor (q # st) (Some p)"
    using Cons.prems(1) by simp_all
  show ?case
  proof (cases "s = p")
    case False
    then have "(s, q) \<in> (set es)\<^sup>*" using Cons.IH [OF below] Cons.prems(2) by simp
    then show ?thesis using edge by (rule rtrancl_into_rtrancl)
  qed simp
qed

lemma dfs_black_closed:
  assumes "dfs_inv es n color cursor stack" and "edges_within n es"
    and "(i, j) \<in> (set es)\<^sup>*" and "i < n" and "color ! i = 2"
  shows "j < n \<and> color ! j = 2"
  using assms(3)
proof (induction rule: rtrancl_induct)
  case base
  then show ?case using assms(4,5) by simp
next
  case (step y z)
  then show ?case using assms(1) edges_withinD [OF assms(2)] unfolding dfs_inv_def by blast
qed

lemma dfs_inv_top:
  assumes "dfs_inv es n color cursor (p # stack)"
  shows "p < n" and "color ! p = 1" and "p \<notin> set stack" and "length color = n"
    and "length cursor = n"
    and "\<forall>k < cursor ! p. k < length (succs es p) \<longrightarrow> color ! (succs es p ! k) = 2"
    and "stack_ok es color cursor stack (Some p)"
  using assms unfolding dfs_inv_def by (simp_all, metis, metis)

lemma dfs_inv_color:
  assumes "dfs_inv es n color cursor stack"
  shows "i \<in> set stack \<longleftrightarrow> i < n \<and> color ! i = 1"
    and "i < n \<Longrightarrow> color ! i \<le> 2" and "i < n \<Longrightarrow> color ! i = 0 \<Longrightarrow> cursor ! i = 0"
    and "i < n \<Longrightarrow> color ! i = 2 \<Longrightarrow> (i, s) \<in> set es \<Longrightarrow> color ! s = 2"
    and "i < n \<Longrightarrow> color ! i = 2 \<Longrightarrow> (i, i) \<notin> (set es)\<^sup>+"
  using assms unfolding dfs_inv_def by blast+

section \<open>Preservation\<close>

lemma dfs_finish:
  assumes inv: "dfs_inv es n color cursor (p # stack)" and within: "edges_within n es"
    and fin: "length (succs es p) \<le> cursor ! p"
  shows "dfs_inv es n (color[p := 2]) cursor stack"
proof -
  note p = dfs_inv_top(1-5) [OF inv] and top = dfs_inv_top(6) [OF inv] and c = dfs_inv_color [OF inv]
  have black: "color ! s = 2 \<and> s < n" if e: "(p, s) \<in> set es" for s
  proof -
    have "s \<in> set (succs es p)" using e by simp
    then obtain k where "k < length (succs es p)" "succs es p ! k = s"
      by (metis in_set_conv_nth)
    then show ?thesis using top fin edges_withinD [OF within e] by auto
  qed
  have off: "(p, p) \<notin> (set es)\<^sup>+"
  proof
    assume "(p, p) \<in> (set es)\<^sup>+"
    then obtain s where "(p, s) \<in> set es" "(s, p) \<in> (set es)\<^sup>*" by (meson tranclD)
    then have "color ! p = 2" using dfs_black_closed [OF inv within] black by blast
    then show False using p by simp
  qed
  have "stack_ok es (color[p := 2]) cursor stack None"
    using dfs_inv_top(7) [OF inv] by (rule stack_ok_mono) (use p in \<open>auto simp: nth_list_update\<close>)
  moreover have "i \<in> set stack \<longleftrightarrow> i < n \<and> color[p := 2] ! i = 1" for i
    using c(1) [of i] p by (cases "i = p") auto
  moreover have "color[p := 2] ! s = 2" if "i < n" "color[p := 2] ! i = 2" "(i, s) \<in> set es" for i s
    using c(4) [of i s] p black [of s] that by (cases "i = p"; cases "s = p") auto
  moreover have "(i, i) \<notin> (set es)\<^sup>+" if "i < n" "color[p := 2] ! i = 2" for i
    using c(5) [of i] p off that by (cases "i = p") auto
  moreover have "color[p := 2] ! i \<le> 2 \<and> (color[p := 2] ! i = 0 \<longrightarrow> cursor ! i = 0)" if "i < n" for i
    using c(2,3) [of i] p that by (cases "i = p") auto
  moreover have "distinct stack" using inv by (simp add: dfs_inv_def)
  moreover have "length (color[p := 2]) = n" using p by simp
  ultimately show ?thesis
    using p(5) unfolding dfs_inv_def by blast
qed

lemma dfs_advance:
  assumes inv: "dfs_inv es n color cursor (p # stack)" and within: "edges_within n es"
    and k: "cursor ! p < length (succs es p)" and s: "s = succs es p ! (cursor ! p)"
    and color: "color ! s \<noteq> 1"
  shows "if color ! s = 0
    then dfs_inv es n (color[s := 1]) (cursor[p := Suc (cursor ! p)]) (s # p # stack)
    else dfs_inv es n color (cursor[p := Suc (cursor ! p)]) (p # stack)"
proof -
  let ?cursor = "cursor[p := Suc (cursor ! p)]"
  note p = dfs_inv_top(1-5) [OF inv] and top = dfs_inv_top(6) [OF inv]
    and ok = dfs_inv_top(7) [OF inv] and c = dfs_inv_color [OF inv]
  have e: "(p, s) \<in> set es" using k s by (simp add: succs_nth)
  have sn: "s < n" "s \<noteq> p" using edges_withinD [OF within e] color p by auto
  show ?thesis
  proof (cases "color ! s = 0")
    case True
    have ns: "s \<notin> set (p # stack)" and zero: "cursor ! s = 0"
      using c(1) [of s] c(3) [of s] True sn by simp_all
    have keep: "color[s := 1] ! i = 2" if "color ! i = 2" for i
      using that True by (cases "i = s") auto
    have "stack_ok es (color[s := 1]) ?cursor stack (Some p)"
      using ok by (rule stack_ok_mono) (use keep p in \<open>auto simp: nth_list_update\<close>)
    then have "stack_ok es (color[s := 1]) ?cursor (s # p # stack) None"
      using top keep s e p sn zero by (auto simp: less_Suc_eq)
    moreover have "i \<in> set (s # p # stack) \<longleftrightarrow> i < n \<and> color[s := 1] ! i = 1" for i
      using c(1) [of i] sn p by (cases "i = s") auto
    moreover have "color[s := 1] ! t = 2" if "i < n" "color[s := 1] ! i = 2" "(i, t) \<in> set es" for i t
      using c(4) [of i t] keep [of t] p sn that by (cases "i = s") auto
    moreover have "(i, i) \<notin> (set es)\<^sup>+" if "i < n" "color[s := 1] ! i = 2" for i
      using c(5) [of i] p sn that by (cases "i = s") auto
    moreover have "color[s := 1] ! i \<le> 2 \<and> (color[s := 1] ! i = 0 \<longrightarrow> ?cursor ! i = 0)" if "i < n" for i
      using c(2,3) [of i] p sn that by (cases "i = s"; cases "i = p") auto
    moreover have "distinct (s # p # stack)" using inv ns by (simp add: dfs_inv_def)
    moreover have "length (color[s := 1]) = n" "length ?cursor = n" using p by simp_all
    ultimately have "dfs_inv es n (color[s := 1]) ?cursor (s # p # stack)"
      unfolding dfs_inv_def by blast
    then show ?thesis using True by simp
  next
    case False
    then have "color ! s = 2" using c(2) [of s] color sn by simp
    moreover have "stack_ok es color ?cursor stack (Some p)"
      using ok by (rule stack_ok_mono) (use p in \<open>auto simp: nth_list_update\<close>)
    ultimately have "stack_ok es color ?cursor (p # stack) None"
      using top s p by (auto simp: less_Suc_eq)
    moreover have "\<forall>i < n. color ! i \<le> 2 \<and> (color ! i = 0 \<longrightarrow> ?cursor ! i = 0)"
      using c(2,3) p by (metis nth_list_update_neq zero_neq_one)
    moreover have "length ?cursor = n" using p by simp
    ultimately have "dfs_inv es n color ?cursor (p # stack)"
      using inv unfolding dfs_inv_def by blast
    then show ?thesis using False by simp
  qed
qed

section \<open>The search\<close>

lemma cycle_search_sound:
  assumes "dfs_inv es n color cursor stack" and "edges_within n es"
  shows "case cycle_search (map (succs es) [0..<n]) color cursor stack of
      Inl s \<Rightarrow> s < n \<and> (s, s) \<in> (set es)\<^sup>+
    | Inr (color', cursor') \<Rightarrow> dfs_inv es n color' cursor' [] \<and>
        (\<forall>i < n. color ! i \<noteq> 0 \<longrightarrow> color' ! i \<noteq> 0)"
  using assms
proof (induction "map (succs es) [0..<n]" color cursor stack rule: cycle_search.induct)
  case (1 color cursor)
  then show ?case by simp
next
  case (2 color cursor p stack)
  note inv = "2.prems"(1) and within = "2.prems"(2)
  note p = dfs_inv_top [OF inv]
  let ?succ = "map (succs es) [0..<n]"
  have sp: "?succ ! p = succs es p" using p by simp
  show ?case
  proof (cases "length (succs es p) \<le> cursor ! p")
    case True
    then have c: "length cursor \<le> p \<or> length (?succ ! p) \<le> cursor ! p" using sp by simp
    have eq: "cycle_search ?succ color cursor (p # stack) =
        cycle_search ?succ (color[p := 2]) cursor stack"
      using c by (simp add: cycle_search.simps(2))
    have keep: "color[p := 2] ! i \<noteq> 0" if "color ! i \<noteq> 0" for i
      using that p by (cases "i = p") auto
    show ?thesis
      unfolding eq using "2.hyps"(1) [OF c dfs_finish [OF inv within True] within] keep
      by (auto split: sum.splits)
  next
    case False
    let ?s = "succs es p ! (cursor ! p)" and ?cursor = "cursor[p := Suc (cursor ! p)]"
    have c: "\<not> (length cursor \<le> p \<or> length (?succ ! p) \<le> cursor ! p)"
      using False sp p by simp
    have s: "?s = ?succ ! p ! (cursor ! p)" using sp by simp
    have e: "(p, ?s) \<in> set es" using False by (simp add: succs_nth)
    have eq: "cycle_search ?succ color cursor (p # stack) =
        (if color ! ?s = 1 then Inl ?s
         else if color ! ?s = 0 then cycle_search ?succ (color[?s := 1]) ?cursor (?s # p # stack)
         else cycle_search ?succ color ?cursor (p # stack))"
      using c sp by (subst cycle_search.simps(2)) (simp add: Let_def)
    consider (grey) "color ! ?s = 1" | (white) "color ! ?s = 0" | (black) "color ! ?s \<noteq> 0" "color ! ?s \<noteq> 1"
      by blast
    then show ?thesis
    proof cases
      case grey
      have "?s < n" using edges_withinD [OF within e] by simp
      then have "?s \<in> set (p # stack)" using grey dfs_inv_color(1) [OF inv] by blast
      then have "(?s, p) \<in> (set es)\<^sup>*"
        using inv stack_ok_path unfolding dfs_inv_def by blast
      then have "(?s, ?s) \<in> (set es)\<^sup>+" using e by (rule rtrancl_into_trancl1)
      then show ?thesis unfolding eq using grey \<open>?s < n\<close> by simp
    next
      case white
      then have "dfs_inv es n (color[?s := 1]) ?cursor (?s # p # stack)"
        using dfs_advance [OF inv within _ refl] False by simp
      moreover have "color[?s := 1] ! i \<noteq> 0" if "color ! i \<noteq> 0" for i
        using that p edges_withinD [OF within e] by (cases "i = ?s") auto
      ultimately show ?thesis
        unfolding eq using "2.hyps"(2) [OF c s refl] white within by (auto split: sum.splits)
    next
      case black
      then have "dfs_inv es n color ?cursor (p # stack)"
        using dfs_advance [OF inv within _ refl] False by simp
      then show ?thesis
        unfolding eq using "2.hyps"(3) [OF c s refl] black within by (auto split: sum.splits)
    qed
  qed
qed

lemma cycle_roots_sound:
  assumes "dfs_inv es n color cursor []" and "edges_within n es" and "\<forall>r \<in> set roots. r < n"
  shows "case cycle_roots (map (succs es) [0..<n]) roots color cursor of
      Some s \<Rightarrow> s < n \<and> (s, s) \<in> (set es)\<^sup>+
    | None \<Rightarrow> \<forall>i < n. color ! i \<noteq> 0 \<or> i \<in> set roots \<longrightarrow> (i, i) \<notin> (set es)\<^sup>+"
  using assms
proof (induction roots arbitrary: color cursor)
  case Nil
  have "color ! i = 2" if "i < n" "color ! i \<noteq> 0" for i
    using dfs_inv_color(1,2) [OF Nil.prems(1), of i] that by simp
  then show ?case using dfs_inv_color(5) [OF Nil.prems(1)] by auto
next
  case (Cons root roots)
  let ?succ = "map (succs es) [0..<n]"
  note c = dfs_inv_color [OF Cons.prems(1)]
  show ?case
  proof (cases "color ! root \<noteq> 0")
    case True
    then show ?thesis using Cons.IH [OF Cons.prems(1,2)] Cons.prems(3) by (auto split: option.splits)
  next
    case False
    have len: "length color = n" "length cursor = n" "root < n"
      using Cons.prems by (auto simp: dfs_inv_def)
    have "dfs_inv es n (color[root := 1]) cursor [root]"
    proof -
      have "i \<in> set [root] \<longleftrightarrow> i < n \<and> color[root := 1] ! i = 1" for i
        using c(1) [of i] len by (cases "i = root") auto
      moreover have "color[root := 1] ! s = 2"
        if "i < n" "color[root := 1] ! i = 2" "(i, s) \<in> set es" for i s
        using c(4) [of i s] len that False by (cases "i = root"; cases "s = root") auto
      moreover have "(i, i) \<notin> (set es)\<^sup>+" if "i < n" "color[root := 1] ! i = 2" for i
        using c(5) [of i] len that by (cases "i = root") auto
      moreover have "color[root := 1] ! i \<le> 2 \<and> (color[root := 1] ! i = 0 \<longrightarrow> cursor ! i = 0)"
        if "i < n" for i
        using c(2,3) [of i] len that by (cases "i = root") auto
      moreover have "stack_ok es (color[root := 1]) cursor [root] None"
        using c(3) [of root] False len by simp
      moreover have "length (color[root := 1]) = n" "distinct [root]" using len by simp_all
      ultimately show ?thesis using len(2) unfolding dfs_inv_def by blast
    qed
    note found = cycle_search_sound [OF this Cons.prems(2)]
    show ?thesis
    proof (cases "cycle_search ?succ (color[root := 1]) cursor [root]")
      case (Inl s)
      then show ?thesis using found False by simp
    next
      case (Inr st)
      then obtain color' cursor' where st: "st = (color', cursor')" by fastforce
      have inv': "dfs_inv es n color' cursor' []"
        and keep: "\<forall>i < n. color[root := 1] ! i \<noteq> 0 \<longrightarrow> color' ! i \<noteq> 0"
        using found Inr st by simp_all
      have "color' ! i \<noteq> 0" if "i < n" "color ! i \<noteq> 0 \<or> i = root" for i
        using keep that len by (cases "i = root") auto
      then show ?thesis
        using Cons.IH [OF inv' Cons.prems(2)] Cons.prems(3) False Inr st
        by (auto split: option.splits)
    qed
  qed
qed

lemma find_cycle_sound:
  assumes "edges_within n es"
  shows "case find_cycle (map (succs es) [0..<n]) n of
      Some s \<Rightarrow> s < n \<and> (s, s) \<in> (set es)\<^sup>+
    | None \<Rightarrow> acyclic (set es)"
proof -
  have "dfs_inv es n (replicate n 0) (replicate n 0) []"
    by (simp add: dfs_inv_def)
  note found = cycle_roots_sound [OF this assms, of "[0..<n]"]
  have "i < n" if "(i, i) \<in> (set es)\<^sup>+" for i
    using that edges_withinD [OF assms] by (meson tranclD)
  then show ?thesis
    using found by (auto simp: find_cycle_def acyclic_def split: option.splits)
qed

end
