(* ===== verification/Graph_Conflicts.thy ===== *)
theory Graph_Conflicts
  imports Graph_Cycles
begin

text \<open>
  The conflict check of the graph compiler: marking by visit tokens computes reachability, the
  tokens of one marking never survive into the next, and the groups of the sorted access list
  are the resources.
\<close>

section \<open>Marking computes reachability\<close>

lemma visit_all_spec:
  assumes "visit_all token as (visited, stack) = (visited', stack')"
    and "\<forall>a \<in> set as. a < length visited"
  shows "length visited' = length visited \<and>
    (\<forall>i. visited' ! i = (if i \<in> set as then token else visited ! i)) \<and>
    set stack' = set stack \<union> {a \<in> set as. visited ! a \<noteq> token}"
  using assms
proof (induction as arbitrary: visited stack)
  case Nil
  then show ?case by simp
next
  case (Cons a as)
  show ?case
  proof (cases "visited ! a = token")
    case True
    then have "visit_all token as (visited, stack) = (visited', stack')"
      using Cons.prems by (simp add: visit_adjacent_def)
    from Cons.IH [OF this] Cons.prems(2) True show ?thesis by auto
  next
    case False
    then have "visit_all token as (visited[a := token], a # stack) = (visited', stack')"
      using Cons.prems by (simp add: visit_adjacent_def)
    from Cons.IH [OF this] Cons.prems(2) False show ?thesis
      by (auto simp: nth_list_update)
  qed
qed

definition mark_inv :: "(nat \<Rightarrow> nat list) \<Rightarrow> nat \<Rightarrow> u64 \<Rightarrow> nat \<Rightarrow> u64 list \<Rightarrow> nat list \<Rightarrow> bool" where
  "mark_inv f n token start visited stack \<longleftrightarrow>
     length visited = n \<and> visited ! start = token \<and>
     (\<forall>i \<in> set stack. i < n \<and> visited ! i = token) \<and>
     (\<forall>i < n. visited ! i = token \<longrightarrow> (start, i) \<in> {(i, j). j \<in> set (f i)}\<^sup>*) \<and>
     (\<forall>i < n. visited ! i = token \<longrightarrow> i \<notin> set stack \<longrightarrow> (\<forall>j \<in> set (f i). visited ! j = token))"

lemma mark_step:
  assumes inv: "mark_inv f n token start visited (phase # stack)"
    and range: "\<forall>i < n. \<forall>j \<in> set (f i). j < n"
    and st: "visit_all token (f phase) (visited, stack) = (visited', stack')"
  shows "mark_inv f n token start visited' stack'"
proof -
  let ?R = "{(i, j). j \<in> set (f i)}"
  have len: "length visited = n" "phase < n" "visited ! phase = token" "visited ! start = token"
    using inv by (auto simp: mark_inv_def)
  then have reach: "(start, phase) \<in> ?R\<^sup>*" using inv by (simp add: mark_inv_def)
  have spec: "length visited' = n" "visited' ! i = (if i \<in> set (f phase) then token else visited ! i)"
    "set stack' = set stack \<union> {a \<in> set (f phase). visited ! a \<noteq> token}" for i
    using visit_all_spec [OF st] range len by auto
  have new: "(start, i) \<in> ?R\<^sup>*" if "i \<in> set (f phase)" for i
    using reach that by (auto intro: rtrancl_into_rtrancl)
  have "\<forall>i \<in> set stack'. i < n \<and> visited' ! i = token"
    using inv spec(2,3) range len by (auto simp: mark_inv_def)
  moreover have "(start, i) \<in> ?R\<^sup>*" if "i < n" "visited' ! i = token" for i
    using that inv new spec(2) [of i] by (cases "i \<in> set (f phase)") (auto simp: mark_inv_def)
  moreover have "visited' ! j = token"
    if "i < n" "visited' ! i = token" "i \<notin> set stack'" "j \<in> set (f i)" for i j
  proof (cases "i = phase")
    case True
    then show ?thesis using that spec(2) [of j] by simp
  next
    case False
    then have "visited ! i = token" "i \<notin> set (phase # stack)"
      using that spec(2) [of i] spec(3) by (auto split: if_splits)
    then show ?thesis using that inv spec(2) [of j] by (simp add: mark_inv_def)
  qed
  moreover have "visited' ! start = token" using spec(2) [of start] len by simp
  ultimately show ?thesis
    using spec(1) unfolding mark_inv_def by blast
qed

lemma mark_loop_spec:
  assumes "mark_inv f n token start visited stack" and "\<forall>i < n. \<forall>j \<in> set (f i). j < n"
  shows "mark_inv f n token start (mark_loop (map f [0..<n]) token visited stack) [] \<and>
    set (mark_loop (map f [0..<n]) token visited stack) \<subseteq> insert token (set visited)"
  using assms
proof (induction "map f [0..<n]" token visited stack rule: mark_loop.induct)
  case (1 token visited)
  then show ?case by auto
next
  case (2 token visited phase stack)
  obtain visited' stack' where st: "visit_all token (f phase) (visited, stack) = (visited', stack')"
    by fastforce
  have phase: "phase < n" "length visited = n" using "2.prems"(1) by (auto simp: mark_inv_def)
  then have adj: "map f [0..<n] ! phase = f phase" by simp
  have "set visited' \<subseteq> insert token (set visited)"
    using visit_all_spec [OF st] "2.prems"(2) phase
    by (auto simp: set_conv_nth)
  moreover note "2.hyps" [OF _ refl mark_step [OF "2.prems" st] "2.prems"(2)]
  ultimately show ?case
    using st adj by (subst (1 2) mark_loop.simps(2)) (auto simp: Let_def)
qed

lemma mark_reachable_spec:
  assumes "start < n" and "length visited = n" and "token \<notin> set visited"
    and range: "\<forall>i < n. \<forall>j \<in> set (f i). j < n"
  defines "marked \<equiv> mark_reachable start (map f [0..<n]) visited token"
  shows "length marked = n" and "set marked \<subseteq> insert token (set visited)"
    and "i < n \<Longrightarrow> marked ! i = token \<longleftrightarrow> (start, i) \<in> {(i, j). j \<in> set (f i)}\<^sup>*"
proof -
  have "visited ! i \<noteq> token" if "i < n" for i
    using assms(2,3) that by (metis nth_mem)
  then have "mark_inv f n token start (visited[start := token]) [start]"
    using assms(1,2) by (auto simp: mark_inv_def nth_list_update)
  from mark_loop_spec [OF this range]
  have inv: "mark_inv f n token start marked []"
    and sub: "set marked \<subseteq> insert token (set (visited[start := token]))"
    by (simp_all add: marked_def mark_reachable_def)
  show "length marked = n" using inv by (simp add: mark_inv_def)
  show "set marked \<subseteq> insert token (set visited)"
    using sub set_update_subset_insert [of visited start token] by blast
  have closed: "marked ! j = token" if "i < n" "marked ! i = token" "j \<in> set (f i)" for i j
    using inv that by (simp add: mark_inv_def)
  have "i < n \<and> marked ! i = token" if "(start, i) \<in> {(i, j). j \<in> set (f i)}\<^sup>*" for i
    using that
  proof (induction rule: rtrancl_induct)
    case base
    then show ?case using inv assms(1) by (simp add: mark_inv_def)
  next
    case (step y z)
    then show ?case using closed range by blast
  qed
  moreover have "(start, i) \<in> {(i, j). j \<in> set (f i)}\<^sup>*" if "i < n" "marked ! i = token" for i
    using inv that by (simp add: mark_inv_def)
  ultimately show "i < n \<Longrightarrow> marked ! i = token \<longleftrightarrow> (start, i) \<in> {(i, j). j \<in> set (f i)}\<^sup>*"
    by blast
qed

section \<open>Visit tokens\<close>

definition reach_inv :: "nat \<Rightarrow> reach_state \<Rightarrow> bool" where
  "reach_inv n rs \<longleftrightarrow>
     length (reachable_after rs) = n \<and> length (reachable_before rs) = n \<and>
     (\<forall>t \<in> set (reachable_after rs) \<union> set (reachable_before rs). t \<le> visit_token rs)"

lemma next_token_fresh:
  assumes "reach_inv n rs"
  shows "reach_inv n (next_token rs)"
    and "visit_token (next_token rs) \<notin> set (reachable_after (next_token rs))"
    and "visit_token (next_token rs) \<notin> set (reachable_before (next_token rs))"
proof -
  have less: "t < visit_token rs + 1" if "t \<le> visit_token rs" "visit_token rs \<noteq> u64_max" for t
    using that by (simp add: word_less_nat_alt word_le_nat_alt unat_inc)
  have fresh: "visit_token (next_token rs) \<notin> set (reachable_after (next_token rs)) \<union>
      set (reachable_before (next_token rs)) \<and> reach_inv n (next_token rs)"
  proof (cases "visit_token rs = u64_max")
    case True
    then show ?thesis using assms by (auto simp: reach_inv_def next_token_def)
  next
    case False
    have "t < visit_token rs + 1" if "t \<in> set (reachable_after rs) \<union> set (reachable_before rs)" for t
      using that assms less [of t] False by (auto simp: reach_inv_def)
    then show ?thesis
      using assms False by (force simp: reach_inv_def next_token_def intro: less_imp_le)
  qed
  then show "reach_inv n (next_token rs)"
    and "visit_token (next_token rs) \<notin> set (reachable_after (next_token rs))"
    and "visit_token (next_token rs) \<notin> set (reachable_before (next_token rs))" by simp_all
qed

lemma mark_writer_spec:
  assumes inv: "reach_inv n rs" and within: "edges_within n es" and phase: "phase < n"
  shows "reach_inv n (mark_writer (adjacency_of n es) phase rs)"
    and "i < n \<Longrightarrow> reachable_after (mark_writer (adjacency_of n es) phase rs) ! i =
        visit_token (mark_writer (adjacency_of n es) phase rs) \<longleftrightarrow> (phase, i) \<in> (set es)\<^sup>*"
    and "i < n \<Longrightarrow> reachable_before (mark_writer (adjacency_of n es) phase rs) ! i =
        visit_token (mark_writer (adjacency_of n es) phase rs) \<longleftrightarrow> (i, phase) \<in> (set es)\<^sup>*"
proof -
  let ?rs = "next_token rs"
  note fresh = next_token_fresh [OF inv]
  have len: "length (reachable_after ?rs) = n" "length (reachable_before ?rs) = n"
    using fresh(1) by (simp_all add: reach_inv_def)
  have ranges: "\<forall>i < n. \<forall>j \<in> set (succs es i). j < n" "\<forall>i < n. \<forall>j \<in> set (preds es i). j < n"
    using edges_withinD [OF within] by auto
  note after = mark_reachable_spec [OF phase len(1) fresh(2) ranges(1)]
    and before = mark_reachable_spec [OF phase len(2) fresh(3) ranges(2)]
  have rel: "{(i, j). j \<in> set (succs es i)} = set es" "{(i, j). j \<in> set (preds es i)} = (set es)\<inverse>"
    by auto
  show "reach_inv n (mark_writer (adjacency_of n es) phase rs)"
    using after(1,2) before(1,2) fresh(1)
    by (auto simp: mark_writer_def Let_def reach_inv_def adjacency_of_def)
  show "i < n \<Longrightarrow> reachable_after (mark_writer (adjacency_of n es) phase rs) ! i =
      visit_token (mark_writer (adjacency_of n es) phase rs) \<longleftrightarrow> (phase, i) \<in> (set es)\<^sup>*"
    using after(3) [of i] unfolding rel by (simp add: mark_writer_def Let_def adjacency_of_def)
  show "i < n \<Longrightarrow> reachable_before (mark_writer (adjacency_of n es) phase rs) ! i =
      visit_token (mark_writer (adjacency_of n es) phase rs) \<longleftrightarrow> (i, phase) \<in> (set es)\<^sup>*"
    using before(3) [of i] unfolding rel rtrancl_converse
    by (simp add: mark_writer_def Let_def adjacency_of_def)
qed

section \<open>Conflicting accesses\<close>

definition unordered_phases :: "(nat \<times> nat) set \<Rightarrow> phase_handle \<Rightarrow> phase_handle \<Rightarrow> bool" where
  "unordered_phases E p q \<longleftrightarrow> p \<noteq> q \<and>
     (phase_number p, phase_number q) \<notin> E\<^sup>* \<and> (phase_number q, phase_number p) \<notin> E\<^sup>*"

definition conflicting :: "(nat \<times> nat) set \<Rightarrow> graph_resource_access \<Rightarrow> graph_resource_access \<Rightarrow> bool" where
  "conflicting E w a \<longleftrightarrow> acc_access w = access_write \<and> acc_resource a = acc_resource w \<and>
     unordered_phases E (acc_phase w) (acc_phase a)"

definition conflict_diagnostic ::
  "graph_resource_access \<Rightarrow> graph_resource_access \<Rightarrow> graph_compile_diagnostic" where
  "conflict_diagnostic w a =
     \<lparr>diag_status = resource_conflict, diag_first_phase = acc_phase w,
      diag_second_phase = acc_phase a, diag_resource = acc_resource w\<rparr>"

lemma check_writers_spec:
  assumes "reach_inv n rs" and within: "edges_within n es"
    and "\<forall>a \<in> set grp \<union> set ws. phase_number (acc_phase a) < n"
    and "\<forall>a \<in> set grp \<union> set ws. acc_resource a = res"
  shows "case check_writers (adjacency_of n es) res grp ws rs of
      Inr rs' \<Rightarrow> reach_inv n rs' \<and> (\<forall>w \<in> set ws. \<forall>a \<in> set grp. \<not> conflicting (set es) w a)
    | Inl d \<Rightarrow> \<exists>w \<in> set ws. \<exists>a \<in> set grp. conflicting (set es) w a \<and> d = conflict_diagnostic w a"
  using assms(1,3,4)
proof (induction ws arbitrary: rs)
  case Nil
  then show ?case by simp
next
  case (Cons w ws)
  let ?rs = "mark_writer (adjacency_of n es) (phase_number (acc_phase w)) rs"
  have phases: "phase_number (acc_phase w) < n" using Cons.prems(2) by simp
  note mark = mark_writer_spec [OF Cons.prems(1) within phases]
  have unordered: "unordered_with ?rs w a \<longleftrightarrow> unordered_phases (set es) (acc_phase w) (acc_phase a)"
    if "a \<in> set grp" for a
    using mark(2,3) Cons.prems(2) that by (simp add: unordered_with_def unordered_phases_def)
  have same: "acc_resource a = acc_resource w" "acc_resource w = res" if "a \<in> set grp" for a
    using Cons.prems(3) that by simp_all
  show ?case
  proof (cases "acc_access w = access_write")
    case False
    then show ?thesis
      using Cons.IH [OF Cons.prems(1)] Cons.prems(2,3)
      by (auto simp: conflicting_def split: sum.splits)
  next
    case True
    show ?thesis
    proof (cases "find (unordered_with ?rs w) grp")
      case None
      then have "\<forall>a \<in> set grp. \<not> conflicting (set es) w a"
        using unordered by (simp add: find_None_iff conflicting_def)
      with None True show ?thesis
        using Cons.IH [OF mark(1)] Cons.prems(2,3) by (auto simp: Let_def split: sum.splits)
    next
      case (Some a)
      then have a: "a \<in> set grp" "unordered_with ?rs w a"
        by (auto simp: find_Some_iff)
      then have "conflicting (set es) w a"
        using unordered same True by (simp add: conflicting_def)
      moreover have "check_writers (adjacency_of n es) res grp (w # ws) rs = Inl (conflict_diagnostic w a)"
        using Some True same [OF a(1)] by (simp add: Let_def conflict_diagnostic_def)
      ultimately show ?thesis using a(1) by auto
    qed
  qed
qed

text \<open>The list is grouped when it is sorted by a number that determines the resource.\<close>

definition grouped :: "graph_resource_access list \<Rightarrow> bool" where
  "grouped as \<longleftrightarrow> sorted (map (resource_number \<circ> acc_resource) as) \<and>
     (\<forall>a \<in> set as. \<forall>b \<in> set as. resource_number (acc_resource a) = resource_number (acc_resource b)
        \<longrightarrow> acc_resource a = acc_resource b)"

lemma grouped_rest:
  assumes "grouped (a # as)"
  shows "grouped (dropWhile (\<lambda>b. acc_resource b = acc_resource a) as)"
    and "\<forall>b \<in> set (dropWhile (\<lambda>b. acc_resource b = acc_resource a) as). acc_resource b \<noteq> acc_resource a"
proof -
  let ?same = "\<lambda>b. acc_resource b = acc_resource a" and ?num = "resource_number \<circ> acc_resource"
  let ?rest = "dropWhile ?same as"
  have sorted: "sorted (map ?num as)" "\<forall>b \<in> set as. ?num a \<le> ?num b"
    using assms by (auto simp: grouped_def)
  have sub: "set ?rest \<subseteq> set as" by (auto dest: set_dropWhileD)
  have "sorted (map ?num (takeWhile ?same as) @ map ?num ?rest)"
    using sorted(1) by (metis map_append takeWhile_dropWhile_id)
  then have sorted_rest: "sorted (map ?num ?rest)" by (simp add: sorted_append)
  have inj: "acc_resource x = acc_resource y" if "x \<in> set (a # as)" "y \<in> set (a # as)" "?num x = ?num y" for x y
    using assms that unfolding grouped_def comp_def by blast
  show "grouped ?rest"
    unfolding grouped_def
  proof (intro conjI ballI impI)
    show "sorted (map ?num ?rest)" by (rule sorted_rest)
    fix x y assume "x \<in> set ?rest" "y \<in> set ?rest"
      "resource_number (acc_resource x) = resource_number (acc_resource y)"
    then show "acc_resource x = acc_resource y" using sub by (intro inj) auto
  qed
  show "\<forall>b \<in> set ?rest. \<not> ?same b"
  proof (cases ?rest)
    case (Cons c cs)
    then have "\<not> ?same c" using hd_dropWhile [of ?same as] by simp
    moreover have "c \<in> set as" using Cons sub by simp
    ultimately have "?num a < ?num c"
      using inj [of a c] sorted(2) by (metis list.set_intros(1,2) order.not_eq_order_implies_strict)
    then show ?thesis using sorted_rest Cons by fastforce
  next
    case Nil
    then show ?thesis by (metis empty_iff empty_set)
  qed
qed

lemma check_groups_spec:
  assumes "reach_inv n rs" and "edges_within n es" and "grouped as"
    and "\<forall>a \<in> set as. phase_number (acc_phase a) < n"
  shows "case check_groups (adjacency_of n es) as rs of
      Inr rs' \<Rightarrow> \<forall>w \<in> set as. \<forall>a \<in> set as. \<not> conflicting (set es) w a
    | Inl d \<Rightarrow> \<exists>w \<in> set as. \<exists>a \<in> set as. conflicting (set es) w a \<and> d = conflict_diagnostic w a"
  using assms
proof (induction "adjacency_of n es" as rs rule: check_groups.induct)
  case (1 rs)
  then show ?case by simp
next
  case (2 a as rs)
  let ?same = "\<lambda>b. acc_resource b = acc_resource a"
  let ?grp = "a # takeWhile ?same as" and ?rest = "dropWhile ?same as"
  have split: "set (a # as) = set ?grp \<union> set ?rest"
    using takeWhile_dropWhile_id [of ?same as] by (metis append_Cons set_append)
  have res: "\<forall>b \<in> set ?grp. acc_resource b = acc_resource a"
    by (auto dest: set_takeWhileD)
  note rest = grouped_rest [OF "2.prems"(3)]
  have writers: "case check_writers (adjacency_of n es) (acc_resource a) ?grp ?grp rs of
      Inr rs' \<Rightarrow> reach_inv n rs' \<and> (\<forall>w \<in> set ?grp. \<forall>b \<in> set ?grp. \<not> conflicting (set es) w b)
    | Inl d \<Rightarrow> \<exists>w \<in> set ?grp. \<exists>b \<in> set ?grp. conflicting (set es) w b \<and> d = conflict_diagnostic w b"
    using "2.prems"(1,2)
  proof (rule check_writers_spec)
    show "\<forall>b \<in> set ?grp \<union> set ?grp. phase_number (acc_phase b) < n"
      using "2.prems"(4) unfolding split by blast
    show "\<forall>b \<in> set ?grp \<union> set ?grp. acc_resource b = acc_resource a" using res by blast
  qed
  show ?case
  proof (cases "check_writers (adjacency_of n es) (acc_resource a) ?grp ?grp rs")
    case (Inl d)
    then have "check_groups (adjacency_of n es) (a # as) rs = Inl d" by (simp add: Let_def)
    then show ?thesis using writers Inl split by auto
  next
    case (Inr rs')
    then have eq: "check_groups (adjacency_of n es) (a # as) rs = check_groups (adjacency_of n es) ?rest rs'"
      by (simp add: Let_def)
    have cross: "\<not> conflicting (set es) w b" if "w \<in> set ?grp \<and> b \<in> set ?rest \<or> w \<in> set ?rest \<and> b \<in> set ?grp" for w b
      using that res rest(2) unfolding conflicting_def by metis
    have ih: "case check_groups (adjacency_of n es) ?rest rs' of
        Inr rs'' \<Rightarrow> \<forall>w \<in> set ?rest. \<forall>b \<in> set ?rest. \<not> conflicting (set es) w b
      | Inl d \<Rightarrow> \<exists>w \<in> set ?rest. \<exists>b \<in> set ?rest. conflicting (set es) w b \<and> d = conflict_diagnostic w b"
    proof (rule "2.hyps" [OF refl refl Inr])
      show "reach_inv n rs'" using writers Inr by simp
      show "\<forall>b \<in> set ?rest. phase_number (acc_phase b) < n"
        using "2.prems"(4) unfolding split by blast
    qed (use "2.prems"(2) rest(1) in auto)
    show ?thesis
    proof (cases "check_groups (adjacency_of n es) ?rest rs'")
      case (Inl d)
      then have "\<exists>w \<in> set ?rest. \<exists>b \<in> set ?rest. conflicting (set es) w b \<and> d = conflict_diagnostic w b"
        using ih by simp
      then show ?thesis unfolding eq split using Inl by (simp only: sum.case) blast
    next
      case (Inr rs'')
      then show ?thesis
        unfolding eq split using ih writers cross \<open>check_writers _ _ _ _ rs = Inr rs'\<close>
        by (simp only: sum.case) blast
    qed
  qed
qed

end
