(* ===== verification/Graph_Correctness.thy ===== *)
theory Graph_Correctness
  imports Graph_Conflicts
begin

text \<open>
  The contract of \<open>compile_graph\<close>: it succeeds on exactly the admissible graphs, its order is the
  unique greedy topological order, and each error names a violated condition.
\<close>

section \<open>The stages\<close>

definition graph_edges :: "graph_dependency list \<Rightarrow> (nat \<times> nat) set" where
  "graph_edges ds = set (edge_list ds)"

lemma kahn_complete:
  assumes "edges_within n es"
  defines "order \<equiv> kahn_loop (map (succs es) [0..<n])
    (initial_ready n (map (pending es {}) [0..<n])) (map (pending es {}) [0..<n]) []"
  shows "length order = n \<longleftrightarrow> acyclic (set es)" and "greedy_order es n order"
    and "available es n (set order) = {}"
  using greedy_complete [OF kahn_order [OF assms(1)] assms(1)] kahn_order [OF assms(1)]
  unfolding order_def by blast+

lemma compile_order_spec:
  assumes "edges_within n es"
  shows "case compile_order ow n (adjacency_of n es) of
      Inr order \<Rightarrow> acyclic (set es) \<and> (\<exists>idx. greedy_order es n idx \<and> length idx = n \<and>
        order = map (\<lambda>i. phase_handle_of ow (word_of_nat i)) idx)
    | Inl d \<Rightarrow> (\<exists>s < n. (s, s) \<in> (set es)\<^sup>+ \<and>
        d = graph_diagnostic\<lparr>diag_status := graph_cycle,
              diag_first_phase := phase_handle_of ow (word_of_nat s)\<rparr>)"
proof -
  let ?order = "kahn_loop (map (succs es) [0..<n])
    (initial_ready n (map (pending es {}) [0..<n])) (map (pending es {}) [0..<n]) []"
  note kahn = kahn_complete [OF assms]
  show ?thesis
  proof (cases "length ?order = n")
    case True
    then have "compile_order ow n (adjacency_of n es) =
        Inr (map (\<lambda>i. phase_handle_of ow (word_of_nat i)) ?order)"
      by (simp add: compile_order_def adjacency_of_def Let_def)
    then show ?thesis using True kahn by auto
  next
    case False
    then have cyclic: "\<not> acyclic (set es)" using kahn by simp
    then obtain s where s: "find_cycle (map (succs es) [0..<n]) n = Some s"
      and on: "s < n" "(s, s) \<in> (set es)\<^sup>+"
      using find_cycle_sound [OF assms] by (auto split: option.splits)
    then have "compile_order ow n (adjacency_of n es) =
        Inl (graph_diagnostic\<lparr>diag_status := graph_cycle,
              diag_first_phase := phase_handle_of ow (word_of_nat s)\<rparr>)"
      using False by (simp add: compile_order_def adjacency_of_def Let_def)
    then show ?thesis using on by auto
  qed
qed

lemma set_access_order: "set (map ((!) accesses) (access_order accesses)) = set accesses"
proof -
  have "set (map ((!) accesses) [0..<length accesses]) = set accesses" by (simp only: map_nth)
  then show ?thesis by (simp add: access_order_def)
qed

lemma access_order_grouped:
  assumes "\<forall>a \<in> set accesses. \<not> access_rejected ow n r a"
  shows "grouped (map ((!) accesses) (access_order accesses))"
proof -
  have "sorted (map (\<lambda>i. access_key (accesses ! i)) (access_order accesses))"
    unfolding access_order_def by (rule sorted_sort_key)
  then have "sorted (map (resource_number \<circ> acc_resource) (map ((!) accesses) (access_order accesses)))"
    unfolding sorted_map sorted_wrt_map by (rule sorted_wrt_mono_rel [rotated])
      (auto simp: access_key_def less_eq_prod_def)
  moreover have "acc_resource a = acc_resource b"
    if "a \<in> set accesses" "b \<in> set accesses"
      "resource_number (acc_resource a) = resource_number (acc_resource b)" for a b
    using assms that(1,2) that(3) [folded word_unat_eq_iff]
    by (intro resource.handle_eqI) (auto simp: access_rejected_def)
  ultimately show ?thesis unfolding grouped_def set_access_order by blast
qed

lemma compile_accesses_spec:
  assumes "edges_within n es"
  shows "case compile_accesses ow n r (adjacency_of n es) accesses of
      None \<Rightarrow> (\<forall>a \<in> set accesses. \<not> access_rejected ow n r a) \<and>
        (\<forall>w \<in> set accesses. \<forall>a \<in> set accesses. \<not> conflicting (set es) w a)
    | Some d \<Rightarrow>
        (\<exists>a \<in> set accesses. access_rejected ow n r a \<and>
           d = graph_diagnostic\<lparr>diag_status := invalid_handle,
                 diag_first_phase := acc_phase a, diag_resource := acc_resource a\<rparr>) \<or>
        (\<exists>w \<in> set accesses. \<exists>a \<in> set accesses. conflicting (set es) w a \<and> d = conflict_diagnostic w a)"
proof (cases "find (access_rejected ow n r) accesses")
  case (Some a)
  then have "a \<in> set accesses" "access_rejected ow n r a" by (auto simp: find_Some_iff)
  with Some show ?thesis by (auto simp: compile_accesses_def)
next
  case None
  let ?as = "map ((!) accesses) (access_order accesses)"
  let ?rs = "\<lparr>reachable_after = replicate n 0, reachable_before = replicate n 0, visit_token = 0\<rparr>"
  from None have accepted: "\<forall>a \<in> set accesses. \<not> access_rejected ow n r a"
    by (simp add: find_None_iff)
  then have "\<forall>a \<in> set accesses. phase_number (acc_phase a) < n"
    by (auto simp: access_rejected_def)
  moreover have "reach_inv n ?rs" by (auto simp: reach_inv_def)
  ultimately have "case check_groups (adjacency_of n es) ?as ?rs of
      Inr rs' \<Rightarrow> \<forall>w \<in> set accesses. \<forall>a \<in> set accesses. \<not> conflicting (set es) w a
    | Inl d \<Rightarrow> \<exists>w \<in> set accesses. \<exists>a \<in> set accesses. conflicting (set es) w a \<and> d = conflict_diagnostic w a"
    using check_groups_spec [of n ?rs es ?as] assms access_order_grouped [OF accepted]
    unfolding set_access_order by blast
  then show ?thesis
    using None accepted by (auto simp: compile_accesses_def split: sum.splits)
qed

section \<open>The whole compiler\<close>

definition graph_admissible ::
  "u32 \<Rightarrow> nat \<Rightarrow> nat \<Rightarrow> graph_dependency list \<Rightarrow> graph_resource_access list \<Rightarrow> bool" where
  "graph_admissible ow n r ds as \<longleftrightarrow>
     n \<le> unat graph_handle_index_mask \<and> r \<le> unat graph_handle_index_mask \<and>
     (\<forall>d \<in> set ds. \<not> dependency_rejected ow n d) \<and> acyclic (graph_edges ds) \<and>
     (\<forall>a \<in> set as. \<not> access_rejected ow n r a) \<and>
     (\<forall>w \<in> set as. \<forall>a \<in> set as. \<not> conflicting (graph_edges ds) w a)"

definition graph_error ::
  "u32 \<Rightarrow> nat \<Rightarrow> nat \<Rightarrow> graph_dependency list \<Rightarrow> graph_resource_access list \<Rightarrow>
     graph_compile_diagnostic \<Rightarrow> bool" where
  "graph_error ow n r ds as d \<longleftrightarrow>
     (diag_status d = capacity_exceeded \<and>
        (n > unat graph_handle_index_mask \<or> r > unat graph_handle_index_mask)) \<or>
     (diag_status d = invalid_handle \<and>
        ((\<exists>e \<in> set ds. dependency_rejected ow n e \<and>
            diag_first_phase d = prerequisite e \<and> diag_second_phase d = dependent e) \<or>
         (\<exists>a \<in> set as. access_rejected ow n r a \<and>
            diag_first_phase d = acc_phase a \<and> diag_resource d = acc_resource a))) \<or>
     (diag_status d = graph_cycle \<and>
        (\<exists>s < n. (s, s) \<in> (graph_edges ds)\<^sup>+ \<and>
           diag_first_phase d = phase_handle_of ow (word_of_nat s))) \<or>
     (diag_status d = resource_conflict \<and>
        (\<exists>w \<in> set as. \<exists>a \<in> set as. conflicting (graph_edges ds) w a \<and>
           diag_first_phase d = acc_phase w \<and> diag_second_phase d = acc_phase a \<and>
           diag_resource d = acc_resource w))"

lemma graph_error_intros:
  "a \<in> set as \<Longrightarrow> access_rejected ow n r a \<Longrightarrow>
     graph_error ow n r ds as (graph_diagnostic\<lparr>diag_status := invalid_handle,
       diag_first_phase := acc_phase a, diag_resource := acc_resource a\<rparr>)"
  "w \<in> set as \<Longrightarrow> a \<in> set as \<Longrightarrow> conflicting (graph_edges ds) w a \<Longrightarrow>
     graph_error ow n r ds as (conflict_diagnostic w a)"
  unfolding graph_error_def conflict_diagnostic_def by (simp; blast)+

lemma build_adjacency_empty:
  "build_adjacency ow n ds (empty_adjacency n) =
     (case find (dependency_rejected ow n) ds of
        Some d \<Rightarrow> Inl (graph_diagnostic\<lparr>diag_status := invalid_handle,
             diag_first_phase := prerequisite d, diag_second_phase := dependent d\<rparr>)
      | None \<Rightarrow> Inr (adjacency_of n (edge_list ds)))"
  using build_adjacency_eq [of ow n ds "[]"] by (simp only: empty_adjacency_of append_Nil)

lemma compile_graph_checked_spec:
  "case compile_graph_checked ow n r ds as of
      Inr order \<Rightarrow> graph_admissible ow n r ds as \<and>
        (\<exists>idx. greedy_order (edge_list ds) n idx \<and> length idx = n \<and>
           order = map (\<lambda>i. phase_handle_of ow (word_of_nat i)) idx)
    | Inl d \<Rightarrow> graph_error ow n r ds as d"
proof (cases "n > unat graph_handle_index_mask \<or> r > unat graph_handle_index_mask")
  case True
  then show ?thesis
    by (simp add: compile_graph_checked_def graph_error_def graph_diagnostic_def)
next
  case fits: False
  show ?thesis
  proof (cases "find (dependency_rejected ow n) ds")
    case (Some e)
    then have "e \<in> set ds" "dependency_rejected ow n e" by (auto simp: find_Some_iff)
    with Some fits show ?thesis
      by (auto simp: compile_graph_checked_def build_adjacency_empty graph_error_def)
  next
    case None
    then have deps: "\<forall>e \<in> set ds. \<not> dependency_rejected ow n e" by (simp add: find_None_iff)
    note within = edge_list_within [OF None]
    let ?adj = "adjacency_of n (edge_list ds)"
    have eq: "compile_graph_checked ow n r ds as =
        (case compile_order ow n ?adj of Inl d \<Rightarrow> Inl d
         | Inr order \<Rightarrow> (case compile_accesses ow n r ?adj as of Some d \<Rightarrow> Inl d | None \<Rightarrow> Inr order))"
      using None fits by (simp add: compile_graph_checked_def build_adjacency_empty)
    show ?thesis
    proof (cases "compile_order ow n ?adj")
      case (Inl d)
      then show ?thesis
        using compile_order_spec [OF within, of ow] unfolding eq
        by (auto simp: graph_error_def graph_edges_def)
    next
      case (Inr order)
      note accesses = compile_accesses_spec [OF within, where ow = ow and r = r and accesses = as]
      show ?thesis
      proof (cases "compile_accesses ow n r ?adj as")
        case None
        then have "graph_admissible ow n r ds as"
          using compile_order_spec [OF within, of ow] accesses deps fits Inr
          by (simp add: graph_admissible_def graph_edges_def)
        then show ?thesis
          using compile_order_spec [OF within, of ow] None Inr unfolding eq by simp
      next
        case (Some d)
        from accesses have "graph_error ow n r ds as d"
          unfolding Some graph_edges_def [symmetric] option.case
          by (elim disjE bexE conjE) (simp_all only: graph_error_intros)
        then show ?thesis using Some Inr unfolding eq by simp
      qed
    qed
  qed
qed

lemma graph_error_not_admissible:
  "graph_error ow n r ds as d \<Longrightarrow> diag_status d \<noteq> ok \<and> \<not> graph_admissible ow n r ds as"
  by (auto simp: graph_error_def graph_admissible_def acyclic_def)

lemma compile_graph_ok:
  "compile_graph ow n r ds as out =
     (case compile_graph_checked ow n r ds as of
        Inr order \<Rightarrow> (ok, order, graph_diagnostic) | Inl d \<Rightarrow> (diag_status d, out, d))"
  by (simp add: compile_graph_def split: sum.split)

lemma compile_graph_okE:
  assumes "compile_graph ow n r ds as out = (ok, order, diag)"
  obtains idx where "graph_admissible ow n r ds as" and "greedy_order (edge_list ds) n idx"
    and "length idx = n" and "order = map (\<lambda>i. phase_handle_of ow (word_of_nat i)) idx"
proof (cases "compile_graph_checked ow n r ds as")
  case (Inl d)
  then have "diag_status d \<noteq> ok"
    using compile_graph_checked_spec [of ow n r ds as] graph_error_not_admissible by simp
  then show ?thesis using assms Inl by (simp add: compile_graph_ok)
next
  case (Inr order')
  then have "order' = order" using assms by (simp add: compile_graph_ok)
  then show ?thesis using that compile_graph_checked_spec [of ow n r ds as] Inr by auto
qed



lemma greedy_order_all:
  assumes "greedy_order es n idx" and "length idx = n"
  shows "set idx = {..<n}"
proof -
  have "set idx \<subseteq> {..<n}"
    using assms(1) by (force simp: greedy_order_def available_def in_set_conv_nth)
  then show ?thesis
    using greedy_order_distinct [OF assms(1)] assms(2)
    by (intro card_subset_eq) (auto simp: distinct_card)
qed

lemma greedy_order_before:
  assumes "greedy_order es n idx" and "length idx = n" and "edges_within n es" and "(a, b) \<in> set es"
  shows "position idx a < position idx b" and "a \<in> set idx" and "b \<in> set idx"
proof -
  have dist: "distinct idx" by (rule greedy_order_distinct [OF assms(1)])
  show ab: "a \<in> set idx" "b \<in> set idx"
    using edges_withinD [OF assms(3,4)] greedy_order_all [OF assms(1,2)] by auto
  let ?k = "position idx b"
  have k: "idx ! ?k = b" "?k < length idx" using ab nth_position by fast+
  then have "a \<in> set (take ?k idx)"
    using assms(1,4) by (auto simp: greedy_order_def available_def)
  then show "position idx a < position idx b"
    using position_less [OF dist k(2)] by simp
qed

section \<open>Small graphs\<close>

definition two_phase_dependency :: graph_dependency where
  "two_phase_dependency = \<lparr>prerequisite = phase_handle_of 7 1, dependent = phase_handle_of 7 0\<rparr>"

definition self_dependency :: graph_dependency where
  "self_dependency = \<lparr>prerequisite = phase_handle_of 7 0, dependent = phase_handle_of 7 0\<rparr>"

lemma small_words [simp]: "(1 :: u32) \<le> 1073741823" "(1 :: u32) < 1073741823"
  by (simp_all add: word_le_nat_alt word_less_nat_alt)

lemma two_upt [simp]: "[0..<2] = [0, 1]" and two_replicate [simp]: "replicate 2 x = [x, x]"
  by (simp_all add: upt_rec numeral_2_eq_2)

lemmas compile_graph_eval =
  compile_graph_def compile_graph_checked_def index_mask_numeral dependency_rejected_def
  phase.owner_make phase.index_make phase.valid_make empty_adjacency_def add_dependency_def
  push_at_def compile_order_def initial_ready_def ready_push_def kahn_loop.simps ready_empty_def
  ready_top_def ready_pop_def release_successor_def compile_accesses_def access_order_def
  find_cycle_def cycle_search.simps Let_def

lemma two_phase_compiles:
  "compile_graph 7 2 0 [two_phase_dependency] [] [] =
     (ok, map (\<lambda>i. phase_handle_of 7 (word_of_nat i)) [1, 0], graph_diagnostic)"
  "compile_graph 7 2 0 [two_phase_dependency, two_phase_dependency] [] [] =
     (ok, map (\<lambda>i. phase_handle_of 7 (word_of_nat i)) [1, 0], graph_diagnostic)"
  by (simp_all add: two_phase_dependency_def compile_graph_eval)

lemma self_dependency_fails:
  "compile_graph 7 1 0 [self_dependency] [] [] =
     (graph_cycle, [], graph_diagnostic\<lparr>diag_status := graph_cycle,
        diag_first_phase := phase_handle_of 7 0\<rparr>)"
  by (simp add: self_dependency_def compile_graph_eval)

section \<open>Properties\<close>

text \<open>What compilation asks of a graph, over the handles of its own phases and resources.\<close>

definition graph_phases :: "u32 \<Rightarrow> nat \<Rightarrow> phase_handle set" where
  "graph_phases ow n = (\<lambda>i. phase_handle_of ow (word_of_nat i)) ` {..<n}"

definition graph_resources :: "u32 \<Rightarrow> nat \<Rightarrow> resource_handle set" where
  "graph_resources ow r = (\<lambda>i. resource_handle_of ow (word_of_nat i)) ` {..<r}"

definition graph_conforms ::
  "u32 \<Rightarrow> nat \<Rightarrow> nat \<Rightarrow> graph_dependency list \<Rightarrow> graph_resource_access list \<Rightarrow> bool" where
  "graph_conforms ow n r ds as \<longleftrightarrow>
     n \<le> 1073741823 \<and> r \<le> 1073741823 \<and>
     (\<forall>d \<in> set ds. prerequisite d \<in> graph_phases ow n \<and> dependent d \<in> graph_phases ow n) \<and>
     acyclic (graph_edges ds) \<and>
     (\<forall>a \<in> set as. acc_phase a \<in> graph_phases ow n \<and> acc_resource a \<in> graph_resources ow r \<and>
        acc_access a \<in> {access_read, access_write}) \<and>
     (\<forall>w \<in> set as. \<forall>a \<in> set as. \<not> conflicting (graph_edges ds) w a)"

lemma graph_conforms_iff: "graph_conforms ow n r ds as \<longleftrightarrow> graph_admissible ow n r ds as"
proof (cases "n \<le> unat graph_handle_index_mask \<and> r \<le> unat graph_handle_index_mask")
  case True
  then have range: "p \<in> graph_phases ow n \<longleftrightarrow> phase_valid p \<and> phase_owner p = ow \<and> phase_number p < n"
    "q \<in> graph_resources ow r \<longleftrightarrow> resource_valid q \<and> resource_owner q = ow \<and> resource_number q < r" for p q
    unfolding graph_phases_def graph_resources_def
    using phase.in_range_iff [of n p ow] resource.in_range_iff [of r q ow] by blast+
  have "\<not> dependency_rejected ow n d \<longleftrightarrow> prerequisite d \<in> graph_phases ow n \<and> dependent d \<in> graph_phases ow n" for d
    by (auto simp: range dependency_rejected_def)
  moreover have "\<not> access_rejected ow n r a \<longleftrightarrow> acc_phase a \<in> graph_phases ow n \<and>
      acc_resource a \<in> graph_resources ow r \<and> acc_access a \<in> {access_read, access_write}" for a
    by (auto simp: range access_rejected_def)
  ultimately show ?thesis
    using True unfolding graph_conforms_def graph_admissible_def by (simp add: index_mask_numeral)
next
  case False
  then show ?thesis by (auto simp: graph_conforms_def graph_admissible_def index_mask_numeral)
qed

text \<open>
  C1. \<open>compile_graph\<close> returns ok exactly when the phase and resource counts are at most \<open>2 ^ 30 - 1\<close>,
  every dependency joins two of the graph's own phases and the dependencies are acyclic, every
  access is a read or a write of one of its resources by one of its phases, and every two
  conflicting accesses are ordered by the dependencies.
\<close>

theorem compile_graph_ok_iff:
  "fst (compile_graph ow n r ds as out) = ok \<longleftrightarrow> graph_conforms ow n r ds as"
  unfolding graph_conforms_iff
  using compile_graph_checked_spec [of ow n r ds as] graph_error_not_admissible
  by (auto simp: compile_graph_ok split: sum.splits)

text \<open>
  C2. A compiled order lists every phase exactly once, places the prerequisite of every
  dependency before its dependent, and each entry is the smallest phase number whose
  prerequisites have all been placed.
\<close>

theorem compile_graph_topological:
  assumes "compile_graph ow n r ds as out = (ok, order, diag)"
  shows "\<exists>idx. order = map (\<lambda>i. phase_handle_of ow (word_of_nat i)) idx \<and>
      distinct idx \<and> set idx = {..<n} \<and> greedy_order (edge_list ds) n idx \<and>
      (\<forall>d \<in> set ds. position idx (phase_number (prerequisite d))
                     < position idx (phase_number (dependent d)))"
proof -
  obtain idx where adm: "graph_admissible ow n r ds as"
    and idx: "greedy_order (edge_list ds) n idx" "length idx = n"
    "order = map (\<lambda>i. phase_handle_of ow (word_of_nat i)) idx"
    by (rule compile_graph_okE [OF assms])
  then have "find (dependency_rejected ow n) ds = None"
    by (simp add: find_None_iff graph_admissible_def)
  note within = edge_list_within [OF this]
  have "position idx (phase_number (prerequisite d)) < position idx (phase_number (dependent d))"
    if "d \<in> set ds" for d
    using that greedy_order_before(1) [OF idx(1,2) within] by (auto simp: edge_list_def)
  moreover have "distinct idx" by (rule greedy_order_distinct [OF idx(1)])
  moreover have "set idx = {..<n}" by (rule greedy_order_all [OF idx(1,2)])
  ultimately show ?thesis using idx by blast
qed

theorem compile_graph_topological_witness:
  "\<exists>idx. map (\<lambda>i. phase_handle_of 7 (word_of_nat i)) [1, 0] =
        map (\<lambda>i. phase_handle_of 7 (word_of_nat i)) idx \<and>
      distinct idx \<and> set idx = {..<2} \<and>
      greedy_order (edge_list [two_phase_dependency]) 2 idx \<and>
      (\<forall>d \<in> set [two_phase_dependency].
         position idx (phase_number (prerequisite d)) < position idx (phase_number (dependent d)))"
  by (rule compile_graph_topological [OF two_phase_compiles(1)])



text \<open>
  C4. Every failure leaves the output vector as it was, returns the status of its diagnostic, and
  the diagnostic names a violated condition: a count beyond the handle index, a rejected
  dependency or access, a phase on a dependency cycle, or a pair of conflicting accesses.
  The internal error of the source is unreachable.
\<close>

theorem compile_graph_failure:
  assumes "compile_graph ow n r ds as out = (st, out', diag)" and "st \<noteq> ok"
  shows "out' = out \<and> st = diag_status diag \<and> graph_error ow n r ds as diag \<and> st \<noteq> internal_error"
proof -
  have chk: "compile_graph_checked ow n r ds as = Inl diag" "st = diag_status diag" "out' = out"
    using assms by (auto simp: compile_graph_ok split: sum.splits)
  then have "graph_error ow n r ds as diag"
    using compile_graph_checked_spec [of ow n r ds as] by simp
  with chk show ?thesis by (auto simp: graph_error_def)
qed

theorem compile_graph_failure_witness:
  "[] = ([] :: phase_handle list) \<and> graph_cycle = diag_status (graph_diagnostic\<lparr>diag_status := graph_cycle,
        diag_first_phase := phase_handle_of 7 0\<rparr>) \<and>
   graph_error 7 1 0 [self_dependency] [] (graph_diagnostic\<lparr>diag_status := graph_cycle,
        diag_first_phase := phase_handle_of 7 0\<rparr>) \<and> graph_cycle \<noteq> internal_error"
  by (rule compile_graph_failure [OF self_dependency_fails]) simp

end
