(* ===== verification/Rate_Timeline.thy ===== *)
theory Rate_Timeline
  imports Graph_Handles "HOL-Library.Product_Lexorder" "HOL-Library.Char_ord"
begin

text \<open>
  The rate-timeline compiler of \<^verbatim>\<open>rt/src/rate_timeline.cpp\<close>.  Every phase is bound to one rate
  domain; the supercycle is the least common multiple of the periods; the plan lists, in order, one
  reference release for each domain release, bound phase and substep in one supercycle.

  Indices that the source initialises with the largest \<^verbatim>\<open>size_t\<close> are options, None standing for that
  sentinel.  Names keep their bytes; the fixed array of a compiled domain is padded with zero
  bytes.  Failure of an allocation is not modelled.
\<close>

section \<open>Specifications and plans\<close>

datatype rate_criticality = background | normal | critical | criticality_unknown u8

datatype rate_late_action =
  late_skip | late_bounded_catch_up | late_hold | late_degrade | late_fail | late_unknown u8

datatype rate_phase_kind = kind_cpu | kind_device | kind_unknown u8

definition rate_domain_capacity :: nat where "rate_domain_capacity = 64"
definition rate_domain_name_capacity :: nat where "rate_domain_name_capacity = 64"
definition rate_domain_substep_capacity :: u32 where "rate_domain_substep_capacity = 64"
definition reference_release_capacity :: u64 where "reference_release_capacity = 65536"

record rate_domain_spec =
  rd_name :: string
  rd_period_ns :: u64
  rd_substep_count :: u32
  rd_relative_deadline_ns :: u64
  rd_budget_wcet_ns :: u64
  rd_criticality :: rate_criticality
  rd_optional :: bool
  rd_late_action :: rate_late_action
  rd_bounded_catch_up_limit :: u32

record rate_binding_spec =
  rb_phase :: phase_handle
  rb_domain :: rate_domain_handle
  rb_phase_kind :: rate_phase_kind

record compiled_rate_domain =
  cd_domain :: rate_domain_handle
  cd_name :: string
  cd_registration_index :: nat
  cd_period_ns :: u64
  cd_substep_count :: u32
  cd_relative_deadline_ns :: u64
  cd_budget_wcet_ns :: u64
  cd_criticality :: rate_criticality
  cd_optional :: bool
  cd_releases_per_supercycle :: u64
  cd_period_ratio_numerator :: u64
  cd_period_ratio_denominator :: u64
  cd_late_action :: rate_late_action
  cd_bounded_catch_up_limit :: u32

record compiled_rate_binding =
  cb_phase :: phase_handle
  cb_domain :: rate_domain_handle
  cb_phase_kind :: rate_phase_kind
  cb_compiled_phase_index :: nat

record reference_release =
  rr_release_time_ns :: u64
  rr_domain :: rate_domain_handle
  rr_domain_registration_index :: nat
  rr_domain_release_sequence :: u64
  rr_phase :: phase_handle
  rr_phase_kind :: rate_phase_kind
  rr_compiled_phase_index :: nat
  rr_substep_ordinal :: u32
  rr_substep_count :: u32
  rr_relative_deadline_ns :: u64
  rr_deadline_time_ns :: u64
  rr_budget_wcet_ns :: u64
  rr_criticality :: rate_criticality
  rr_optional :: bool
  rr_late_action :: rate_late_action
  rr_bounded_catch_up_limit :: u32

record compiled_rate_plan =
  plan_supercycle_ns :: u64
  plan_domains :: "compiled_rate_domain list"
  plan_bindings :: "compiled_rate_binding list"
  plan_releases :: "reference_release list"

definition empty_rate_plan :: compiled_rate_plan where
  "empty_rate_plan = \<lparr>plan_supercycle_ns = 0, plan_domains = [], plan_bindings = [], plan_releases = []\<rparr>"

record rate_compile_diagnostic =
  rc_status :: status
  rc_message :: "string option"

abbreviation rate_error :: "status \<Rightarrow> string \<Rightarrow> rate_compile_diagnostic" where
  "rate_error st msg \<equiv> \<lparr>rc_status = st, rc_message = Some msg\<rparr>"

section \<open>Validation\<close>

definition name_character :: "char \<Rightarrow> bool" where
  "name_character c \<longleftrightarrow>
     (CHR ''a'' \<le> c \<and> c \<le> CHR ''z'') \<or> (CHR ''A'' \<le> c \<and> c \<le> CHR ''Z'') \<or>
     (CHR ''0'' \<le> c \<and> c \<le> CHR ''9'') \<or>
     c = CHR ''.'' \<or> c = CHR ''_'' \<or> c = CHR '':'' \<or> c = CHR ''/'' \<or> c = CHR ''@'' \<or> c = CHR ''-''"

definition valid_name :: "string \<Rightarrow> bool" where
  "valid_name name \<longleftrightarrow>
     name \<noteq> [] \<and> length name < rate_domain_name_capacity \<and> list_all name_character name"

definition binding_rejected :: "u32 \<Rightarrow> nat \<Rightarrow> nat \<Rightarrow> rate_binding_spec \<Rightarrow> bool" where
  "binding_rejected graph_owner phase_count domain_count b \<longleftrightarrow>
     \<not> phase_valid (rb_phase b) \<or> phase_owner (rb_phase b) \<noteq> graph_owner \<or>
     phase_number (rb_phase b) \<ge> phase_count \<or>
     \<not> rate_domain_valid (rb_domain b) \<or> rate_domain_owner (rb_domain b) \<noteq> graph_owner \<or>
     rate_domain_number (rb_domain b) \<ge> domain_count \<or>
     (rb_phase_kind b \<noteq> kind_cpu \<and> rb_phase_kind b \<noteq> kind_device)"

fun bind_phases ::
  "u32 \<Rightarrow> nat \<Rightarrow> nat \<Rightarrow> nat \<Rightarrow> rate_binding_spec list \<Rightarrow> nat option list \<times> nat list \<Rightarrow>
     rate_compile_diagnostic + nat option list \<times> nat list" where
  "bind_phases graph_owner phase_count domain_count index [] st = Inr st"
| "bind_phases graph_owner phase_count domain_count index (b # bs) (binding_by_phase, phases_per_domain) =
     (if binding_rejected graph_owner phase_count domain_count b
      then Inl (rate_error invalid_handle ''rate binding contains an invalid or foreign reference'')
      else if binding_by_phase ! phase_number (rb_phase b) \<noteq> None
      then Inl (rate_error invalid_config ''a phase is bound to more than one rate domain'')
      else let dom = rate_domain_number (rb_domain b)
           in bind_phases graph_owner phase_count domain_count (Suc index) bs
                (binding_by_phase[phase_number (rb_phase b) := Some index],
                 phases_per_domain[dom := Suc (phases_per_domain ! dom)]))"

definition compile_ownership ::
  "u32 \<Rightarrow> nat \<Rightarrow> nat \<Rightarrow> rate_binding_spec list \<Rightarrow>
     rate_compile_diagnostic + nat option list \<times> nat list" where
  "compile_ownership graph_owner phase_count domain_count bindings =
     sum_bind (bind_phases graph_owner phase_count domain_count 0 bindings
                 (replicate phase_count None, replicate domain_count 0))
       (\<lambda>(binding_by_phase, phases_per_domain).
          if None \<in> set binding_by_phase \<or> 0 \<in> set phases_per_domain
          then Inl (rate_error invalid_config ''rate model has a missing phase or empty domain ownership'')
          else Inr (binding_by_phase, phases_per_domain))"

definition domain_rejected :: "rate_domain_spec \<Rightarrow> bool" where
  "domain_rejected d \<longleftrightarrow>
     rd_period_ns d = 0 \<or> rd_substep_count d = 0 \<or>
     rd_substep_count d > rate_domain_substep_capacity \<or> \<not> valid_name (rd_name d) \<or>
     (rd_criticality d \<noteq> background \<and> rd_criticality d \<noteq> normal \<and> rd_criticality d \<noteq> critical)"

fun compile_supercycle ::
  "string list \<Rightarrow> rate_domain_spec list \<Rightarrow> u64 \<Rightarrow> rate_compile_diagnostic + u64" where
  "compile_supercycle earlier [] supercycle = Inr supercycle"
| "compile_supercycle earlier (d # ds) supercycle =
     (if domain_rejected d
      then Inl (rate_error invalid_config
        ''rate domain contains invalid period, substeps, deadline, or criticality'')
      else if rd_name d \<in> set earlier
      then Inl (rate_error invalid_config ''rate-domain names must be unique'')
      else case checked_lcm supercycle (rd_period_ns d) of
             None \<Rightarrow> Inl (rate_error capacity_exceeded ''rate supercycle is not representable'')
           | Some supercycle' \<Rightarrow> compile_supercycle (earlier @ [rd_name d]) ds supercycle')"

definition domain_entry_count :: "u64 \<Rightarrow> rate_domain_spec \<Rightarrow> nat \<Rightarrow> u64 option" where
  "domain_entry_count supercycle d phases =
     (case checked_multiply (supercycle div rd_period_ns d) (word_of_nat phases) of
        None \<Rightarrow> None
      | Some entries \<Rightarrow> checked_multiply entries (ucast (rd_substep_count d)))"

fun count_releases ::
  "u64 \<Rightarrow> (rate_domain_spec \<times> nat) list \<Rightarrow> u64 \<Rightarrow> rate_compile_diagnostic + u64" where
  "count_releases supercycle [] release_count = Inr release_count"
| "count_releases supercycle ((d, phases) # ds) release_count =
     (case Option.bind (domain_entry_count supercycle d phases) (checked_add release_count) of
        None \<Rightarrow> Inl (rate_error capacity_exceeded ''reference-release capacity exceeded'')
      | Some release_count' \<Rightarrow>
          if release_count' > reference_release_capacity
          then Inl (rate_error capacity_exceeded ''reference-release capacity exceeded'')
          else count_releases supercycle ds release_count')"

section \<open>Construction\<close>

definition compile_domain :: "u32 \<Rightarrow> u64 \<Rightarrow> u64 \<Rightarrow> nat \<Rightarrow> rate_domain_spec \<Rightarrow> compiled_rate_domain" where
  "compile_domain graph_owner supercycle reference_period index d =
     (let ratio_gcd = gcd_u64 (rd_period_ns d) reference_period in
      \<lparr>cd_domain = rate_domain_handle_of graph_owner (word_of_nat index),
       cd_name = rd_name d @ replicate (rate_domain_name_capacity - length (rd_name d)) (char_of (0 :: nat)),
       cd_registration_index = index,
       cd_period_ns = rd_period_ns d,
       cd_substep_count = rd_substep_count d,
       cd_relative_deadline_ns = rd_relative_deadline_ns d,
       cd_budget_wcet_ns = rd_budget_wcet_ns d,
       cd_criticality = rd_criticality d,
       cd_optional = rd_optional d,
       cd_releases_per_supercycle = supercycle div rd_period_ns d,
       cd_period_ratio_numerator = rd_period_ns d div ratio_gcd,
       cd_period_ratio_denominator = reference_period div ratio_gcd,
       cd_late_action = rd_late_action d,
       cd_bounded_catch_up_limit = rd_bounded_catch_up_limit d\<rparr>)"

definition compile_domains :: "u32 \<Rightarrow> u64 \<Rightarrow> rate_domain_spec list \<Rightarrow> compiled_rate_domain list" where
  "compile_domains graph_owner supercycle domains =
     map (\<lambda>(index, d). compile_domain graph_owner supercycle (rd_period_ns (hd domains)) index d)
       (enumerate 0 domains)"

fun compile_bindings ::
  "u32 \<Rightarrow> nat \<Rightarrow> rate_binding_spec list \<Rightarrow> nat option list \<Rightarrow> nat \<Rightarrow> phase_handle list \<Rightarrow>
     nat option list \<Rightarrow> rate_compile_diagnostic + compiled_rate_binding list" where
  "compile_bindings graph_owner phase_count bindings binding_by_phase index [] compiled_index = Inr []"
| "compile_bindings graph_owner phase_count bindings binding_by_phase index (phase # phases) compiled_index =
     (if \<not> phase_valid phase \<or> phase_owner phase \<noteq> graph_owner \<or> phase_number phase \<ge> phase_count
      then Inl (rate_error invalid_handle ''compiled phase order contains an invalid reference'')
      else if compiled_index ! phase_number phase \<noteq> None
      then Inl (rate_error invalid_config ''compiled phase order is not a permutation'')
      else let b = bindings ! the (binding_by_phase ! phase_number phase)
           in sum_bind (compile_bindings graph_owner phase_count bindings binding_by_phase (Suc index)
                phases (compiled_index[phase_number phase := Some index]))
              (\<lambda>rest. Inr (\<lparr>cb_phase = phase, cb_domain = rb_domain b, cb_phase_kind = rb_phase_kind b,
                            cb_compiled_phase_index = index\<rparr> # rest)))"

definition release_of ::
  "nat \<Rightarrow> rate_domain_spec \<Rightarrow> u64 \<Rightarrow> u64 \<Rightarrow> u64 \<Rightarrow> compiled_rate_binding \<Rightarrow> nat \<Rightarrow> reference_release" where
  "release_of domain_index d sequence release_time deadline_time b substep =
     \<lparr>rr_release_time_ns = release_time,
      rr_domain = cb_domain b,
      rr_domain_registration_index = domain_index,
      rr_domain_release_sequence = sequence,
      rr_phase = cb_phase b,
      rr_phase_kind = cb_phase_kind b,
      rr_compiled_phase_index = cb_compiled_phase_index b,
      rr_substep_ordinal = word_of_nat substep,
      rr_substep_count = rd_substep_count d,
      rr_relative_deadline_ns = rd_relative_deadline_ns d,
      rr_deadline_time_ns = deadline_time,
      rr_budget_wcet_ns = rd_budget_wcet_ns d,
      rr_criticality = rd_criticality d,
      rr_optional = rd_optional d,
      rr_late_action = rd_late_action d,
      rr_bounded_catch_up_limit = rd_bounded_catch_up_limit d\<rparr>"

definition sequence_releases ::
  "compiled_rate_binding list \<Rightarrow> nat \<Rightarrow> rate_domain_spec \<Rightarrow> u64 \<Rightarrow>
     rate_compile_diagnostic + reference_release list" where
  "sequence_releases bindings domain_index d sequence =
     (case checked_multiply sequence (rd_period_ns d) of
        None \<Rightarrow> Inl (rate_error capacity_exceeded ''rate release time is not representable'')
      | Some release_time \<Rightarrow>
          (case checked_add release_time (rd_relative_deadline_ns d) of
             None \<Rightarrow> Inl (rate_error capacity_exceeded ''rate release deadline is not representable'')
           | Some deadline_time \<Rightarrow>
               Inr (concat (map (\<lambda>b. map (release_of domain_index d sequence release_time deadline_time b)
                      [0..<unat (rd_substep_count d)])
                 (filter (\<lambda>b. rate_domain_number (cb_domain b) = domain_index) bindings)))))"

fun concat_results :: "('e + 'a list) list \<Rightarrow> 'e + 'a list" where
  "concat_results [] = Inr []"
| "concat_results (m # ms) =
     sum_bind m (\<lambda>xs. sum_bind (concat_results ms) (\<lambda>ys. Inr (xs @ ys)))"

definition domain_releases ::
  "u64 \<Rightarrow> compiled_rate_binding list \<Rightarrow> nat \<Rightarrow> rate_domain_spec \<Rightarrow>
     rate_compile_diagnostic + reference_release list" where
  "domain_releases supercycle bindings domain_index d =
     concat_results (map (\<lambda>sequence. sequence_releases bindings domain_index d (word_of_nat sequence))
       [0..<unat (supercycle div rd_period_ns d)])"

definition all_releases ::
  "u64 \<Rightarrow> compiled_rate_binding list \<Rightarrow> rate_domain_spec list \<Rightarrow>
     rate_compile_diagnostic + reference_release list" where
  "all_releases supercycle bindings domains =
     concat_results (map (\<lambda>(index, d). domain_releases supercycle bindings index d) (enumerate 0 domains))"

definition release_key :: "reference_release \<Rightarrow> u64 \<times> nat \<times> nat \<times> u32" where
  "release_key r =
     (rr_release_time_ns r, rr_domain_registration_index r, rr_compiled_phase_index r, rr_substep_ordinal r)"

section \<open>The compiler\<close>

definition compile_rate_plan ::
  "u32 \<Rightarrow> nat \<Rightarrow> phase_handle list \<Rightarrow> rate_domain_spec list \<Rightarrow> rate_binding_spec list \<Rightarrow>
     rate_compile_diagnostic + compiled_rate_plan" where
  "compile_rate_plan graph_owner phase_count compiled_order domains bindings =
     sum_bind (compile_ownership graph_owner phase_count (length domains) bindings)
       (\<lambda>(binding_by_phase, phases_per_domain).
     sum_bind (compile_supercycle [] domains 1) (\<lambda>supercycle.
     sum_bind (count_releases supercycle (zip domains phases_per_domain) 0) (\<lambda>release_count.
     sum_bind (compile_bindings graph_owner phase_count bindings binding_by_phase 0 compiled_order
                 (replicate phase_count None)) (\<lambda>compiled_bindings.
     sum_bind (all_releases supercycle compiled_bindings domains) (\<lambda>releases.
       Inr \<lparr>plan_supercycle_ns = supercycle,
            plan_domains = compile_domains graph_owner supercycle domains,
            plan_bindings = compiled_bindings,
            plan_releases = sort_key release_key releases\<rparr>)))))"

definition compile_rate_checked ::
  "u32 \<Rightarrow> nat \<Rightarrow> phase_handle list \<Rightarrow> rate_domain_spec list \<Rightarrow> rate_binding_spec list \<Rightarrow>
     rate_compile_diagnostic + compiled_rate_plan" where
  "compile_rate_checked graph_owner phase_count compiled_order domains bindings =
     (if domains = []
      then (if bindings \<noteq> []
            then Inl (rate_error invalid_config ''rate bindings require at least one rate domain'')
            else Inr empty_rate_plan)
      else if length domains > rate_domain_capacity
      then Inl (rate_error capacity_exceeded ''rate-domain capacity exceeded'')
      else if phase_count = 0 \<or> length compiled_order \<noteq> phase_count \<or> length bindings \<noteq> phase_count
      then Inl (rate_error invalid_config ''enabled rate model requires exactly one binding per phase'')
      else compile_rate_plan graph_owner phase_count compiled_order domains bindings)"

definition compile_rate_timeline ::
  "u32 \<Rightarrow> nat \<Rightarrow> phase_handle list \<Rightarrow> rate_domain_spec list \<Rightarrow> rate_binding_spec list \<Rightarrow>
     compiled_rate_plan \<Rightarrow> status \<times> compiled_rate_plan \<times> rate_compile_diagnostic" where
  "compile_rate_timeline graph_owner phase_count compiled_order domains bindings output =
     (case compile_rate_checked graph_owner phase_count compiled_order domains bindings of
        Inl d \<Rightarrow> (rc_status d, output, d)
      | Inr candidate \<Rightarrow> (ok, candidate, \<lparr>rc_status = ok, rc_message = None\<rparr>))"

end
