(* ===== verification/Rate_Plans.thy ===== *)
theory Rate_Plans
  imports Rate_Timeline
begin

text \<open>
  Correctness of the rate-timeline compiler: which specifications it accepts, and what the
  compiled plan contains.
\<close>

section \<open>Ownership\<close>

abbreviation binding_phase :: "rate_binding_spec \<Rightarrow> nat" where
  "binding_phase b \<equiv> phase_number (rb_phase b)"

abbreviation binding_domain :: "rate_binding_spec \<Rightarrow> nat" where
  "binding_domain b \<equiv> rate_domain_number (rb_domain b)"

definition phases_of_domain :: "rate_binding_spec list \<Rightarrow> nat \<Rightarrow> nat" where
  "phases_of_domain bs i = length (filter (\<lambda>b. binding_domain b = i) bs)"

definition bindings_ok :: "u32 \<Rightarrow> nat \<Rightarrow> nat \<Rightarrow> rate_binding_spec list \<Rightarrow> bool" where
  "bindings_ok ow n m bs \<longleftrightarrow>
     (\<forall>b \<in> set bs. \<not> binding_rejected ow n m b) \<and> distinct (map binding_phase bs)"

lemma binding_accepted:
  "\<not> binding_rejected ow n m b \<Longrightarrow> binding_phase b < n \<and> binding_domain b < m"
  by (auto simp: binding_rejected_def)

lemma bind_phases_spec:
  assumes "length bbp = n" and "length ppd = m"
  shows "case bind_phases ow n m k bs (bbp, ppd) of
      Inl d \<Rightarrow> rc_status d \<noteq> ok \<and>
        \<not> (bindings_ok ow n m bs \<and> (\<forall>b \<in> set bs. bbp ! binding_phase b = None))
    | Inr (bbp', ppd') \<Rightarrow> bindings_ok ow n m bs \<and> (\<forall>b \<in> set bs. bbp ! binding_phase b = None) \<and>
        length bbp' = n \<and> length ppd' = m \<and>
        (\<forall>j < length bs. bbp' ! binding_phase (bs ! j) = Some (k + j)) \<and>
        (\<forall>i. i \<notin> binding_phase ` set bs \<longrightarrow> bbp' ! i = bbp ! i) \<and>
        (\<forall>i < m. ppd' ! i = ppd ! i + phases_of_domain bs i)"
  using assms
proof (induction bs arbitrary: k bbp ppd)
  case Nil
  then show ?case by (simp add: bindings_ok_def phases_of_domain_def)
next
  case (Cons b bs)
  let ?p = "binding_phase b" and ?d = "binding_domain b"
  let ?bbp = "bbp[?p := Some k]" and ?ppd = "ppd[?d := Suc (ppd ! ?d)]"
  show ?case
  proof (cases "binding_rejected ow n m b \<or> bbp ! ?p \<noteq> None")
    case True
    then show ?thesis by (auto simp: bindings_ok_def)
  next
    case False
    then have b: "?p < n" "?d < m" "bbp ! ?p = None" using binding_accepted by auto
    have eq: "bind_phases ow n m k (b # bs) (bbp, ppd) = bind_phases ow n m (Suc k) bs (?bbp, ?ppd)"
      using False by (simp add: Let_def)
    have fresh: "(\<forall>c \<in> set bs. ?bbp ! binding_phase c = None) \<longleftrightarrow>
        (\<forall>c \<in> set bs. bbp ! binding_phase c = None) \<and> ?p \<notin> binding_phase ` set bs"
      using b Cons.prems by (force simp: nth_list_update)
    have ok: "bindings_ok ow n m (b # bs) \<longleftrightarrow> bindings_ok ow n m bs \<and> ?p \<notin> binding_phase ` set bs"
      using False by (auto simp: bindings_ok_def)
    note ih = Cons.IH [of ?bbp ?ppd "Suc k"]
    show ?thesis
    proof (cases "bind_phases ow n m (Suc k) bs (?bbp, ?ppd)")
      case (Inl d)
      then show ?thesis unfolding eq using ih Cons.prems fresh ok b by auto
    next
      case (Inr st)
      obtain bbp' ppd' where st: "st = (bbp', ppd')" by fastforce
      have r: "bindings_ok ow n m bs" "\<forall>c \<in> set bs. ?bbp ! binding_phase c = None"
        "length bbp' = n" "length ppd' = m"
        "\<forall>j < length bs. bbp' ! binding_phase (bs ! j) = Some (Suc k + j)"
        "\<forall>i. i \<notin> binding_phase ` set bs \<longrightarrow> bbp' ! i = ?bbp ! i"
        "\<forall>i < m. ppd' ! i = ?ppd ! i + phases_of_domain bs i"
        using ih Cons.prems Inr st by simp_all
      have new: "?p \<notin> binding_phase ` set bs" using r(2) fresh by blast
      have "bbp' ! ?p = Some k" using r(6) new b Cons.prems by simp
      then have "\<forall>j < length (b # bs). bbp' ! binding_phase ((b # bs) ! j) = Some (k + j)"
        using r(5) by (auto simp: less_Suc_eq_0_disj)
      moreover have "\<forall>i. i \<notin> binding_phase ` set (b # bs) \<longrightarrow> bbp' ! i = bbp ! i"
        using r(6) by simp
      moreover have "\<forall>i < m. ppd' ! i = ppd ! i + phases_of_domain (b # bs) i"
        using r(7) b Cons.prems by (auto simp: phases_of_domain_def nth_list_update)
      ultimately show ?thesis
        unfolding eq Inr st using r(1-4) ok new b fresh by simp
    qed
  qed
qed

lemma distinct_bounded_all:
  assumes "distinct xs" and "set xs \<subseteq> {..<n}" and "length xs = n"
  shows "set xs = {..<n}"
  using assms by (intro card_subset_eq) (auto simp: distinct_card)

definition ownership_ok :: "u32 \<Rightarrow> nat \<Rightarrow> nat \<Rightarrow> rate_binding_spec list \<Rightarrow> bool" where
  "ownership_ok ow n m bs \<longleftrightarrow> bindings_ok ow n m bs \<and> (\<forall>i < m. phases_of_domain bs i \<noteq> 0)"

lemma compile_ownership_spec:
  assumes len: "length bs = n"
  shows "case compile_ownership ow n m bs of
      Inl d \<Rightarrow> rc_status d \<noteq> ok \<and> \<not> ownership_ok ow n m bs
    | Inr (bbp, ppd) \<Rightarrow> ownership_ok ow n m bs \<and> length bbp = n \<and>
        (\<forall>j < n. bbp ! binding_phase (bs ! j) = Some j) \<and> ppd = map (phases_of_domain bs) [0..<m]"
proof -
  note spec = bind_phases_spec [of "replicate n None" n "replicate m 0" m, where k = 0 and bs = bs and ow = ow]
  show ?thesis
  proof (cases "bind_phases ow n m 0 bs (replicate n None, replicate m 0)")
    case (Inl d)
    have "bindings_ok ow n m bs \<Longrightarrow> \<forall>b \<in> set bs. replicate n (None :: nat option) ! binding_phase b = None"
      using binding_accepted by (fastforce simp: bindings_ok_def)
    then show ?thesis
      using spec Inl by (auto simp: compile_ownership_def ownership_ok_def)
  next
    case (Inr st)
    obtain bbp ppd where st: "st = (bbp, ppd)" by fastforce
    have r: "bindings_ok ow n m bs" "length bbp = n" "length ppd = m"
      "\<forall>j < length bs. bbp ! binding_phase (bs ! j) = Some j"
      "\<forall>i < m. ppd ! i = phases_of_domain bs i"
      using spec Inr st by simp_all
    have "set (map binding_phase bs) = {..<n}"
      using r(1) len binding_accepted
      by (intro distinct_bounded_all) (fastforce simp: bindings_ok_def)+
    have "bbp ! i \<noteq> None" if "i < n" for i
    proof -
      have "i \<in> set (map binding_phase bs)" using that \<open>set (map binding_phase bs) = {..<n}\<close> by simp
      then obtain j where "j < length bs" "i = binding_phase (bs ! j)" by (auto simp: in_set_conv_nth)
      then show ?thesis using r(4) by simp
    qed
    then have full: "None \<notin> set bbp" using r(2) by (auto simp: in_set_conv_nth)
    have ppd: "ppd = map (phases_of_domain bs) [0..<m]"
      using r(3,5) by (auto intro: nth_equalityI)
    show ?thesis
      using Inr st r full len ppd
      by (auto simp: compile_ownership_def ownership_ok_def)
  qed
qed

section \<open>The supercycle\<close>

abbreviation domain_period :: "rate_domain_spec \<Rightarrow> nat" where
  "domain_period d \<equiv> unat (rd_period_ns d)"

definition supercycle_of :: "rate_domain_spec list \<Rightarrow> nat" where
  "supercycle_of ds = Lcm (domain_period ` set ds)"

lemma lcm_all_nonzero:
  "\<forall>d \<in> set ds. \<not> domain_rejected d \<Longrightarrow> supercycle_of ds \<noteq> 0"
  by (auto simp: supercycle_of_def domain_rejected_def Lcm_0_iff unat_eq_0)

lemma compile_supercycle_spec:
  assumes "sc \<noteq> 0"
  shows "case compile_supercycle earlier ds sc of
      Inl d \<Rightarrow> rc_status d \<noteq> ok \<and> \<not> ((\<forall>d \<in> set ds. \<not> domain_rejected d) \<and>
        distinct (map rd_name ds) \<and> set earlier \<inter> rd_name ` set ds = {} \<and>
        lcm (unat sc) (supercycle_of ds) < 18446744073709551616)
    | Inr sc' \<Rightarrow> (\<forall>d \<in> set ds. \<not> domain_rejected d) \<and>
        distinct (map rd_name ds) \<and> set earlier \<inter> rd_name ` set ds = {} \<and>
        unat sc' = lcm (unat sc) (supercycle_of ds)"
  using assms
proof (induction ds arbitrary: earlier sc)
  case Nil
  then show ?case by (simp add: supercycle_of_def)
next
  case (Cons d ds)
  have super: "lcm (unat sc) (supercycle_of (d # ds)) =
      lcm (lcm (unat sc) (domain_period d)) (supercycle_of ds)"
    by (simp add: supercycle_of_def lcm.assoc)
  show ?case
  proof (cases "domain_rejected d \<or> rd_name d \<in> set earlier")
    case True
    then show ?thesis by auto
  next
    case False
    then have d: "\<not> domain_rejected d" "rd_name d \<notin> set earlier" "rd_period_ns d \<noteq> 0"
      by (auto simp: domain_rejected_def)
    show ?thesis
    proof (cases "checked_lcm sc (rd_period_ns d)")
      case None
      then have big: "\<not> lcm (unat sc) (domain_period d) < 18446744073709551616"
        using Cons.prems by (simp add: checked_lcm_None not_less)
      have "lcm (unat sc) (domain_period d) \<le> lcm (unat sc) (supercycle_of (d # ds))"
        if "\<forall>d \<in> set ds. \<not> domain_rejected d"
        using lcm_all_nonzero [OF that] Cons.prems d(3) unfolding super
        by (intro dvd_imp_le) (auto simp: lcm_pos_nat unat_gt_0)
      then have "\<not> ((\<forall>d \<in> set ds. \<not> domain_rejected d) \<and>
          lcm (unat sc) (supercycle_of (d # ds)) < 18446744073709551616)"
        using big by auto
      then show ?thesis using None False by simp blast
    next
      case (Some sc')
      then have sc': "unat sc' = lcm (unat sc) (domain_period d)" "sc' \<noteq> 0"
        using checked_lcm_Some [OF Cons.prems] Cons.prems d(3)
        by (auto simp: unat_eq_0 lcm_eq_0_iff simp flip: unat_eq_0)
      then show ?thesis
        using Cons.IH [of sc' "earlier @ [rd_name d]"] Some False d super
        by (auto split: sum.splits)
    qed
  qed
qed

section \<open>Counting releases\<close>

definition domain_entries :: "nat \<Rightarrow> rate_domain_spec \<Rightarrow> nat \<Rightarrow> nat" where
  "domain_entries sc d phases = sc div domain_period d * phases * unat (rd_substep_count d)"

lemma domain_entry_count_eq:
  assumes "phases < 18446744073709551616" and "\<not> domain_rejected d"
  shows "domain_entry_count sc d phases =
    (if domain_entries (unat sc) d phases < 18446744073709551616
     then Some (word_of_nat (domain_entries (unat sc) d phases)) else None)"
proof -
  have sub: "unat (rd_substep_count d) \<noteq> 0"
    using assms(2) by (simp add: domain_rejected_def unat_eq_0)
  let ?e = "unat sc div domain_period d * phases"
  show ?thesis
  proof (cases "?e < 18446744073709551616")
    case True
    then have e: "unat ((sc div rd_period_ns d) * word_of_nat phases) = ?e"
      using assms(1) by (simp add: unat_word_ariths(2) unat_div unat_of_nat_u64)
    have "domain_entry_count sc d phases =
        checked_multiply (sc div rd_period_ns d * word_of_nat phases) (ucast (rd_substep_count d))"
      using True assms(1)
      by (simp add: domain_entry_count_def checked_multiply_eq unat_div unat_of_nat_u64)
    moreover have "unat (sc div rd_period_ns d * word_of_nat phases) * unat (ucast (rd_substep_count d) :: u64) =
        domain_entries (unat sc) d phases"
      using e by (simp add: domain_entries_def)
    ultimately show ?thesis
      by (simp add: checked_multiply_Some checked_multiply_None unat_of_nat_u64)
  next
    case False
    moreover have "?e \<le> domain_entries (unat sc) d phases"
      using sub by (simp add: domain_entries_def)
    ultimately show ?thesis
      using assms(1)
      by (simp add: domain_entry_count_def checked_multiply_eq unat_div unat_of_nat_u64)
  qed
qed

definition total_entries :: "nat \<Rightarrow> (rate_domain_spec \<times> nat) list \<Rightarrow> nat" where
  "total_entries sc ds = (\<Sum>(d, phases) \<leftarrow> ds. domain_entries sc d phases)"

lemma count_releases_spec:
  assumes "\<forall>(d, phases) \<in> set ds. phases < 18446744073709551616 \<and> \<not> domain_rejected d"
    and "unat rc \<le> 65536"
  shows "case count_releases sc ds rc of
      Inl d \<Rightarrow> rc_status d \<noteq> ok \<and> \<not> unat rc + total_entries (unat sc) ds \<le> 65536
    | Inr rc' \<Rightarrow> unat rc' = unat rc + total_entries (unat sc) ds \<and> unat rc' \<le> 65536"
  using assms
proof (induction ds arbitrary: rc)
  case Nil
  then show ?case by (simp add: total_entries_def)
next
  case (Cons e ds)
  obtain d phases where e: "e = (d, phases)" by fastforce
  let ?n = "domain_entries (unat sc) d phases"
  have d: "phases < 18446744073709551616" "\<not> domain_rejected d" using Cons.prems e by auto
  have total: "total_entries (unat sc) (e # ds) = ?n + total_entries (unat sc) ds"
    by (simp add: total_entries_def e)
  show ?case
  proof (cases "unat rc + ?n \<le> 65536")
    case True
    let ?rc = "rc + word_of_nat ?n"
    have rc: "unat ?rc = unat rc + ?n"
      using True by (simp add: unat_word_ariths(1) unat_of_nat_u64)
    have "count_releases sc (e # ds) rc = count_releases sc ds ?rc"
      using True e d rc
      by (simp add: domain_entry_count_eq checked_add_eq unat_of_nat_u64 reference_release_capacity_def
          word_less_nat_alt)
    then show ?thesis
      using Cons.IH [of ?rc] Cons.prems(1) rc True total by (auto split: sum.splits)
  next
    case False
    have "\<exists>d. count_releases sc (e # ds) rc = Inl d \<and> rc_status d \<noteq> ok"
      using False e d
      by (auto simp: domain_entry_count_eq checked_add_eq unat_of_nat_u64 reference_release_capacity_def
          word_less_nat_alt unat_word_ariths(1) split: option.splits)
    then show ?thesis using False total by (auto split: sum.splits)
  qed
qed

section \<open>Compiled bindings\<close>

definition order_ok :: "u32 \<Rightarrow> nat \<Rightarrow> phase_handle list \<Rightarrow> bool" where
  "order_ok ow n order \<longleftrightarrow>
     (\<forall>p \<in> set order. phase_valid p \<and> phase_owner p = ow \<and> phase_number p < n) \<and>
     distinct (map phase_number order)"

definition compiled_binding ::
  "rate_binding_spec list \<Rightarrow> nat option list \<Rightarrow> nat \<Rightarrow> phase_handle \<Rightarrow> compiled_rate_binding" where
  "compiled_binding bs bbp i p =
     (let b = bs ! the (bbp ! phase_number p) in
      \<lparr>cb_phase = p, cb_domain = rb_domain b, cb_phase_kind = rb_phase_kind b,
       cb_compiled_phase_index = i\<rparr>)"

lemma compile_bindings_spec:
  assumes "length ci = n"
  shows "case compile_bindings ow n bs bbp k order ci of
      Inl d \<Rightarrow> rc_status d \<noteq> ok \<and> \<not> (order_ok ow n order \<and> (\<forall>p \<in> set order. ci ! phase_number p = None))
    | Inr cbs \<Rightarrow> order_ok ow n order \<and> (\<forall>p \<in> set order. ci ! phase_number p = None) \<and>
        cbs = map (\<lambda>(i, p). compiled_binding bs bbp i p) (enumerate k order)"
  using assms
proof (induction order arbitrary: k ci)
  case Nil
  then show ?case by (simp add: order_ok_def)
next
  case (Cons p order)
  let ?ci = "ci[phase_number p := Some k]"
  show ?case
  proof (cases "\<not> phase_valid p \<or> phase_owner p \<noteq> ow \<or> phase_number p \<ge> n \<or> ci ! phase_number p \<noteq> None")
    case True
    then show ?thesis by (auto simp: order_ok_def)
  next
    case False
    have eq: "compile_bindings ow n bs bbp k (p # order) ci =
        sum_bind (compile_bindings ow n bs bbp (Suc k) order ?ci) (\<lambda>rest. Inr (compiled_binding bs bbp k p # rest))"
      using False by (simp add: Let_def compiled_binding_def)
    have "?ci ! phase_number q = None \<longleftrightarrow> ci ! phase_number q = None \<and> phase_number p \<noteq> phase_number q" for q
      using False Cons.prems by (cases "phase_number q = phase_number p") auto
    then have fresh: "(\<forall>q \<in> set order. ?ci ! phase_number q = None) \<longleftrightarrow>
        (\<forall>q \<in> set order. ci ! phase_number q = None) \<and> phase_number p \<notin> phase_number ` set order"
      by blast
    have ok: "order_ok ow n (p # order) \<longleftrightarrow> order_ok ow n order \<and> phase_number p \<notin> phase_number ` set order"
      using False by (auto simp: order_ok_def)
    have pn: "ci ! phase_number p = None" using False by simp
    show ?thesis
    proof (cases "compile_bindings ow n bs bbp (Suc k) order ?ci")
      case (Inl d)
      then show ?thesis
        unfolding eq using Cons.IH [of ?ci "Suc k"] Cons.prems fresh ok by auto
    next
      case (Inr cbs)
      then show ?thesis
        unfolding eq using Cons.IH [of ?ci "Suc k"] Cons.prems fresh ok pn by auto
    qed
  qed
qed

section \<open>Reference releases\<close>

lemma concat_results_map:
  assumes "\<And>x. x \<in> set xs \<Longrightarrow> f x = (if P x then Inr (g x) else Inl e)"
  shows "concat_results (map f xs) = (if \<forall>x \<in> set xs. P x then Inr (concat (map g xs)) else Inl e)"
  using assms by (induction xs) auto

abbreviation deadline_error :: rate_compile_diagnostic where
  "deadline_error \<equiv> rate_error capacity_exceeded ''rate release deadline is not representable''"

definition expected_sequence ::
  "compiled_rate_binding list \<Rightarrow> nat \<Rightarrow> rate_domain_spec \<Rightarrow> nat \<Rightarrow> reference_release list" where
  "expected_sequence cbs i d s =
     concat (map (\<lambda>b. map (release_of i d (word_of_nat s) (word_of_nat (s * domain_period d))
         (word_of_nat (s * domain_period d + unat (rd_relative_deadline_ns d))) b)
       [0..<unat (rd_substep_count d)])
     (filter (\<lambda>b. rate_domain_number (cb_domain b) = i) cbs))"

definition expected_domain ::
  "nat \<Rightarrow> compiled_rate_binding list \<Rightarrow> nat \<Rightarrow> rate_domain_spec \<Rightarrow> reference_release list" where
  "expected_domain sc cbs i d = concat (map (expected_sequence cbs i d) [0..<sc div domain_period d])"

definition expected_releases ::
  "nat \<Rightarrow> compiled_rate_binding list \<Rightarrow> rate_domain_spec list \<Rightarrow> reference_release list" where
  "expected_releases sc cbs ds =
     concat (map (\<lambda>(i, d). expected_domain sc cbs i d) (enumerate 0 ds))"

lemma sequence_releases_eq:
  assumes "s * domain_period d < 18446744073709551616" and "rd_period_ns d \<noteq> 0"
  shows "sequence_releases cbs i d (word_of_nat s) =
    (if s * domain_period d + unat (rd_relative_deadline_ns d) < 18446744073709551616
     then Inr (expected_sequence cbs i d s) else Inl deadline_error)"
proof -
  have "s \<le> s * domain_period d" using assms(2) by (simp add: Suc_leI unat_gt_0)
  then have s: "unat (word_of_nat s :: u64) = s"
    using assms(1) by (intro unat_of_nat_u64) (rule le_less_trans)
  have m: "checked_multiply (word_of_nat s) (rd_period_ns d) = Some (word_of_nat (s * domain_period d))"
    unfolding checked_multiply_Some s using assms(1) unat_of_nat_u64 by blast
  have "checked_add (word_of_nat (s * domain_period d)) (rd_relative_deadline_ns d) =
      (if s * domain_period d + unat (rd_relative_deadline_ns d) < 18446744073709551616
       then Some (word_of_nat (s * domain_period d + unat (rd_relative_deadline_ns d))) else None)"
    using unat_of_nat_u64 [OF assms(1)] by (simp add: checked_add_eq del: of_nat_mult)
  then show ?thesis
    unfolding sequence_releases_def m expected_sequence_def
    by (simp del: of_nat_mult of_nat_add)
qed

definition deadline_fits :: "nat \<Rightarrow> rate_domain_spec \<Rightarrow> bool" where
  "deadline_fits sc d \<longleftrightarrow>
     sc - domain_period d + unat (rd_relative_deadline_ns d) < 18446744073709551616"

lemma last_release:
  assumes "p dvd sc" and "0 < p" and "0 < sc"
  shows "(\<forall>s < sc div p. s * p + r < (B :: nat)) \<longleftrightarrow> sc - p + r < B"
proof -
  obtain q where q: "sc = p * q" using assms(1) by (elim dvdE)
  then have q0: "0 < q" "sc div p = q" using assms by simp_all
  have last: "sc - p = (q - 1) * p" using q by (simp add: diff_mult_distrib2 mult.commute)
  have "s * p \<le> (q - 1) * p" if "s < q" for s
    using that by (intro mult_le_mono1) simp
  then show ?thesis
    unfolding last q0(2) using q0(1)
    by (metis One_nat_def Suc_pred add_le_mono1 diff_less le_less_trans zero_less_one)
qed

lemma domain_releases_eq:
  assumes "domain_period d dvd unat sc" and "rd_period_ns d \<noteq> 0" and "sc \<noteq> 0"
  shows "domain_releases sc cbs i d =
    (if deadline_fits (unat sc) d then Inr (expected_domain (unat sc) cbs i d) else Inl deadline_error)"
proof -
  let ?p = "domain_period d" and ?r = "unat (rd_relative_deadline_ns d)"
  have p: "0 < ?p" "0 < unat sc" using assms by (simp_all add: unat_gt_0)
  have "s * ?p < 18446744073709551616" if "s < unat sc div ?p" for s
  proof -
    have "s * ?p \<le> unat sc div ?p * ?p" using that by simp
    then show ?thesis using assms(1) unat_u64_less [of sc] by simp
  qed
  then have "domain_releases sc cbs i d =
      (if \<forall>s \<in> set [0..<unat sc div ?p]. s * ?p + ?r < 18446744073709551616
       then Inr (expected_domain (unat sc) cbs i d) else Inl deadline_error)"
    unfolding domain_releases_def expected_domain_def unat_div
    by (intro concat_results_map) (simp add: sequence_releases_eq assms(2))
  then show ?thesis
    using last_release [OF assms(1) p, of ?r 18446744073709551616]
    by (simp add: deadline_fits_def Ball_def)
qed

lemma all_releases_eq:
  assumes "\<forall>d \<in> set ds. domain_period d dvd unat sc \<and> rd_period_ns d \<noteq> 0" and "sc \<noteq> 0"
  shows "all_releases sc cbs ds =
    (if \<forall>d \<in> set ds. deadline_fits (unat sc) d then Inr (expected_releases (unat sc) cbs ds)
     else Inl deadline_error)"
proof -
  have "all_releases sc cbs ds =
      (if \<forall>x \<in> set (enumerate 0 ds). deadline_fits (unat sc) (snd x)
       then Inr (expected_releases (unat sc) cbs ds) else Inl deadline_error)"
    unfolding all_releases_def expected_releases_def
    using assms by (intro concat_results_map)
      (auto simp: domain_releases_eq in_set_enumerate_eq split: prod.splits)
  moreover have snds: "set ds = snd ` set (enumerate 0 ds)"
    by (metis map_snd_enumerate set_map)
  have "(\<forall>x \<in> set (enumerate 0 ds). deadline_fits (unat sc) (snd x)) \<longleftrightarrow>
      (\<forall>d \<in> set ds. deadline_fits (unat sc) d)"
    by (subst snds) simp
  ultimately show ?thesis by simp
qed

section \<open>The whole plan\<close>

definition rate_admissible ::
  "u32 \<Rightarrow> nat \<Rightarrow> phase_handle list \<Rightarrow> rate_domain_spec list \<Rightarrow> rate_binding_spec list \<Rightarrow> bool" where
  "rate_admissible ow n order ds bs \<longleftrightarrow>
     ownership_ok ow n (length ds) bs \<and> (\<forall>d \<in> set ds. \<not> domain_rejected d) \<and>
     distinct (map rd_name ds) \<and> supercycle_of ds < 18446744073709551616 \<and>
     total_entries (supercycle_of ds) (zip ds (map (phases_of_domain bs) [0..<length ds])) \<le> 65536 \<and>
     order_ok ow n order \<and> (\<forall>d \<in> set ds. deadline_fits (supercycle_of ds) d)"

definition plan_for ::
  "u32 \<Rightarrow> phase_handle list \<Rightarrow> rate_domain_spec list \<Rightarrow> rate_binding_spec list \<Rightarrow> nat option list \<Rightarrow>
     compiled_rate_plan" where
  "plan_for ow order ds bs bbp =
     (let sc = supercycle_of ds;
          cbs = map (\<lambda>(i, p). compiled_binding bs bbp i p) (enumerate 0 order) in
      \<lparr>plan_supercycle_ns = word_of_nat sc,
       plan_domains = compile_domains ow (word_of_nat sc) ds,
       plan_bindings = cbs,
       plan_releases = sort_key release_key (expected_releases sc cbs ds)\<rparr>)"

lemma bindings_bound:
  assumes "bindings_ok ow n m bs"
  shows "length bs \<le> 1073741824"
proof -
  have "set (map binding_phase bs) \<subseteq> {..<1073741824}"
    using phase.unat_index_bound by auto
  then have "card (set (map binding_phase bs)) \<le> card {..<1073741824 :: nat}"
    by (intro card_mono) auto
  then show ?thesis
    using distinct_card [of "map binding_phase bs"] assms by (simp add: bindings_ok_def)
qed

lemma compile_rate_plan_spec:
  assumes "length bs = n"
  shows "case compile_rate_plan ow n order ds bs of
      Inl d \<Rightarrow> rc_status d \<noteq> ok \<and> \<not> rate_admissible ow n order ds bs
    | Inr plan \<Rightarrow> rate_admissible ow n order ds bs \<and>
        (\<exists>bbp. (\<forall>j < n. bbp ! binding_phase (bs ! j) = Some j) \<and> plan = plan_for ow order ds bs bbp)"
proof -
  note own = compile_ownership_spec [OF assms, where ow = ow and m = "length ds"]
  show ?thesis
  proof (cases "compile_ownership ow n (length ds) bs")
    case (Inl d)
    then show ?thesis using own by (simp add: compile_rate_plan_def rate_admissible_def)
  next
    case own_ok: (Inr st)
    obtain bbp ppd where st: "st = (bbp, ppd)" by fastforce
    have o: "ownership_ok ow n (length ds) bs" "\<forall>j < n. bbp ! binding_phase (bs ! j) = Some j"
      "ppd = map (phases_of_domain bs) [0..<length ds]"
      using own own_ok st by simp_all
    note super = compile_supercycle_spec [of 1, where earlier = "[]" and ds = ds]
    show ?thesis
    proof (cases "compile_supercycle [] ds 1")
      case (Inl d)
      then show ?thesis
        using super own_ok st by (auto simp: compile_rate_plan_def rate_admissible_def)
    next
      case super_ok: (Inr sc)
      have s: "\<forall>d \<in> set ds. \<not> domain_rejected d" "distinct (map rd_name ds)" "unat sc = supercycle_of ds"
        using super super_ok by simp_all
      have sc: "sc = word_of_nat (supercycle_of ds)" "supercycle_of ds < 18446744073709551616"
        using s(3) unat_u64_less [of sc] by (simp_all add: word_unat_eq_iff unat_of_nat_u64)
      have "phases_of_domain bs i < 18446744073709551616" for i
      proof -
        have "phases_of_domain bs i \<le> length bs" by (simp add: phases_of_domain_def)
        then show ?thesis using bindings_bound o(1) unfolding ownership_ok_def by fastforce
      qed
      then have "\<forall>(d, phases) \<in> set (zip ds ppd). phases < 18446744073709551616 \<and> \<not> domain_rejected d"
        using s(1) o(3) by (auto simp: in_set_zip)
      note count = count_releases_spec [OF this, of 0 sc, simplified]
      note bind = compile_bindings_spec [of "replicate n None" n, where ow = ow and bs = bs and bbp = bbp
          and k = 0 and order = order, simplified]
      have dvd: "\<forall>d \<in> set ds. domain_period d dvd unat sc \<and> rd_period_ns d \<noteq> 0" "sc \<noteq> 0"
        using s lcm_all_nonzero [OF s(1)]
        by (auto simp: supercycle_of_def domain_rejected_def)
      note rel = all_releases_eq [OF dvd]
      have none: "order_ok ow n order \<Longrightarrow> \<forall>p \<in> set order. replicate n (None :: nat option) ! phase_number p = None"
        by (simp add: order_ok_def)
      show ?thesis
        using own_ok st super_ok s o count bind rel sc none
        by (auto simp: compile_rate_plan_def rate_admissible_def plan_for_def Let_def
            split: sum.splits if_splits)
    qed
  qed
qed

end
