(* ===== verification/Rate_Schedule.thy ===== *)
theory Rate_Schedule
  imports Rate_Plans
begin

text \<open>
  The properties of a compiled rate plan: its supercycle, its release sequence and its size.
\<close>

section \<open>Release keys\<close>

lemma keys_of_sequence:
  "map release_key (expected_sequence cbs i d s) =
     concat (map (\<lambda>b. map (\<lambda>k. (word_of_nat (s * domain_period d), i, cb_compiled_phase_index b, word_of_nat k))
       [0..<unat (rd_substep_count d)]) (filter (\<lambda>b. rate_domain_number (cb_domain b) = i) cbs))"
  by (simp add: expected_sequence_def release_key_def release_of_def map_concat comp_def del: of_nat_mult)

lemma distinct_sequence_keys:
  assumes "distinct (map cb_compiled_phase_index cbs)"
  shows "distinct (map release_key (expected_sequence cbs i d s))"
  unfolding keys_of_sequence
proof (rule distinct_concat_map [where h = cb_compiled_phase_index and tag = "\<lambda>(t, i, c, k). c"])
  show "distinct (map cb_compiled_phase_index (filter (\<lambda>b. rate_domain_number (cb_domain b) = i) cbs))"
    using assms by (rule distinct_map_filter)
  have "inj_on (word_of_nat :: nat \<Rightarrow> u32) {0..<unat (rd_substep_count d)}"
    using unat_u32_less [of "rd_substep_count d"]
    by (intro inj_on_inverseI [where g = unat]) (auto intro: unat_of_nat_u32)
  then show "distinct (map (\<lambda>k. (word_of_nat (s * domain_period d) :: u64, i, cb_compiled_phase_index b,
      word_of_nat k :: u32)) [0..<unat (rd_substep_count d)])" for b
    by (auto simp: distinct_map inj_on_def)
qed (auto simp del: of_nat_mult)

lemma distinct_domain_keys:
  assumes "distinct (map cb_compiled_phase_index cbs)" and "sc < 18446744073709551616"
    and "0 < domain_period d"
  shows "distinct (map release_key (expected_domain sc cbs i d))"
  unfolding expected_domain_def map_concat map_map
proof (rule distinct_concat_map [where h = id and tag = "\<lambda>(t, i, c, k). unat t div domain_period d"])
  show "distinct ((map release_key \<circ> expected_sequence cbs i d) s)" for s
    using distinct_sequence_keys [OF assms(1)] by simp
  fix s key
  assume s: "s \<in> set [0..<sc div domain_period d]"
    and key: "key \<in> set ((map release_key \<circ> expected_sequence cbs i d) s)"
  have "s * domain_period d \<le> sc div domain_period d * domain_period d" using s by simp
  also have "\<dots> \<le> sc" by simp
  finally have "unat (word_of_nat (s * domain_period d) :: u64) = s * domain_period d"
    using assms(2) by (intro unat_of_nat_u64) simp
  then show "(\<lambda>(t, i, c, k). unat t div domain_period d) key = id s"
    using key assms(3) unfolding comp_def keys_of_sequence by (auto simp del: of_nat_mult)
qed simp

lemma distinct_release_keys:
  assumes "distinct (map cb_compiled_phase_index cbs)" and "sc < 18446744073709551616"
    and "\<forall>d \<in> set ds. 0 < domain_period d"
  shows "distinct (map release_key (expected_releases sc cbs ds))"
  unfolding expected_releases_def map_concat map_map
proof (rule distinct_concat_map [where h = fst and tag = "\<lambda>(t, i, c, k). i"])
  show "distinct (map fst (enumerate 0 ds))" by simp
  show "distinct ((map release_key \<circ> (\<lambda>(i, d). expected_domain sc cbs i d)) x)"
    if "x \<in> set (enumerate 0 ds)" for x
    using that assms(3) distinct_domain_keys [OF assms(1,2)]
    by (auto simp: in_set_enumerate_eq split: prod.splits)
  show "(\<lambda>(t, i, c, k). i) key = fst x"
    if "key \<in> set ((map release_key \<circ> (\<lambda>(i, d). expected_domain sc cbs i d)) x)" for x key
    using that by (auto simp: expected_domain_def expected_sequence_def release_key_def release_of_def
        split: prod.splits)
qed

section \<open>Bindings of a plan\<close>

lemma compiled_binding_indices:
  "map cb_compiled_phase_index (map (\<lambda>(i, p). compiled_binding bs bbp i p) (enumerate 0 order)) =
     [0..<length order]"
  by (auto simp: compiled_binding_def Let_def intro: nth_equalityI simp: nth_enumerate_eq)

text \<open>Each phase of the order selects its own binding, so the bindings are permuted.\<close>

lemma selected_bindings:
  assumes "bindings_ok ow n m bs" and "length bs = n" and "order_ok ow n order" and "length order = n"
    and bbp: "\<forall>j < n. bbp ! binding_phase (bs ! j) = Some j"
  shows "mset (map (\<lambda>p. bs ! the (bbp ! phase_number p)) order) = mset bs"
    and "\<forall>p \<in> set order. rb_phase (bs ! the (bbp ! phase_number p)) = p \<and> the (bbp ! phase_number p) < n"
proof -
  let ?f = "\<lambda>p. the (bbp ! phase_number p)"
  have order: "set (map phase_number order) = {..<n}"
    using assms(3,4) by (intro distinct_bounded_all) (auto simp: order_ok_def)
  have bound: "set (map binding_phase bs) = {..<n}"
    using assms(1,2) binding_accepted by (intro distinct_bounded_all) (fastforce simp: bindings_ok_def)+
  have sel: "?f p < n \<and> rb_phase (bs ! ?f p) = p" if p: "p \<in> set order" for p
  proof -
    have "phase_number p \<in> set (map binding_phase bs)" using p order bound by auto
    then obtain j where j: "j < n" "binding_phase (bs ! j) = phase_number p"
      using assms(2) by (auto simp: in_set_conv_nth)
    then have "?f p = j" using bbp by (metis option.sel)
    moreover have "rb_phase (bs ! j) = p"
    proof (rule phase.handle_eqI)
      show "phase_valid (rb_phase (bs ! j))" "phase_owner (rb_phase (bs ! j)) = phase_owner p"
        using assms(1,2,3) p j nth_mem [of j bs]
        by (fastforce simp: bindings_ok_def binding_rejected_def order_ok_def)+
      show "phase_valid p" using assms(3) p by (simp add: order_ok_def)
      show "phase_index (rb_phase (bs ! j)) = phase_index p"
        using j(2) by (simp add: word_unat_eq_iff)
    qed
    ultimately show ?thesis using j by simp
  qed
  then show "\<forall>p \<in> set order. rb_phase (bs ! ?f p) = p \<and> ?f p < n" by blast
  have "j \<in> set (map ?f order)" if "j < n" for j
  proof -
    have "binding_phase (bs ! j) \<in> set (map phase_number order)"
      using that bound order assms(2) by (metis image_eqI list.set_map nth_mem)
    then obtain p where "p \<in> set order" "phase_number p = binding_phase (bs ! j)" by auto
    then show ?thesis using bbp that by force
  qed
  then have set: "set (map ?f order) = {..<n}" using sel by auto
  then have "distinct (map ?f order)" using assms(4) by (intro card_distinct) simp
  then have "mset (map ?f order) = mset [0..<n]"
    using set by (intro set_eq_iff_mset_eq_distinct [THEN iffD1]) (auto simp: atLeast0LessThan)
  then have "mset (map ((!) bs) (map ?f order)) = mset (map ((!) bs) [0..<n])"
    by (simp only: mset_map)
  moreover have "map ((!) bs) [0..<n] = bs" using map_nth [of bs] assms(2) by simp
  ultimately show "mset (map (\<lambda>p. bs ! ?f p) order) = mset bs"
    by (simp only: map_map comp_def)
qed

lemma domain_binding_count:
  assumes "mset (map (\<lambda>p. bs ! the (bbp ! phase_number p)) order) = mset bs"
  shows "length (filter (\<lambda>b. rate_domain_number (cb_domain b) = i)
      (map (\<lambda>(j, p). compiled_binding bs bbp j p) (enumerate k order))) = phases_of_domain bs i"
proof -
  have "length (filter (\<lambda>b. rate_domain_number (cb_domain b) = i)
      (map (\<lambda>(j, p). compiled_binding bs bbp j p) (enumerate k order))) =
      length (filter (\<lambda>b. binding_domain b = i) (map (\<lambda>p. bs ! the (bbp ! phase_number p)) order))"
    by (induction order arbitrary: k) (auto simp: compiled_binding_def Let_def)
  also have "\<dots> = phases_of_domain bs i"
    unfolding phases_of_domain_def using assms by (metis mset_filter size_mset)
  finally show ?thesis .
qed

lemma length_expected_domain:
  "length (expected_domain sc cbs i d) =
     domain_entries sc d (length (filter (\<lambda>b. rate_domain_number (cb_domain b) = i) cbs))"
proof -
  have "length (expected_sequence cbs i d s) =
      length (filter (\<lambda>b. rate_domain_number (cb_domain b) = i) cbs) * unat (rd_substep_count d)" for s
    unfolding expected_sequence_def by (simp add: length_concat comp_def sum_list_triv)
  then show ?thesis
    by (simp add: expected_domain_def domain_entries_def length_concat comp_def sum_list_triv)
qed

lemma length_expected_releases:
  assumes "\<And>i. length (filter (\<lambda>b. rate_domain_number (cb_domain b) = i) cbs) = phases_of_domain bs i"
  shows "length (expected_releases sc cbs ds) =
    total_entries sc (zip ds (map (phases_of_domain bs) [0..<length ds]))"
proof -
  have "map (length \<circ> (\<lambda>(i, d). expected_domain sc cbs i d)) (enumerate 0 ds) =
      map (\<lambda>(d, phases). domain_entries sc d phases) (zip ds (map (phases_of_domain bs) [0..<length ds]))"
    by (rule nth_equalityI) (auto simp: nth_enumerate_eq length_expected_domain assms)
  then show ?thesis
    unfolding expected_releases_def total_entries_def length_concat map_map by (rule arg_cong)
qed

section \<open>Successful compilations\<close>

lemma compile_rate_timeline_okE:
  assumes "compile_rate_timeline ow n order ds bs out = (ok, plan, diag)" and "ds \<noteq> []"
  obtains bbp where "length ds \<le> 64" and "n \<noteq> 0" and "length order = n" and "length bs = n"
    and "rate_admissible ow n order ds bs"
    and "\<forall>j < n. bbp ! binding_phase (bs ! j) = Some j" and "plan = plan_for ow order ds bs bbp"
proof (cases "length ds > rate_domain_capacity \<or> n = 0 \<or> length order \<noteq> n \<or> length bs \<noteq> n")
  case True
  then show ?thesis
    using assms by (auto simp: compile_rate_timeline_def compile_rate_checked_def split: if_splits)
next
  case False
  then have eq: "compile_rate_checked ow n order ds bs = compile_rate_plan ow n order ds bs"
    using assms(2) by (simp add: compile_rate_checked_def)
  have len: "length bs = n" using False by simp
  note spec = compile_rate_plan_spec [OF len, of ow order ds]
  show ?thesis
  proof (cases "compile_rate_plan ow n order ds bs")
    case (Inl d)
    then show ?thesis using spec assms by (simp add: compile_rate_timeline_def eq)
  next
    case (Inr plan')
    then have "plan' = plan" using assms by (simp add: compile_rate_timeline_def eq)
    then show ?thesis
      using spec Inr that False by (auto simp: rate_domain_capacity_def)
  qed
qed

lemma rate_admissibleD:
  assumes "rate_admissible ow n order ds bs"
  shows "supercycle_of ds < 18446744073709551616" and "0 < supercycle_of ds"
    and "\<forall>d \<in> set ds. 0 < domain_period d \<and> domain_period d dvd supercycle_of ds"
    and "bindings_ok ow n (length ds) bs" and "order_ok ow n order"
    and "\<forall>d \<in> set ds. deadline_fits (supercycle_of ds) d"
    and "total_entries (supercycle_of ds) (zip ds (map (phases_of_domain bs) [0..<length ds])) \<le> 65536"
proof -
  have ok: "\<forall>d \<in> set ds. \<not> domain_rejected d" using assms by (simp add: rate_admissible_def)
  then show "0 < supercycle_of ds" using lcm_all_nonzero [of ds] by blast
  show "\<forall>d \<in> set ds. 0 < domain_period d \<and> domain_period d dvd supercycle_of ds"
    using ok by (auto simp: domain_rejected_def unat_gt_0 supercycle_of_def)
qed (use assms in \<open>auto simp: rate_admissible_def ownership_ok_def\<close>)

lemma in_expected_releases:
  "r \<in> set (expected_releases sc cbs ds) \<longleftrightarrow>
     (\<exists>i < length ds. \<exists>s < sc div domain_period (ds ! i). \<exists>b \<in> set cbs.
        \<exists>k < unat (rd_substep_count (ds ! i)). rate_domain_number (cb_domain b) = i \<and>
        r = release_of i (ds ! i) (word_of_nat s) (word_of_nat (s * domain_period (ds ! i)))
              (word_of_nat (s * domain_period (ds ! i) + unat (rd_relative_deadline_ns (ds ! i)))) b k)"
proof -
  have flat: "r \<in> set (concat (map (\<lambda>b. map (f b) [0..<m]) (filter P cbs))) \<longleftrightarrow>
      (\<exists>b \<in> set cbs. \<exists>k < m. P b \<and> r = f b k)" for f m P
    unfolding set_concat set_map set_filter
    by (simp only: UN_iff image_iff set_upt bex_simps) fastforce
  have seq: "r \<in> set (expected_sequence cbs i d s) \<longleftrightarrow>
      (\<exists>b \<in> set cbs. \<exists>k < unat (rd_substep_count d). rate_domain_number (cb_domain b) = i \<and>
        r = release_of i d (word_of_nat s) (word_of_nat (s * domain_period d))
              (word_of_nat (s * domain_period d + unat (rd_relative_deadline_ns d))) b k)" for i d s
    unfolding expected_sequence_def by (rule flat)
  have dom: "r \<in> set (expected_domain sc cbs i d) \<longleftrightarrow>
      (\<exists>s < sc div domain_period d. r \<in> set (expected_sequence cbs i d s))" for i d
    unfolding expected_domain_def by auto
  have "r \<in> set (expected_releases sc cbs ds) \<longleftrightarrow>
      (\<exists>i < length ds. r \<in> set (expected_domain sc cbs i (ds ! i)))"
    unfolding expected_releases_def by (force simp: in_set_enumerate_eq)
  then show ?thesis unfolding dom seq .
qed

lemma release_time_bounds:
  assumes "r \<in> set (expected_releases sc cbs ds)" and "sc < 18446744073709551616"
    and "\<forall>d \<in> set ds. 0 < domain_period d \<and> domain_period d dvd sc"
    and "\<forall>d \<in> set ds. deadline_fits sc d"
  shows "unat (rr_release_time_ns r) < sc \<and>
    unat (rr_deadline_time_ns r) = unat (rr_release_time_ns r) + unat (rr_relative_deadline_ns r)"
proof -
  obtain i s b k where i: "i < length ds" and s: "s < sc div domain_period (ds ! i)"
    and r: "r = release_of i (ds ! i) (word_of_nat s) (word_of_nat (s * domain_period (ds ! i)))
              (word_of_nat (s * domain_period (ds ! i) + unat (rd_relative_deadline_ns (ds ! i)))) b k"
    using assms(1) unfolding in_expected_releases by blast
  let ?p = "domain_period (ds ! i)" and ?dl = "unat (rd_relative_deadline_ns (ds ! i))"
  have p: "0 < ?p" "?p dvd sc" "deadline_fits sc (ds ! i)" using assms(3,4) i by simp_all
  have less: "s * ?p < sc" using s p by (metis dvd_div_mult_self mult_less_cancel2)
  then have "0 < sc" by simp
  then have "s * ?p + ?dl < 18446744073709551616"
    using last_release [OF p(2,1), of ?dl 18446744073709551616] p(3) s by (simp add: deadline_fits_def)
  then show ?thesis
    using less assms(2) unfolding r release_of_def
    by (simp add: unat_of_nat_u64 del: of_nat_mult of_nat_add)
qed

lemma plan_for_parts:
  assumes "rate_admissible ow n order ds bs" and "length order = n" and "length bs = n"
    and "\<forall>j < n. bbp ! binding_phase (bs ! j) = Some j"
  defines "plan \<equiv> plan_for ow order ds bs bbp"
  shows "unat (plan_supercycle_ns plan) = supercycle_of ds"
    and "sorted_wrt (<) (map release_key (plan_releases plan))"
    and "length (plan_releases plan) =
      total_entries (supercycle_of ds) (zip ds (map (phases_of_domain bs) [0..<length ds]))"
    and "set (plan_releases plan) = set (expected_releases (supercycle_of ds) (plan_bindings plan) ds)"
    and "\<forall>i < n. \<exists>b \<in> set bs. rb_phase b = order ! i \<and>
      plan_bindings plan ! i = \<lparr>cb_phase = order ! i, cb_domain = rb_domain b,
        cb_phase_kind = rb_phase_kind b, cb_compiled_phase_index = i\<rparr>"
    and "length (plan_bindings plan) = n"
proof -
  note adm = rate_admissibleD [OF assms(1)]
  note sel = selected_bindings [OF adm(4) assms(3) adm(5) assms(2,4)]
  let ?cbs = "map (\<lambda>(i, p). compiled_binding bs bbp i p) (enumerate 0 order)"
  have parts: "plan_bindings plan = ?cbs"
    "plan_releases plan = sort_key release_key (expected_releases (supercycle_of ds) ?cbs ds)"
    by (simp_all add: plan_def plan_for_def Let_def)
  show "unat (plan_supercycle_ns plan) = supercycle_of ds"
    using adm(1) by (simp add: plan_def plan_for_def Let_def unat_of_nat_u64)
  have "distinct (map cb_compiled_phase_index ?cbs)"
    unfolding compiled_binding_indices by simp
  then show "sorted_wrt (<) (map release_key (plan_releases plan))"
    unfolding parts(2) using adm(1,3) by (intro sorted_key_strict distinct_release_keys) auto
  show "length (plan_releases plan) =
      total_entries (supercycle_of ds) (zip ds (map (phases_of_domain bs) [0..<length ds]))"
    unfolding parts(2) length_sort using domain_binding_count [OF sel(1)]
    by (rule length_expected_releases)
  show "set (plan_releases plan) = set (expected_releases (supercycle_of ds) (plan_bindings plan) ds)"
    unfolding parts set_sort ..
  show "length (plan_bindings plan) = n" unfolding parts using assms(2) by simp
  show "\<forall>i < n. \<exists>b \<in> set bs. rb_phase b = order ! i \<and>
      plan_bindings plan ! i = \<lparr>cb_phase = order ! i, cb_domain = rb_domain b,
        cb_phase_kind = rb_phase_kind b, cb_compiled_phase_index = i\<rparr>"
  proof (intro allI impI)
    fix i assume "i < n"
    let ?j = "the (bbp ! phase_number (order ! i))"
    have "rb_phase (bs ! ?j) = order ! i" "?j < length bs"
      using sel(2) \<open>i < n\<close> assms(2,3) by auto
    then show "\<exists>b \<in> set bs. rb_phase b = order ! i \<and>
      plan_bindings plan ! i = \<lparr>cb_phase = order ! i, cb_domain = rb_domain b,
        cb_phase_kind = rb_phase_kind b, cb_compiled_phase_index = i\<rparr>"
      using \<open>i < n\<close> assms(2) unfolding parts
      by (intro bexI [of _ "bs ! ?j"]) (auto simp: nth_enumerate_eq compiled_binding_def Let_def)
  qed
qed

lemma ratio_reduced:
  assumes "0 < (p :: nat)"
  shows "p div gcd p q * q = q div gcd p q * p" and "coprime (p div gcd p q) (q div gcd p q)"
proof -
  show "p div gcd p q * q = q div gcd p q * p"
    by (metis div_mult_swap dvd_div_mult gcd_dvd1 gcd_dvd2 mult.commute)
  show "coprime (p div gcd p q) (q div gcd p q)"
    using assms by (intro div_gcd_coprime) simp
qed

section \<open>A small rate model\<close>

definition sample_domain :: rate_domain_spec where
  "sample_domain = \<lparr>rd_name = ''a'', rd_period_ns = 5, rd_substep_count = 1, rd_relative_deadline_ns = 4,
     rd_budget_wcet_ns = 1, rd_criticality = normal, rd_optional = False, rd_late_action = late_fail,
     rd_bounded_catch_up_limit = 0\<rparr>"

definition sample_binding :: rate_binding_spec where
  "sample_binding = \<lparr>rb_phase = phase_handle_of 7 0, rb_domain = rate_domain_handle_of 7 0,
     rb_phase_kind = kind_cpu\<rparr>"

lemmas compile_rate_eval =
  compile_rate_timeline_def compile_rate_checked_def compile_rate_plan_def compile_ownership_def
  binding_rejected_def phase.owner_make phase.index_make phase.valid_make rate_domain.owner_make
  rate_domain.index_make rate_domain.valid_make index_mask_numeral domain_rejected_def valid_name_def
  name_character_def rate_domain_capacity_def rate_domain_name_capacity_def
  rate_domain_substep_capacity_def reference_release_capacity_def checked_lcm_def gcd_u64_def
  checked_multiply_def checked_add_def u64_max_def domain_entry_count_def all_releases_def
  domain_releases_def sequence_releases_def Let_def

lemma sample_compiles:
  "\<exists>plan. compile_rate_timeline 7 1 [phase_handle_of 7 0] [sample_domain] [sample_binding] empty_rate_plan =
     (ok, plan, \<lparr>rc_status = ok, rc_message = None\<rparr>)"
  by (simp add: sample_domain_def sample_binding_def compile_rate_eval)

section \<open>Properties\<close>

text \<open>What compilation asks of a rate model, as bounds on its numbers and names.\<close>

definition domain_conforms :: "rate_domain_spec \<Rightarrow> bool" where
  "domain_conforms d \<longleftrightarrow>
     0 < domain_period d \<and> unat (rd_substep_count d) \<in> {1..64} \<and>
     length (rd_name d) \<in> {1..63} \<and> set (rd_name d) \<subseteq> Collect name_character \<and>
     rd_criticality d \<in> {background, normal, critical}"

definition rate_conforms ::
  "u32 \<Rightarrow> nat \<Rightarrow> phase_handle list \<Rightarrow> rate_domain_spec list \<Rightarrow> rate_binding_spec list \<Rightarrow> bool" where
  "rate_conforms ow n order ds bs \<longleftrightarrow>
     (\<forall>b \<in> set bs. phase_valid (rb_phase b) \<and> phase_owner (rb_phase b) = ow \<and> binding_phase b < n \<and>
        rate_domain_valid (rb_domain b) \<and> rate_domain_owner (rb_domain b) = ow \<and> binding_domain b < length ds \<and>
        rb_phase_kind b \<in> {kind_cpu, kind_device}) \<and>
     distinct (map binding_phase bs) \<and>
     (\<forall>i < length ds. \<exists>b \<in> set bs. binding_domain b = i) \<and>
     (\<forall>d \<in> set ds. domain_conforms d) \<and> distinct (map rd_name ds) \<and>
     supercycle_of ds < 18446744073709551616 \<and>
     (\<Sum>i < length ds. supercycle_of ds div domain_period (ds ! i) * phases_of_domain bs i *
        unat (rd_substep_count (ds ! i))) \<le> 65536 \<and>
     (\<forall>p \<in> set order. phase_valid p \<and> phase_owner p = ow \<and> phase_number p < n) \<and>
     distinct (map phase_number order) \<and>
     (\<forall>d \<in> set ds. deadline_fits (supercycle_of ds) d)"

lemma total_entries_sum:
  "total_entries sc (zip ds (map (phases_of_domain bs) [0..<length ds])) =
     (\<Sum>i < length ds. sc div domain_period (ds ! i) * phases_of_domain bs i * unat (rd_substep_count (ds ! i)))"
  by (simp add: total_entries_def domain_entries_def sum_list_sum_nth atLeast0LessThan)

lemma domain_conforms_iff: "domain_conforms d \<longleftrightarrow> \<not> domain_rejected d"
  by (auto simp: domain_conforms_def domain_rejected_def valid_name_def rate_domain_name_capacity_def
      rate_domain_substep_capacity_def list_all_iff word_le_nat_alt not_less unat_gt_0 unat_eq_0 Suc_le_eq)

lemma rate_conforms_iff: "rate_conforms ow n order ds bs \<longleftrightarrow> rate_admissible ow n order ds bs"
proof -
  have "phases_of_domain bs i \<noteq> 0 \<longleftrightarrow> (\<exists>b \<in> set bs. binding_domain b = i)" for i
    by (auto simp: phases_of_domain_def filter_empty_conv)
  then show ?thesis
    unfolding rate_conforms_def rate_admissible_def ownership_ok_def bindings_ok_def order_ok_def
      total_entries_sum domain_conforms_iff
    by (auto simp: binding_rejected_def not_le)
qed

text \<open>
  C5. \<open>compile_rate_timeline\<close> succeeds exactly when there are no domains and no bindings, or when there
  are at most 64 domains and one binding per phase, every phase is bound once and every domain has
  a phase, the domains have a positive period, 1 to 64 substeps, a unique valid name and a known
  criticality, the supercycle fits into 64 bits with at most 65536 releases, the compiled order is
  a permutation of the phases, and all deadlines are representable.
\<close>

theorem compile_rate_timeline_ok_iff:
  "fst (compile_rate_timeline ow n order ds bs out) = ok \<longleftrightarrow>
     (ds = [] \<and> bs = []) \<or>
     (ds \<noteq> [] \<and> length ds \<le> 64 \<and> n \<noteq> 0 \<and> length order = n \<and> length bs = n \<and>
      rate_conforms ow n order ds bs)"
proof (cases "ds = [] \<or> length ds > rate_domain_capacity \<or> n = 0 \<or> length order \<noteq> n \<or> length bs \<noteq> n")
  case True
  then show ?thesis
    by (auto simp: compile_rate_timeline_def compile_rate_checked_def rate_domain_capacity_def)
next
  case False
  then have eq: "compile_rate_checked ow n order ds bs = compile_rate_plan ow n order ds bs"
    by (simp add: compile_rate_checked_def)
  then show ?thesis
    using compile_rate_plan_spec [of bs n ow order ds] False
    by (auto simp: rate_conforms_iff compile_rate_timeline_def rate_domain_capacity_def split: sum.splits)
qed

text \<open>
  C6. The supercycle of a compiled plan is the least common multiple of the periods, and the
  plan lists strictly in order (by release time, domain, compiled phase position and substep)
  exactly one release for each domain release below the supercycle, each phase bound to the
  domain and each substep.
\<close>

theorem compile_rate_timeline_releases:
  assumes "compile_rate_timeline ow n order ds bs out = (ok, plan, diag)" and "ds \<noteq> []"
  shows "unat (plan_supercycle_ns plan) = Lcm (domain_period ` set ds) \<and>
    sorted_wrt (<) (map release_key (plan_releases plan)) \<and>
    (\<forall>r. r \<in> set (plan_releases plan) \<longleftrightarrow>
       (\<exists>i < length ds. \<exists>s < unat (plan_supercycle_ns plan) div domain_period (ds ! i).
          \<exists>b \<in> set (plan_bindings plan). \<exists>k < unat (rd_substep_count (ds ! i)).
            rate_domain_number (cb_domain b) = i \<and>
            r = release_of i (ds ! i) (word_of_nat s) (word_of_nat (s * domain_period (ds ! i)))
                  (word_of_nat (s * domain_period (ds ! i) + unat (rd_relative_deadline_ns (ds ! i)))) b k))"
proof -
  obtain bbp where len: "length order = n" "length bs = n"
    and adm: "rate_admissible ow n order ds bs"
    and bbp: "\<forall>j < n. bbp ! binding_phase (bs ! j) = Some j" and plan: "plan = plan_for ow order ds bs bbp"
    by (rule compile_rate_timeline_okE [OF assms])
  note parts = plan_for_parts [OF adm len bbp, folded plan]
  show ?thesis
    using parts(1,2,4) in_expected_releases [of _ "supercycle_of ds" "plan_bindings plan" ds]
    by (simp add: supercycle_of_def)
qed

theorem compile_rate_timeline_releases_witness:
  "\<exists>plan. compile_rate_timeline 7 1 [phase_handle_of 7 0] [sample_domain] [sample_binding] empty_rate_plan =
       (ok, plan, \<lparr>rc_status = ok, rc_message = None\<rparr>) \<and>
     unat (plan_supercycle_ns plan) = 5 \<and>
     sorted_wrt (<) (map release_key (plan_releases plan))"
proof -
  obtain plan where plan: "compile_rate_timeline 7 1 [phase_handle_of 7 0] [sample_domain] [sample_binding]
      empty_rate_plan = (ok, plan, \<lparr>rc_status = ok, rc_message = None\<rparr>)"
    using sample_compiles by blast
  show ?thesis using plan compile_rate_timeline_releases [OF plan] by (intro exI [of _ plan]) (simp add: sample_domain_def)
qed

text \<open>
  C7. The number of releases is the sum over the domains of releases per supercycle times bound
  phases times substeps and is at most 65536; every release time lies in the half-open
  interval from zero to the supercycle, and its deadline is the release time plus the relative
  deadline without wrap-around.
\<close>

theorem compile_rate_timeline_bounds:
  assumes "compile_rate_timeline ow n order ds bs out = (ok, plan, diag)" and "ds \<noteq> []"
  shows "length (plan_releases plan) =
      (\<Sum>i < length ds. unat (plan_supercycle_ns plan) div domain_period (ds ! i) *
         phases_of_domain bs i * unat (rd_substep_count (ds ! i))) \<and>
    length (plan_releases plan) \<le> 65536 \<and>
    (\<forall>r \<in> set (plan_releases plan).
       unat (rr_release_time_ns r) < unat (plan_supercycle_ns plan) \<and>
       unat (rr_deadline_time_ns r) = unat (rr_release_time_ns r) + unat (rr_relative_deadline_ns r))"
proof -
  obtain bbp where len: "length order = n" "length bs = n"
    and adm: "rate_admissible ow n order ds bs"
    and bbp: "\<forall>j < n. bbp ! binding_phase (bs ! j) = Some j" and plan: "plan = plan_for ow order ds bs bbp"
    by (rule compile_rate_timeline_okE [OF assms])
  note parts = plan_for_parts [OF adm len bbp, folded plan] and d = rate_admissibleD [OF adm]
  have "unat (rr_release_time_ns r) < supercycle_of ds \<and>
      unat (rr_deadline_time_ns r) = unat (rr_release_time_ns r) + unat (rr_relative_deadline_ns r)"
    if "r \<in> set (plan_releases plan)" for r
    using that release_time_bounds [OF _ d(1) d(3) d(6)] unfolding parts(4) by blast
  then show ?thesis using parts(1,3) d(7) total_entries_sum by simp
qed

theorem compile_rate_timeline_bounds_witness:
  "\<exists>plan. compile_rate_timeline 7 1 [phase_handle_of 7 0] [sample_domain] [sample_binding] empty_rate_plan =
       (ok, plan, \<lparr>rc_status = ok, rc_message = None\<rparr>) \<and>
     length (plan_releases plan) \<le> 65536 \<and>
     (\<forall>r \<in> set (plan_releases plan). unat (rr_release_time_ns r) < unat (plan_supercycle_ns plan))"
proof -
  obtain plan where plan: "compile_rate_timeline 7 1 [phase_handle_of 7 0] [sample_domain] [sample_binding]
      empty_rate_plan = (ok, plan, \<lparr>rc_status = ok, rc_message = None\<rparr>)"
    using sample_compiles by blast
  show ?thesis using plan compile_rate_timeline_bounds [OF plan] by (intro exI [of _ plan]) simp
qed

text \<open>
  C8. Position i of the plan binds the i-th phase of the compiled order to the domain and kind
  of that phase's own binding.
\<close>

theorem compile_rate_timeline_bindings:
  assumes "compile_rate_timeline ow n order ds bs out = (ok, plan, diag)" and "ds \<noteq> []"
  shows "length (plan_bindings plan) = n \<and>
    (\<forall>i < n. \<exists>b \<in> set bs. rb_phase b = order ! i \<and>
      plan_bindings plan ! i = \<lparr>cb_phase = order ! i, cb_domain = rb_domain b,
        cb_phase_kind = rb_phase_kind b, cb_compiled_phase_index = i\<rparr>)"
proof -
  obtain bbp where len: "length order = n" "length bs = n"
    and adm: "rate_admissible ow n order ds bs"
    and bbp: "\<forall>j < n. bbp ! binding_phase (bs ! j) = Some j" and plan: "plan = plan_for ow order ds bs bbp"
    by (rule compile_rate_timeline_okE [OF assms])
  show ?thesis using plan_for_parts(5,6) [OF adm len bbp, folded plan] by blast
qed

theorem compile_rate_timeline_bindings_witness:
  "\<exists>plan. compile_rate_timeline 7 1 [phase_handle_of 7 0] [sample_domain] [sample_binding] empty_rate_plan =
       (ok, plan, \<lparr>rc_status = ok, rc_message = None\<rparr>) \<and>
     length (plan_bindings plan) = 1 \<and> cb_phase (plan_bindings plan ! 0) = phase_handle_of 7 0"
proof -
  obtain plan where plan: "compile_rate_timeline 7 1 [phase_handle_of 7 0] [sample_domain] [sample_binding]
      empty_rate_plan = (ok, plan, \<lparr>rc_status = ok, rc_message = None\<rparr>)"
    using sample_compiles by blast
  show ?thesis using plan compile_rate_timeline_bindings [OF plan] by (intro exI [of _ plan]) simp
qed

text \<open>
  C9. Each compiled domain carries the handle of its registration index, its releases per
  supercycle multiplied by its period give the supercycle, and its period ratio against domain
  zero is exact and in lowest terms.
\<close>

theorem compile_rate_timeline_domains:
  assumes "compile_rate_timeline ow n order ds bs out = (ok, plan, diag)" and "i < length ds"
  shows "length (plan_domains plan) = length ds \<and>
    cd_domain (plan_domains plan ! i) = rate_domain_handle_of ow (word_of_nat i) \<and>
    cd_period_ns (plan_domains plan ! i) = rd_period_ns (ds ! i) \<and>
    unat (cd_releases_per_supercycle (plan_domains plan ! i)) * domain_period (ds ! i) =
      unat (plan_supercycle_ns plan) \<and>
    unat (cd_period_ratio_numerator (plan_domains plan ! i)) * domain_period (hd ds) =
      unat (cd_period_ratio_denominator (plan_domains plan ! i)) * domain_period (ds ! i) \<and>
    coprime (unat (cd_period_ratio_numerator (plan_domains plan ! i)))
      (unat (cd_period_ratio_denominator (plan_domains plan ! i)))"
proof -
  have "ds \<noteq> []" using assms(2) by auto
  then obtain bbp where adm: "rate_admissible ow n order ds bs" and plan: "plan = plan_for ow order ds bs bbp"
    using compile_rate_timeline_okE [OF assms(1)] by metis
  note d = rate_admissibleD [OF adm]
  let ?d = "ds ! i" and ?sc = "word_of_nat (supercycle_of ds) :: u64"
  have p: "0 < domain_period ?d" "domain_period ?d dvd supercycle_of ds" using d(3) assms(2) by simp_all
  have sc: "unat ?sc = supercycle_of ds" using d(1) by (rule unat_of_nat_u64)
  have dom: "plan_domains plan ! i = compile_domain ow ?sc (rd_period_ns (hd ds)) i ?d"
    "length (plan_domains plan) = length ds" "plan_supercycle_ns plan = ?sc"
    using assms(2) by (simp_all add: plan plan_for_def Let_def compile_domains_def nth_enumerate_eq)
  show ?thesis
    unfolding dom sc using p ratio_reduced [OF p(1), of "domain_period (hd ds)"]
    by (simp add: compile_domain_def Let_def unat_div sc unat_gcd_u64)
qed

theorem compile_rate_timeline_domains_witness:
  "\<exists>plan. compile_rate_timeline 7 1 [phase_handle_of 7 0] [sample_domain] [sample_binding] empty_rate_plan =
       (ok, plan, \<lparr>rc_status = ok, rc_message = None\<rparr>) \<and>
     unat (cd_releases_per_supercycle (plan_domains plan ! 0)) * 5 = unat (plan_supercycle_ns plan)"
proof -
  obtain plan where plan: "compile_rate_timeline 7 1 [phase_handle_of 7 0] [sample_domain] [sample_binding]
      empty_rate_plan = (ok, plan, \<lparr>rc_status = ok, rc_message = None\<rparr>)"
    using sample_compiles by blast
  show ?thesis using plan compile_rate_timeline_domains [OF plan, of 0] by (intro exI [of _ plan]) (simp add: sample_domain_def)
qed

end
