(* ===== verification/Cross_Rate_Types.thy ===== *)
theory Cross_Rate_Types
  imports Rate_Timeline Compiled_Graph
begin

text \<open>
  The declarations that rate dispatch and cross-rate communication share: cross-rate channels and
  their device endpoint selectors (\<^verbatim>\<open>rt/src/cross_rate_data.hpp\<close>), and the compiled device phases and
  payload references of \<^verbatim>\<open>rt/include/rt/runtime.hpp\<close> that both compilers consult.

  An index whose invalid value is the largest \<^verbatim>\<open>size_t\<close> is an option, None standing for that
  sentinel.  A compiled device plan keeps the two tables the modelled code reads.
\<close>

section \<open>Device handles\<close>

definition invalid_device_handle :: u64 where
  "invalid_device_handle = u64_max"

datatype device_backend_handle = DeviceBackendHandle (backend_value: u64)

datatype device_buffer_handle = DeviceBufferHandle (buffer_value: u64)

section \<open>Channels\<close>

datatype cross_rate_mode = sample_and_hold | cross_rate_mode_unknown u8

record device_endpoint_selector =
  sel_payload_reference_ordinal :: "nat option"
  sel_slot_stride_bytes :: u64

definition selector_valid :: "device_endpoint_selector \<Rightarrow> bool" where
  "selector_valid s \<longleftrightarrow> sel_payload_reference_ordinal s \<noteq> None \<and> sel_slot_stride_bytes s \<noteq> 0"

definition no_selector :: device_endpoint_selector where
  "no_selector = \<lparr>sel_payload_reference_ordinal = None, sel_slot_stride_bytes = 0\<rparr>"

record cross_rate_channel_spec =
  ch_name :: string
  ch_producer :: phase_handle
  ch_consumer :: phase_handle
  ch_payload_size :: nat
  ch_initial_sample :: "u8 list"
  ch_mode :: cross_rate_mode
  ch_maximum_age_ns :: u64
  ch_producer_device :: device_endpoint_selector
  ch_consumer_device :: device_endpoint_selector

section \<open>Compiled device phases\<close>

datatype device_payload_role =
  role_input | role_output | role_input_output | role_unknown u8

datatype device_reference_kind =
  dispatch_buffer | copy_source | copy_destination | synchronization_target | reference_kind_unknown u8

record compiled_device_phase =
  dv_phase :: phase_handle
  dv_domain :: rate_domain_handle
  dv_backend :: device_backend_handle
  dv_compiled_phase_index :: nat
  dv_completion_budget_ns :: u64
  dv_maximum_in_flight :: u32
  dv_command_count :: u32
  dv_wait_count :: u32
  dv_signal_count :: u32
  dv_first_command_index :: nat
  dv_first_payload_reference_index :: nat
  dv_payload_reference_count :: nat
  dv_first_timeline_reference_index :: nat
  dv_timeline_reference_count :: nat
  dv_completion_timestamp_domain_identity :: u64
  dv_simulation :: "u64 option"

record device_payload_reference =
  pr_phase :: phase_handle
  pr_backend :: device_backend_handle
  pr_buffer :: device_buffer_handle
  pr_command_index :: u32
  pr_command_reference_index :: u32
  pr_kind :: device_reference_kind
  pr_role :: device_payload_role
  pr_access :: u32
  pr_offset :: u64
  pr_bytes :: u64

record compiled_device_rate_plan =
  dr_phases :: "compiled_device_phase list"
  dr_payload_references :: "device_payload_reference list"

text \<open>The device plan is an optional pointer; a null pointer has no phases.\<close>

definition device_phases :: "compiled_device_rate_plan option \<Rightarrow> compiled_device_phase list" where
  "device_phases plan = (case plan of None \<Rightarrow> [] | Some p \<Rightarrow> dr_phases p)"

end
