(* ===== verification/Rate_Dispatch.thy ===== *)
theory Rate_Dispatch
  imports Cross_Rate_Types
begin

text \<open>
  The dispatch compiler of \<^verbatim>\<open>rt/src/rate_dispatch.cpp\<close>.  From a compiled rate plan it derives what the
  active dispatcher reads while it runs: the single-lane admission of the mandatory CPU records,
  the release groups (all records of one release of one domain), slices that list the groups of a
  domain and the channels of a phase, the order in which optional domains are shed, and the
  device prerequisites of every record.  \<open>count_due_domain_releases\<close> and \<open>count_due_rate_work\<close>
  count the releases due in a half-open interval of logical time.

  The arrays of fixed capacity are lists of that length, a vector entry that holds the largest
  \<^verbatim>\<open>size_t\<close> is None, and a rejected plan leaves the output as it was.  Failure of an allocation
  is not modelled.
\<close>

section \<open>Policies, plans and diagnostics\<close>

definition rate_telemetry_capacity_limit :: nat where
  "rate_telemetry_capacity_limit = unat reference_release_capacity"

definition rate_policy_threshold_limit :: u32 where
  "rate_policy_threshold_limit = ucast reference_release_capacity"

datatype determinism_tier =
  tier_unspecified | tier_schedule_independent | tier_reproducible_build | tier_portable_deterministic
| tier_unknown u8

record rate_execution_policy =
  ep_maximum_dispatch_records_per_step :: nat
  ep_host_policy_version :: u64
  ep_consecutive_late_threshold :: u32
  ep_consecutive_on_time_threshold :: u32
  ep_rate_telemetry_capacity :: nat

record rate_admission_record =
  ra_reference_index :: nat
  ra_declared_start_ns :: u64
  ra_declared_finish_ns :: u64
  ra_deadline_ns :: u64

record rate_release_group =
  rg_first_reference_index :: nat
  rg_reference_count :: nat
  rg_domain_registration_index :: nat
  rg_domain_release_sequence :: u64
  rg_release_time_ns :: u64

record compiled_rate_dispatch_plan =
  dp_policy :: rate_execution_policy
  dp_admission :: "rate_admission_record list"
  dp_groups :: "rate_release_group list"
  dp_domain_group_offsets :: "nat list"
  dp_domain_group_indices :: "nat list"
  dp_records_per_domain_release :: "nat list"
  dp_optional_shed_order :: "nat list"
  dp_producer_channel_offsets :: "nat list"
  dp_producer_channel_indices :: "nat list"
  dp_consumer_channel_offsets :: "nat list"
  dp_consumer_channel_indices :: "nat list"
  dp_device_phase_by_reference :: "nat option list"
  dp_device_dependency_offsets :: "nat list"
  dp_device_dependencies :: "nat list"
  dp_maximum_device_records_per_group :: nat

record rate_dispatch_diagnostic =
  rx_status :: status
  rx_message :: "string option"
  rx_reference_index :: "nat option"

abbreviation dispatch_error :: "status \<Rightarrow> string \<Rightarrow> rate_dispatch_diagnostic" where
  "dispatch_error st msg \<equiv> \<lparr>rx_status = st, rx_message = Some msg, rx_reference_index = None\<rparr>"

abbreviation dispatch_error_at :: "status \<Rightarrow> string \<Rightarrow> nat \<Rightarrow> rate_dispatch_diagnostic" where
  "dispatch_error_at st msg i \<equiv> \<lparr>rx_status = st, rx_message = Some msg, rx_reference_index = Some i\<rparr>"

section \<open>Validation\<close>

definition valid_action :: "rate_late_action \<Rightarrow> bool" where
  "valid_action action \<longleftrightarrow>
     action = late_skip \<or> action = late_bounded_catch_up \<or> action = late_hold \<or>
     action = late_degrade \<or> action = late_fail"

definition policy_rejected :: "rate_execution_policy \<Rightarrow> bool" where
  "policy_rejected p \<longleftrightarrow>
     ep_maximum_dispatch_records_per_step p = 0 \<or>
     ep_maximum_dispatch_records_per_step p > unat reference_release_capacity \<or>
     ep_host_policy_version p = 0 \<or>
     ep_consecutive_late_threshold p = 0 \<or>
     ep_consecutive_on_time_threshold p = 0 \<or>
     ep_consecutive_late_threshold p > rate_policy_threshold_limit \<or>
     ep_consecutive_on_time_threshold p > rate_policy_threshold_limit \<or>
     ep_rate_telemetry_capacity p > rate_telemetry_capacity_limit"

definition plan_unusable :: "compiled_rate_plan \<Rightarrow> bool" where
  "plan_unusable plan \<longleftrightarrow>
     plan_domains plan = [] \<or> plan_releases plan = [] \<or> plan_supercycle_ns plan = 0 \<or>
     length (plan_domains plan) > rate_domain_capacity"

fun mark_cpu_domains :: "nat \<Rightarrow> compiled_rate_binding list \<Rightarrow> bool list \<Rightarrow> bool list" where
  "mark_cpu_domains domain_count [] cpu_domains = cpu_domains"
| "mark_cpu_domains domain_count (b # bs) cpu_domains =
     mark_cpu_domains domain_count bs
       (if cb_phase_kind b = kind_cpu \<and> rate_domain_valid (cb_domain b) \<and>
           rate_domain_number (cb_domain b) < domain_count
        then cpu_domains[rate_domain_number (cb_domain b) := True]
        else cpu_domains)"

definition endpoint_rejected :: "u32 \<Rightarrow> compiled_rate_plan \<Rightarrow> phase_handle \<Rightarrow> bool" where
  "endpoint_rejected graph_owner plan endpoint \<longleftrightarrow>
     \<not> phase_valid endpoint \<or> phase_owner endpoint \<noteq> graph_owner \<or>
     phase_number endpoint \<ge> length (plan_bindings plan)"

text \<open>The domain number of a phase's first binding, if that binding names a domain of the plan.\<close>

definition endpoint_domain :: "compiled_rate_plan \<Rightarrow> phase_handle \<Rightarrow> nat option" where
  "endpoint_domain plan endpoint =
     (case find (\<lambda>b. cb_phase b = endpoint) (plan_bindings plan) of
        None \<Rightarrow> None
      | Some b \<Rightarrow>
          if \<not> rate_domain_valid (cb_domain b) \<or>
             rate_domain_number (cb_domain b) \<ge> length (plan_domains plan)
          then None
          else Some (rate_domain_number (cb_domain b)))"

fun check_channels ::
  "u32 \<Rightarrow> compiled_rate_plan \<Rightarrow> cross_rate_channel_spec list \<Rightarrow> bool list \<Rightarrow>
     rate_dispatch_diagnostic + bool list" where
  "check_channels graph_owner plan [] producer_domains = Inr producer_domains"
| "check_channels graph_owner plan (c # cs) producer_domains =
     (if endpoint_rejected graph_owner plan (ch_producer c) \<or>
         endpoint_rejected graph_owner plan (ch_consumer c)
      then Inl (dispatch_error invalid_handle ''active cross-rate endpoint is invalid'')
      else case (endpoint_domain plan (ch_producer c), endpoint_domain plan (ch_consumer c)) of
        (Some producer_domain, Some consumer_domain) \<Rightarrow>
          if cd_optional (plan_domains plan ! producer_domain) \<or>
             cd_optional (plan_domains plan ! consumer_domain)
          then Inl (dispatch_error invalid_config
            ''optional domains cannot produce or consume active cross-rate channels'')
          else check_channels graph_owner plan cs (producer_domains[producer_domain := True])
      | _ \<Rightarrow> Inl (dispatch_error invalid_handle ''active cross-rate endpoint has no valid domain''))"

definition active_domain_rejected :: "bool \<Rightarrow> bool \<Rightarrow> compiled_rate_domain \<Rightarrow> bool" where
  "active_domain_rejected cpu producer d \<longleftrightarrow>
     cd_period_ns d = 0 \<or>
     cd_relative_deadline_ns d = 0 \<or>
     (cpu \<and> cd_relative_deadline_ns d > cd_period_ns d) \<or>
     \<not> valid_action (cd_late_action d) \<or>
     (cd_late_action d = late_bounded_catch_up \<and> cd_bounded_catch_up_limit d = 0) \<or>
     (cd_late_action d \<noteq> late_bounded_catch_up \<and> cd_bounded_catch_up_limit d \<noteq> 0) \<or>
     (cd_late_action d = late_skip \<and> producer)"

definition admitted_by :: "phase_handle \<Rightarrow> rate_domain_handle \<Rightarrow> compiled_device_phase \<Rightarrow> bool" where
  "admitted_by phase domain dv \<longleftrightarrow> dv_phase dv = phase \<and> dv_domain dv = domain"

definition device_binding_rejected ::
  "compiled_device_phase list \<Rightarrow> compiled_rate_binding \<Rightarrow> bool" where
  "device_binding_rejected phases b \<longleftrightarrow>
     cb_phase_kind b = kind_device \<and> \<not> list_ex (admitted_by (cb_phase b) (cb_domain b)) phases"

definition active_binding_rejected :: "u32 \<Rightarrow> nat \<Rightarrow> nat \<Rightarrow> compiled_rate_binding \<Rightarrow> bool" where
  "active_binding_rejected graph_owner phase_count domain_count b \<longleftrightarrow>
     \<not> phase_valid (cb_phase b) \<or> phase_owner (cb_phase b) \<noteq> graph_owner \<or>
     phase_number (cb_phase b) \<ge> phase_count \<or>
     \<not> rate_domain_valid (cb_domain b) \<or> rate_domain_owner (cb_domain b) \<noteq> graph_owner \<or>
     rate_domain_number (cb_domain b) \<ge> domain_count"

fun domains_by_phase ::
  "u32 \<Rightarrow> nat \<Rightarrow> compiled_rate_binding list \<Rightarrow> nat option list \<Rightarrow>
     rate_dispatch_diagnostic + nat option list" where
  "domains_by_phase graph_owner domain_count [] domain_by_phase = Inr domain_by_phase"
| "domains_by_phase graph_owner domain_count (b # bs) domain_by_phase =
     (if active_binding_rejected graph_owner (length domain_by_phase) domain_count b
      then Inl (dispatch_error invalid_handle ''active rate binding is invalid'')
      else domains_by_phase graph_owner domain_count bs
             (domain_by_phase[phase_number (cb_phase b) := Some (rate_domain_number (cb_domain b))]))"

definition active_dependency_rejected :: "nat option list \<Rightarrow> graph_dependency \<Rightarrow> bool" where
  "active_dependency_rejected domain_by_phase d \<longleftrightarrow>
     \<not> phase_valid (prerequisite d) \<or> \<not> phase_valid (dependent d) \<or>
     phase_number (prerequisite d) \<ge> length domain_by_phase \<or>
     phase_number (dependent d) \<ge> length domain_by_phase \<or>
     domain_by_phase ! phase_number (prerequisite d) \<noteq> domain_by_phase ! phase_number (dependent d)"

definition validate_dispatch ::
  "u32 \<Rightarrow> graph_dependency list \<Rightarrow> compiled_rate_plan \<Rightarrow> cross_rate_channel_spec list \<Rightarrow>
     compiled_device_rate_plan option \<Rightarrow> rate_dispatch_diagnostic + unit" where
  "validate_dispatch graph_owner dependencies plan channels device_plan =
     (let cpu_domains = mark_cpu_domains (length (plan_domains plan)) (plan_bindings plan)
            (replicate rate_domain_capacity False) in
      sum_bind (check_channels graph_owner plan channels (replicate rate_domain_capacity False))
        (\<lambda>producer_domains.
      if list_ex (\<lambda>(index, d). active_domain_rejected (cpu_domains ! index) (producer_domains ! index) d)
           (enumerate 0 (plan_domains plan))
      then Inl (dispatch_error invalid_config
        ''active rate domain has invalid deadline, budget, optionality, late action, or catch-up bound'')
      else if list_ex (device_binding_rejected (device_phases device_plan)) (plan_bindings plan)
      then Inl (dispatch_error invalid_config
        ''active device rate execution requires an admitted HAL-v2 command-batch phase'')
      else sum_bind (domains_by_phase graph_owner (length (plan_domains plan)) (plan_bindings plan)
             (replicate (length (plan_bindings plan)) None))
        (\<lambda>domain_by_phase.
      if list_ex (active_dependency_rejected domain_by_phase) dependencies
      then Inl (dispatch_error invalid_config
        ''active rate execution rejects ordinary cross-domain graph dependencies; use a cross-rate channel'')
      else Inr ())))"

section \<open>Slices by counting\<close>

text \<open>
  Items with a key below \<open>n\<close> are stored by key: one pass counts the items of every key one
  position up, a running sum turns the counts into offsets, and a second pass writes every item
  at the next free position of its key.
\<close>

fun slice_counts :: "nat list \<Rightarrow> nat list \<Rightarrow> nat list" where
  "slice_counts [] counts = counts"
| "slice_counts (k # ks) counts = slice_counts ks (counts[Suc k := Suc (counts ! Suc k)])"

fun running_sums :: "nat \<Rightarrow> nat list \<Rightarrow> nat list" where
  "running_sums acc [] = []"
| "running_sums acc (x # xs) = (acc + x) # running_sums (acc + x) xs"

definition slice_offsets :: "nat \<Rightarrow> nat list \<Rightarrow> nat list" where
  "slice_offsets n ks = running_sums 0 (slice_counts ks (replicate (Suc n) 0))"

fun fill_slices :: "(nat \<times> nat) list \<Rightarrow> nat list \<Rightarrow> nat list \<Rightarrow> nat list" where
  "fill_slices [] next_free indices = indices"
| "fill_slices ((k, item) # rest) next_free indices =
     fill_slices rest (next_free[k := Suc (next_free ! k)]) (indices[next_free ! k := item])"

definition slices :: "nat \<Rightarrow> (nat \<times> nat) list \<Rightarrow> nat list \<times> nat list" where
  "slices n items =
     (let offsets = slice_offsets n (map fst items)
      in (offsets, fill_slices items offsets (replicate (length items) 0)))"

definition producer_slices :: "nat \<Rightarrow> cross_rate_channel_spec list \<Rightarrow> nat list \<times> nat list" where
  "producer_slices phase_count channels =
     slices phase_count (map (\<lambda>(index, c). (phase_number (ch_producer c), index)) (enumerate 0 channels))"

definition consumer_slices :: "nat \<Rightarrow> cross_rate_channel_spec list \<Rightarrow> nat list \<times> nat list" where
  "consumer_slices phase_count channels =
     (if list_ex (\<lambda>c. selector_valid (ch_consumer_device c)) channels
      then slices phase_count
             (map (\<lambda>(index, c). (phase_number (ch_consumer c), index))
               (filter (\<lambda>(index, c). selector_valid (ch_consumer_device c)) (enumerate 0 channels)))
      else ([], []))"

definition group_slices :: "rate_release_group list \<Rightarrow> nat list \<times> nat list" where
  "group_slices groups =
     slices rate_domain_capacity
       (map (\<lambda>(index, grp). (rg_domain_registration_index grp, index)) (enumerate 0 groups))"

section \<open>The shedding order\<close>

fun criticality_code :: "rate_criticality \<Rightarrow> u8" where
  "criticality_code background = 0"
| "criticality_code normal = 1"
| "criticality_code critical = 2"
| "criticality_code (criticality_unknown c) = c"

definition shed_key :: "compiled_rate_plan \<Rightarrow> nat \<Rightarrow> u8 \<times> int" where
  "shed_key plan index = (criticality_code (cd_criticality (plan_domains plan ! index)), - int index)"

definition optional_shed_order :: "compiled_rate_plan \<Rightarrow> nat list" where
  "optional_shed_order plan =
     sort_key (shed_key plan)
       (filter (\<lambda>index. cd_optional (plan_domains plan ! index)) [0..<length (plan_domains plan)])"

section \<open>The reference loop\<close>

record dispatch_walk =
  dw_device_phase_by_reference :: "nat option list"
  dw_admission :: "rate_admission_record list"
  dw_groups :: "rate_release_group list"
  dw_previous_finish :: u64

definition record_unsupported :: "compiled_rate_plan \<Rightarrow> reference_release \<Rightarrow> bool" where
  "record_unsupported plan r \<longleftrightarrow>
     (rr_phase_kind r \<noteq> kind_cpu \<and> rr_phase_kind r \<noteq> kind_device) \<or>
     rr_relative_deadline_ns r = 0 \<or>
     rr_domain_registration_index r \<ge> length (plan_domains plan)"

primrec find_index :: "('a \<Rightarrow> bool) \<Rightarrow> 'a list \<Rightarrow> nat option" where
  "find_index P [] = None"
| "find_index P (x # xs) = (if P x then Some 0 else map_option Suc (find_index P xs))"

definition bind_device_record ::
  "compiled_device_phase list \<Rightarrow> nat \<Rightarrow> reference_release \<Rightarrow> nat option list \<Rightarrow>
     rate_dispatch_diagnostic + nat option list" where
  "bind_device_record phases index r by_reference =
     (if rr_phase_kind r = kind_device
      then (case find_index (admitted_by (rr_phase r) (rr_domain r)) phases of
              None \<Rightarrow> Inl (dispatch_error_at invalid_config
                ''active device reference has no admitted execution record'' index)
            | Some admitted \<Rightarrow> Inr (by_reference[index := Some admitted]))
      else Inr by_reference)"

definition admit_record ::
  "nat \<Rightarrow> reference_release \<Rightarrow> rate_admission_record list \<times> u64 \<Rightarrow>
     rate_dispatch_diagnostic + rate_admission_record list \<times> u64" where
  "admit_record index r = (\<lambda>(admission, previous_finish).
     if \<not> rr_optional r \<and> rr_phase_kind r = kind_cpu
     then (let declared_start = max previous_finish (rr_release_time_ns r) in
           case checked_add declared_start (rr_budget_wcet_ns r) of
             None \<Rightarrow> Inl (dispatch_error_at capacity_exceeded
               ''declared-budget admission arithmetic overflowed'' index)
           | Some declared_finish \<Rightarrow>
               if declared_finish > rr_deadline_time_ns r
               then Inl (dispatch_error_at invalid_config
                 ''declared-budget admission found an infeasible mandatory record'' index)
               else Inr (admission @
                 [\<lparr>ra_reference_index = index, ra_declared_start_ns = declared_start,
                   ra_declared_finish_ns = declared_finish, ra_deadline_ns = rr_deadline_time_ns r\<rparr>],
                 declared_finish))
     else Inr (admission, previous_finish))"

definition extend_groups ::
  "nat \<Rightarrow> reference_release \<Rightarrow> rate_release_group list \<Rightarrow> rate_release_group list" where
  "extend_groups index r groups =
     (if groups = [] \<or>
         rg_domain_registration_index (last groups) \<noteq> rr_domain_registration_index r \<or>
         rg_domain_release_sequence (last groups) \<noteq> rr_domain_release_sequence r
      then groups @
        [\<lparr>rg_first_reference_index = index, rg_reference_count = 1,
          rg_domain_registration_index = rr_domain_registration_index r,
          rg_domain_release_sequence = rr_domain_release_sequence r,
          rg_release_time_ns = rr_release_time_ns r\<rparr>]
      else butlast groups @
        [(last groups)\<lparr>rg_reference_count := Suc (rg_reference_count (last groups))\<rparr>])"

definition walk_record ::
  "compiled_rate_plan \<Rightarrow> compiled_device_phase list \<Rightarrow> nat \<Rightarrow> reference_release \<Rightarrow> dispatch_walk \<Rightarrow>
     rate_dispatch_diagnostic + dispatch_walk" where
  "walk_record plan phases index r w =
     (if record_unsupported plan r
      then Inl (dispatch_error_at invalid_config
        ''active reference record is ambiguous or unsupported'' index)
      else if rr_phase_kind r = kind_cpu \<and> rr_budget_wcet_ns r = 0
      then Inl (dispatch_error_at invalid_config
        ''active CPU reference record requires a declared budget'' index)
      else sum_bind (bind_device_record phases index r (dw_device_phase_by_reference w)) (\<lambda>by_reference.
           sum_bind (admit_record index r (dw_admission w, dw_previous_finish w))
             (\<lambda>(admission, previous_finish).
           Inr \<lparr>dw_device_phase_by_reference = by_reference, dw_admission = admission,
                dw_groups = extend_groups index r (dw_groups w),
                dw_previous_finish = previous_finish\<rparr>)))"

fun walk_records ::
  "compiled_rate_plan \<Rightarrow> compiled_device_phase list \<Rightarrow> nat \<Rightarrow> reference_release list \<Rightarrow> dispatch_walk \<Rightarrow>
     rate_dispatch_diagnostic + dispatch_walk" where
  "walk_records plan phases index [] w = Inr w"
| "walk_records plan phases index (r # rs) w =
     sum_bind (walk_record plan phases index r w) (walk_records plan phases (Suc index) rs)"

fun count_group_records ::
  "rate_release_group list \<Rightarrow> nat list \<Rightarrow> rate_dispatch_diagnostic + nat list" where
  "count_group_records [] records = Inr records"
| "count_group_records (grp # groups) records =
     (let d = rg_domain_registration_index grp in
      if records ! d = 0
      then count_group_records groups (records[d := rg_reference_count grp])
      else if records ! d \<noteq> rg_reference_count grp
      then Inl (dispatch_error_at invalid_config
        ''active domain release has an ambiguous record count'' (rg_first_reference_index grp))
      else count_group_records groups records)"

section \<open>Device prerequisites\<close>

record device_walk =
  dd_offsets :: "nat list"
  dd_dependencies :: "nat list"
  dd_device_records :: nat

definition device_prerequisite ::
  "reference_release list \<Rightarrow> nat option list \<Rightarrow> nat \<Rightarrow> nat \<Rightarrow> graph_dependency \<Rightarrow> nat option" where
  "device_prerequisite releases by_reference first_index reference_index d =
     (if dependent d \<noteq> rr_phase (releases ! reference_index) then None
      else find (\<lambda>i. rr_phase (releases ! i) = prerequisite d \<and> by_reference ! i \<noteq> None)
             [first_index..<reference_index])"

definition device_record_step ::
  "graph_dependency list \<Rightarrow> reference_release list \<Rightarrow> nat option list \<Rightarrow> nat \<Rightarrow> nat \<Rightarrow> device_walk \<Rightarrow>
     device_walk" where
  "device_record_step dependencies releases by_reference first_index reference_index w =
     (let found = List.map_filter (device_prerequisite releases by_reference first_index reference_index)
            dependencies in
      w\<lparr>dd_offsets := (dd_offsets w)[Suc reference_index := length (dd_dependencies w) + length found],
        dd_dependencies := dd_dependencies w @ found,
        dd_device_records :=
          (if by_reference ! reference_index \<noteq> None then Suc (dd_device_records w)
           else dd_device_records w)\<rparr>)"

fun device_group_walk ::
  "graph_dependency list \<Rightarrow> reference_release list \<Rightarrow> nat option list \<Rightarrow> rate_release_group list \<Rightarrow>
     nat list \<times> nat list \<times> nat \<Rightarrow> nat list \<times> nat list \<times> nat" where
  "device_group_walk dependencies releases by_reference [] st = st"
| "device_group_walk dependencies releases by_reference (grp # groups) (offsets, found, maximum) =
     (let first_index = rg_first_reference_index grp;
          w = fold (device_record_step dependencies releases by_reference first_index)
                [first_index..<first_index + rg_reference_count grp]
                \<lparr>dd_offsets = offsets, dd_dependencies = found, dd_device_records = 0\<rparr>
      in device_group_walk dependencies releases by_reference groups
           (dd_offsets w, dd_dependencies w, max maximum (dd_device_records w)))"

section \<open>The compiler\<close>

definition assemble_dispatch ::
  "rate_execution_policy \<Rightarrow> graph_dependency list \<Rightarrow> compiled_rate_plan \<Rightarrow> cross_rate_channel_spec list \<Rightarrow>
     dispatch_walk \<Rightarrow> nat list \<Rightarrow> compiled_rate_dispatch_plan" where
  "assemble_dispatch policy dependencies plan channels w records =
     (let phase_count = length (plan_bindings plan);
          (producer_offsets, producer_indices) = producer_slices phase_count channels;
          (consumer_offsets, consumer_indices) = consumer_slices phase_count channels;
          (dependency_offsets, found, maximum) =
            device_group_walk dependencies (plan_releases plan) (dw_device_phase_by_reference w)
              (dw_groups w) (replicate (Suc (length (plan_releases plan))) 0, [], 0);
          (group_offsets, group_indices) = group_slices (dw_groups w)
      in \<lparr>dp_policy = policy,
          dp_admission = dw_admission w,
          dp_groups = dw_groups w,
          dp_domain_group_offsets = group_offsets,
          dp_domain_group_indices = group_indices,
          dp_records_per_domain_release = records,
          dp_optional_shed_order = optional_shed_order plan,
          dp_producer_channel_offsets = producer_offsets,
          dp_producer_channel_indices = producer_indices,
          dp_consumer_channel_offsets = consumer_offsets,
          dp_consumer_channel_indices = consumer_indices,
          dp_device_phase_by_reference = dw_device_phase_by_reference w,
          dp_device_dependency_offsets = dependency_offsets,
          dp_device_dependencies = found,
          dp_maximum_device_records_per_group = maximum\<rparr>)"

definition empty_walk :: "compiled_rate_plan \<Rightarrow> dispatch_walk" where
  "empty_walk plan =
     \<lparr>dw_device_phase_by_reference = replicate (length (plan_releases plan)) None,
      dw_admission = [], dw_groups = [], dw_previous_finish = 0\<rparr>"

definition compile_dispatch_candidate ::
  "rate_execution_policy \<Rightarrow> graph_dependency list \<Rightarrow> compiled_rate_plan \<Rightarrow> cross_rate_channel_spec list \<Rightarrow>
     compiled_device_rate_plan option \<Rightarrow> rate_dispatch_diagnostic + compiled_rate_dispatch_plan" where
  "compile_dispatch_candidate policy dependencies plan channels device_plan =
     sum_bind (walk_records plan (device_phases device_plan) 0 (plan_releases plan) (empty_walk plan))
       (\<lambda>w.
     if dw_previous_finish w > plan_supercycle_ns plan
     then Inl (dispatch_error_at invalid_config
       ''declared-budget admission is not idle at the supercycle boundary'' (length (plan_releases plan) - 1))
     else sum_bind (count_group_records (dw_groups w) (replicate rate_domain_capacity 0)) (\<lambda>records.
     Inr (assemble_dispatch policy dependencies plan channels w records)))"

definition compile_dispatch_checked ::
  "u32 \<Rightarrow> determinism_tier \<Rightarrow> rate_execution_policy \<Rightarrow> graph_dependency list \<Rightarrow> compiled_rate_plan \<Rightarrow>
     cross_rate_channel_spec list \<Rightarrow> compiled_device_rate_plan option \<Rightarrow>
     rate_dispatch_diagnostic + compiled_rate_dispatch_plan" where
  "compile_dispatch_checked graph_owner tier policy dependencies plan channels device_plan =
     (if policy_rejected policy
      then Inl (dispatch_error invalid_config
        ''active rate execution requires valid positive policy fields and bounded telemetry'')
      else if tier \<noteq> tier_unspecified
      then Inl (dispatch_error invalid_config
        ''active M16-03 rate execution supports only D0 unspecified'')
      else if plan_unusable plan
      then Inl (dispatch_error invalid_config
        ''active rate execution requires a finite explicit rate plan'')
      else sum_bind (validate_dispatch graph_owner dependencies plan channels device_plan) (\<lambda>_.
           compile_dispatch_candidate policy dependencies plan channels device_plan))"

definition compile_rate_dispatch ::
  "u32 \<Rightarrow> determinism_tier \<Rightarrow> rate_execution_policy \<Rightarrow> graph_dependency list \<Rightarrow> compiled_rate_plan \<Rightarrow>
     cross_rate_channel_spec list \<Rightarrow> compiled_device_rate_plan option \<Rightarrow> compiled_rate_dispatch_plan \<Rightarrow>
     status \<times> compiled_rate_dispatch_plan \<times> rate_dispatch_diagnostic" where
  "compile_rate_dispatch graph_owner tier policy dependencies plan channels device_plan output =
     (case compile_dispatch_checked graph_owner tier policy dependencies plan channels device_plan of
        Inl d \<Rightarrow> (rx_status d, output, d)
      | Inr candidate \<Rightarrow>
          (ok, candidate, \<lparr>rx_status = ok, rx_message = None, rx_reference_index = None\<rparr>))"

section \<open>Counting due work\<close>

record rate_due_counts =
  due_domain_releases :: u64
  due_reference_records :: u64

definition count_due_domain_releases ::
  "compiled_rate_plan \<Rightarrow> compiled_rate_dispatch_plan \<Rightarrow> nat \<Rightarrow> u64 \<Rightarrow> u64 \<Rightarrow> status \<times> u64 \<times> u64" where
  "count_due_domain_releases plan dispatch domain_index cursor_ns end_ns =
     (if cursor_ns > end_ns \<or> domain_index \<ge> length (plan_domains plan)
      then (invalid_argument, 0, 0)
      else let period = cd_period_ns (plan_domains plan ! domain_index);
               records = dp_records_per_domain_release dispatch ! domain_index
           in if period = 0 \<or> records = 0 then (invalid_argument, 0, 0)
              else case (ceil_div cursor_ns period, ceil_div end_ns period) of
                (Some first_sequence, Some end_sequence) \<Rightarrow>
                  if end_sequence < first_sequence then (invalid_argument, 0, 0)
                  else (case checked_multiply (end_sequence - first_sequence) (word_of_nat records) of
                          None \<Rightarrow> (capacity_exceeded, 0, 0)
                        | Some reference_records \<Rightarrow>
                            (ok, end_sequence - first_sequence, reference_records))
              | _ \<Rightarrow> (invalid_argument, 0, 0))"

fun add_due_counts ::
  "compiled_rate_plan \<Rightarrow> compiled_rate_dispatch_plan \<Rightarrow> u64 \<Rightarrow> u64 \<Rightarrow> nat list \<Rightarrow> rate_due_counts \<Rightarrow>
     rate_due_counts option" where
  "add_due_counts plan dispatch cursor_ns end_ns [] candidate = Some candidate"
| "add_due_counts plan dispatch cursor_ns end_ns (i # is) candidate =
     (case count_due_domain_releases plan dispatch i cursor_ns end_ns of
        (st, releases, records) \<Rightarrow>
          if st \<noteq> ok then None
          else (case (checked_add (due_domain_releases candidate) releases,
                      checked_add (due_reference_records candidate) records) of
                  (Some total_releases, Some total_records) \<Rightarrow>
                    add_due_counts plan dispatch cursor_ns end_ns is
                      \<lparr>due_domain_releases = total_releases, due_reference_records = total_records\<rparr>
                | _ \<Rightarrow> None))"

definition count_due_rate_work ::
  "compiled_rate_plan \<Rightarrow> compiled_rate_dispatch_plan \<Rightarrow> u64 \<Rightarrow> u64 \<Rightarrow> rate_due_counts \<Rightarrow>
     status \<times> rate_due_counts" where
  "count_due_rate_work plan dispatch cursor_ns end_ns output =
     (if cursor_ns > end_ns then (invalid_argument, output)
      else case add_due_counts plan dispatch cursor_ns end_ns [0..<length (plan_domains plan)]
                  \<lparr>due_domain_releases = 0, due_reference_records = 0\<rparr> of
             None \<Rightarrow> (capacity_exceeded, output)
           | Some candidate \<Rightarrow> (ok, candidate))"

end
