(* ===== verification/Dispatch_Slices.thy ===== *)
theory Dispatch_Slices
  imports Rate_Dispatch
begin

text \<open>
  The counting slices of the dispatch compiler hold, for every key, the items of that key in
  the order they were given.
\<close>

definition key_slice :: "nat list \<Rightarrow> nat list \<Rightarrow> nat \<Rightarrow> nat list" where
  "key_slice offsets indices k = take (offsets ! Suc k - offsets ! k) (drop (offsets ! k) indices)"

section \<open>Offsets\<close>

lemma length_slice_counts [simp]: "length (slice_counts ks counts) = length counts"
  by (induction ks counts rule: slice_counts.induct) auto

lemma slice_counts_nth:
  assumes "\<forall>k \<in> set ks. Suc k < length counts" and "i < length counts"
  shows "slice_counts ks counts ! i =
    counts ! i + (case i of 0 \<Rightarrow> 0 | Suc j \<Rightarrow> length (filter (\<lambda>k. k = j) ks))"
  using assms
  by (induction ks counts rule: slice_counts.induct) (auto simp: nth_list_update split: nat.splits)

lemma length_running_sums [simp]: "length (running_sums acc xs) = length xs"
  by (induction acc xs rule: running_sums.induct) auto

lemma running_sums_nth:
  "i < length xs \<Longrightarrow> running_sums acc xs ! i = acc + sum_list (take (Suc i) xs)"
  by (induction acc xs arbitrary: i rule: running_sums.induct) (auto simp: nth_Cons split: nat.splits)

lemma filter_less_Suc:
  "length (filter (\<lambda>k. k < Suc j) ks) = length (filter (\<lambda>k. k < j) ks) + length (filter (\<lambda>k. k = j) ks)"
  for ks :: "nat list"
  by (induction ks) auto

lemma length_slice_offsets [simp]: "length (slice_offsets n ks) = Suc n"
  by (simp add: slice_offsets_def)

lemma slice_offsets_nth:
  assumes "\<forall>k \<in> set ks. k < n" and "i \<le> n"
  shows "slice_offsets n ks ! i = length (filter (\<lambda>k. k < i) ks)"
  using assms(2)
proof (induction i)
  case 0
  then show ?case
    using assms(1) by (simp add: slice_offsets_def running_sums_nth take_Suc_conv_app_nth slice_counts_nth)
next
  case (Suc i)
  let ?c = "slice_counts ks (replicate (Suc n) 0)"
  have "slice_offsets n ks ! Suc i = slice_offsets n ks ! i + ?c ! Suc i"
    using Suc.prems
    by (simp add: slice_offsets_def running_sums_nth take_Suc_conv_app_nth [of "Suc i"])
  moreover have "?c ! Suc i = length (filter (\<lambda>k. k = i) ks)"
    using assms(1) Suc.prems by (simp add: slice_counts_nth)
  ultimately show ?case using Suc by (simp add: filter_less_Suc)
qed

section \<open>Filling\<close>

abbreviation bucket :: "(nat \<times> nat) list \<Rightarrow> nat \<Rightarrow> (nat \<times> nat) list" where
  "bucket items k \<equiv> filter (\<lambda>x. fst x = k) items"

abbreviation below :: "(nat \<times> nat) list \<Rightarrow> nat \<Rightarrow> nat" where
  "below items k \<equiv> length (filter (\<lambda>x. fst x < k) items)"

lemma below_Suc: "below items (Suc k) = below items k + length (bucket items k)"
  by (induction items) auto

lemma below_mono: "k \<le> k' \<Longrightarrow> below items k \<le> below items k'"
  by (induction items) auto

lemma bucket_bound:
  assumes "k < n" and "j < length (bucket items k)"
  shows "below items k + j < below items n"
  using below_mono [of "Suc k" n, where items = items] assms below_Suc [where items = items and k = k] by simp

lemma bucket_apart:
  assumes "k \<noteq> k'" and "j < length (bucket items k)" and "j' < length (bucket items k')"
  shows "below items k + j \<noteq> below items k' + j'"
proof (cases "k < k'")
  case True
  then show ?thesis using bucket_bound [OF True assms(2)] by simp
next
  case False
  then have "k' < k" using assms(1) by simp
  then show ?thesis using bucket_bound [OF _ assms(3), of k] by simp
qed

lemma length_fill_slices [simp]: "length (fill_slices items nf indices) = length indices"
  by (induction items nf indices rule: fill_slices.induct) auto

lemma fill_slices_spec:
  assumes "\<forall>x \<in> set items. fst x < n" and "every = before @ items"
    and "length indices = below every n"
    and "n \<le> length nf" and "\<forall>k < n. nf ! k = below every k + length (bucket before k)"
    and "\<forall>k < n. \<forall>j < length (bucket before k). indices ! (below every k + j) = snd (bucket before k ! j)"
    and "k < n" and "j < length (bucket every k)"
  shows "fill_slices items nf indices ! (below every k + j) = snd (bucket every k ! j)"
  using assms
proof (induction items nf indices arbitrary: before rule: fill_slices.induct)
  case (1 nf indices)
  then show ?case by simp
next
  case (2 c item rest nf indices)
  let ?before = "before @ [(c, item)]" and ?p = "nf ! c"
  let ?indices = "indices[?p := item]" and ?nf = "nf[c := Suc ?p]"
  have c: "c < n" using 2 by simp
  have p: "?p = below every c + length (bucket before c)" using 2 c by simp
  have room: "length (bucket before c) < length (bucket every c)" using "2.prems"(2) by simp
  have bound: "?p < length indices" using bucket_bound [OF c room] p "2.prems"(3) by simp
  have written: "?indices ! (below every k + j) = snd (bucket ?before k ! j)"
    if k: "k < n" and j: "j < length (bucket ?before k)" for k j
  proof (cases "k = c \<and> j = length (bucket before c)")
    case True
    then show ?thesis using bound p by simp
  next
    case False
    then have old: "j < length (bucket before k)" using j by (auto split: if_splits)
    have "below every k + j \<noteq> ?p"
    proof (cases "k = c")
      case True
      then show ?thesis using p old by simp
    next
      case False
      moreover have "j < length (bucket every k)" using old "2.prems"(2) by simp
      ultimately show ?thesis using bucket_apart [OF _ _ room, of k j] p by simp
    qed
    then show ?thesis using "2.prems"(6) k old by (simp add: nth_append)
  qed
  show ?case
    unfolding fill_slices.simps
  proof (rule "2.IH" [where before = ?before])
    show "\<forall>k < n. ?nf ! k = below every k + length (bucket ?before k)"
      using "2.prems"(4,5) p by (auto simp: nth_list_update)
    show "\<forall>k < n. \<forall>j < length (bucket ?before k). ?indices ! (below every k + j) = snd (bucket ?before k ! j)"
      using written by blast
  qed (use 2 in simp_all)
qed

lemma filter_all_below: "\<forall>x \<in> set items. fst x < n \<Longrightarrow> below items n = length items"
  by (induction items) auto

theorem slices_spec:
  assumes "\<forall>x \<in> set items. fst x < n" and "slices n items = (offsets, indices)"
  shows "length offsets = Suc n" and "length indices = length items"
    and "i \<le> n \<Longrightarrow> offsets ! i = below items i"
    and "k < n \<Longrightarrow> key_slice offsets indices k = map snd (bucket items k)"
proof -
  have offsets: "offsets = slice_offsets n (map fst items)"
    and indices: "indices = fill_slices items offsets (replicate (length items) 0)"
    using assms(2) by (auto simp: slices_def Let_def)
  show len: "length offsets = Suc n" "length indices = length items"
    by (simp_all add: offsets indices)
  have "below items i = length (filter (\<lambda>k. k < i) (map fst items))" for i
    by (simp add: filter_map comp_def)
  then show off: "offsets ! i = below items i" if "i \<le> n" for i
    using assms(1) that unfolding offsets by (subst slice_offsets_nth) auto
  show "key_slice offsets indices k = map snd (bucket items k)" if k: "k < n"
  proof (rule nth_equalityI)
    have bound: "below items k + length (bucket items k) \<le> length items"
      using below_mono [of "Suc k" n, where items = items] k filter_all_below [OF assms(1)] below_Suc [where items = items and k = k] by simp
    then show "length (key_slice offsets indices k) = length (map snd (bucket items k))"
      using k by (simp add: key_slice_def off below_Suc len)
    fix j
    assume "j < length (key_slice offsets indices k)"
    then have j: "j < length (bucket items k)"
      using k by (simp add: key_slice_def off below_Suc len)
    have "indices ! (below items k + j) = snd (bucket items k ! j)"
      unfolding indices
      by (rule fill_slices_spec [where before = "[]" and n = n])
        (use assms(1) k j off len filter_all_below [OF assms(1)] in simp_all)
    then show "key_slice offsets indices k ! j = map snd (bucket items k) ! j"
      using k j bound by (simp add: key_slice_def off below_Suc len)
  qed
qed

end
