(* ===== verification/Dispatch_Walk.thy ===== *)
theory Dispatch_Walk
  imports Dispatch_Slices
begin

text \<open>
  The reference loop of the dispatch compiler does three independent things for every record:
  it binds device records to admitted phases, admits mandatory CPU records on one lane, and
  extends the release groups.  This theory separates them and characterises each: the device
  binding is a search per record, the admission succeeds exactly when some single-lane
  schedule exists, and the groups are the run-length encoding of the records.
\<close>

section \<open>The loop as three passes\<close>

fun admit_records ::
  "nat \<Rightarrow> reference_release list \<Rightarrow> rate_admission_record list \<times> u64 \<Rightarrow>
     rate_dispatch_diagnostic + rate_admission_record list \<times> u64" where
  "admit_records index [] st = Inr st"
| "admit_records index (r # rs) st = sum_bind (admit_record index r st) (admit_records (Suc index) rs)"

fun group_records ::
  "nat \<Rightarrow> reference_release list \<Rightarrow> rate_release_group list \<Rightarrow> rate_release_group list" where
  "group_records index [] groups = groups"
| "group_records index (r # rs) groups = group_records (Suc index) rs (extend_groups index r groups)"

definition device_phase_of :: "compiled_device_phase list \<Rightarrow> reference_release \<Rightarrow> nat option" where
  "device_phase_of phases r =
     (if rr_phase_kind r = kind_device then find_index (admitted_by (rr_phase r) (rr_domain r)) phases else None)"

definition record_ok :: "compiled_rate_plan \<Rightarrow> compiled_device_phase list \<Rightarrow> reference_release \<Rightarrow> bool" where
  "record_ok plan phases r \<longleftrightarrow>
     (rr_phase_kind r = kind_cpu \<or> rr_phase_kind r = kind_device) \<and>
     rr_relative_deadline_ns r \<noteq> 0 \<and>
     rr_domain_registration_index r < length (plan_domains plan) \<and>
     (rr_phase_kind r = kind_cpu \<longrightarrow> rr_budget_wcet_ns r \<noteq> 0) \<and>
     (rr_phase_kind r = kind_device \<longrightarrow> device_phase_of phases r \<noteq> None)"

definition walk_agrees ::
  "compiled_rate_plan \<Rightarrow> compiled_device_phase list \<Rightarrow> nat \<Rightarrow> reference_release list \<Rightarrow> dispatch_walk \<Rightarrow>
     dispatch_walk \<Rightarrow> bool" where
  "walk_agrees plan phases index rs w w' \<longleftrightarrow>
     list_all (record_ok plan phases) rs \<and>
     admit_records index rs (dw_admission w, dw_previous_finish w) =
       Inr (dw_admission w', dw_previous_finish w') \<and>
     dw_groups w' = group_records index rs (dw_groups w) \<and>
     dw_device_phase_by_reference w' =
       take index (dw_device_phase_by_reference w) @ map (device_phase_of phases) rs @
       drop (index + length rs) (dw_device_phase_by_reference w)"

lemma bind_device_record_eq:
  assumes "index < length by_reference" and "by_reference ! index = None"
  shows "bind_device_record phases index r by_reference =
    (if rr_phase_kind r = kind_device \<and> device_phase_of phases r = None
     then Inl (dispatch_error_at invalid_config
       ''active device reference has no admitted execution record'' index)
     else Inr (by_reference[index := device_phase_of phases r]))"
  using assms list_update_id [of by_reference index]
  by (simp add: bind_device_record_def device_phase_of_def split: option.splits)

lemma walk_record_Inr:
  assumes "index < length (dw_device_phase_by_reference w)" and "dw_device_phase_by_reference w ! index = None"
  shows "walk_record plan phases index r w = Inr w' \<longleftrightarrow>
    record_ok plan phases r \<and>
    admit_record index r (dw_admission w, dw_previous_finish w) = Inr (dw_admission w', dw_previous_finish w') \<and>
    dw_groups w' = extend_groups index r (dw_groups w) \<and>
    dw_device_phase_by_reference w' = (dw_device_phase_by_reference w)[index := device_phase_of phases r]"
proof -
  have "walk_record plan phases index r w = Inr w' \<longleftrightarrow>
      record_ok plan phases r \<and>
      (\<exists>a f. admit_record index r (dw_admission w, dw_previous_finish w) = Inr (a, f) \<and>
         w' = \<lparr>dw_device_phase_by_reference = (dw_device_phase_by_reference w)[index := device_phase_of phases r],
               dw_admission = a, dw_groups = extend_groups index r (dw_groups w), dw_previous_finish = f\<rparr>)"
    unfolding walk_record_def bind_device_record_eq [OF assms] record_ok_def record_unsupported_def
    by (auto simp: sum_bind_Inr)
  then show ?thesis by (cases w') auto
qed

lemma take_update_drop:
  "i < length xs \<Longrightarrow> take (Suc i) (xs[i := v]) = take i xs @ [v]"
  by (simp add: take_Suc_conv_app_nth)

lemma walk_records_Inr:
  assumes "index + length rs \<le> length (dw_device_phase_by_reference w)"
    and "\<forall>i. index \<le> i \<and> i < index + length rs \<longrightarrow> dw_device_phase_by_reference w ! i = None"
  shows "walk_records plan phases index rs w = Inr w' \<longleftrightarrow> walk_agrees plan phases index rs w w'"
  using assms
proof (induction rs arbitrary: index w)
  case Nil
  then show ?case by (cases w; cases w') (auto simp: walk_agrees_def)
next
  case (Cons r rs)
  let ?by = "dw_device_phase_by_reference w"
  have here: "index < length ?by" "?by ! index = None" using Cons.prems by auto
  have step: "walk_records plan phases (Suc index) rs w1 = Inr w' \<longleftrightarrow> walk_agrees plan phases (Suc index) rs w1 w'"
    if "dw_device_phase_by_reference w1 = ?by[index := v]" for w1 v
    using Cons.prems that by (intro Cons.IH) (auto simp: nth_list_update)
  have shift: "take (Suc index) (?by[index := v]) @ map (device_phase_of phases) rs @
        drop (Suc index + length rs) (?by[index := v]) =
      take index ?by @ v # map (device_phase_of phases) rs @ drop (index + length (r # rs)) ?by" for v
    using here by (simp add: take_update_drop drop_update_cancel)
  have "walk_records plan phases index (r # rs) w = Inr w' \<longleftrightarrow>
      (\<exists>w1. walk_record plan phases index r w = Inr w1 \<and> walk_agrees plan phases (Suc index) rs w1 w')"
    using step walk_record_Inr [OF here] by (auto simp: sum_bind_Inr)
  also have "\<dots> \<longleftrightarrow> walk_agrees plan phases index (r # rs) w w'"
  proof
    assume "\<exists>w1. walk_record plan phases index r w = Inr w1 \<and> walk_agrees plan phases (Suc index) rs w1 w'"
    then show "walk_agrees plan phases index (r # rs) w w'"
      unfolding walk_record_Inr [OF here] walk_agrees_def
      by (elim exE conjE) (simp add: shift take_update_drop [OF here(1)])
  next
    assume a: "walk_agrees plan phases index (r # rs) w w'"
    then obtain a f where st: "admit_record index r (dw_admission w, dw_previous_finish w) = Inr (a, f)"
      and rest: "admit_records (Suc index) rs (a, f) = Inr (dw_admission w', dw_previous_finish w')"
      by (auto simp: walk_agrees_def sum_bind_Inr)
    show "\<exists>w1. walk_record plan phases index r w = Inr w1 \<and> walk_agrees plan phases (Suc index) rs w1 w'"
      using a st rest unfolding walk_record_Inr [OF here] walk_agrees_def
      by (intro exI [of _ "\<lparr>dw_device_phase_by_reference = ?by[index := device_phase_of phases r],
          dw_admission = a, dw_groups = extend_groups index r (dw_groups w), dw_previous_finish = f\<rparr>"])
        (simp add: shift take_update_drop [OF here(1)])
  qed
  finally show ?case .
qed

lemma walk_from_empty:
  "walk_records plan phases 0 (plan_releases plan) (empty_walk plan) = Inr w \<longleftrightarrow>
     list_all (record_ok plan phases) (plan_releases plan) \<and>
     admit_records 0 (plan_releases plan) ([], 0) = Inr (dw_admission w, dw_previous_finish w) \<and>
     dw_groups w = group_records 0 (plan_releases plan) [] \<and>
     dw_device_phase_by_reference w = map (device_phase_of phases) (plan_releases plan)"
  by (subst walk_records_Inr) (simp_all add: empty_walk_def walk_agrees_def)

section \<open>Admission on one lane\<close>

abbreviation release_at :: "reference_release \<Rightarrow> nat" where
  "release_at r \<equiv> unat (rr_release_time_ns r)"

abbreviation budget_of :: "reference_release \<Rightarrow> nat" where
  "budget_of r \<equiv> unat (rr_budget_wcet_ns r)"

abbreviation deadline_at :: "reference_release \<Rightarrow> nat" where
  "deadline_at r \<equiv> unat (rr_deadline_time_ns r)"

definition mandatory :: "reference_release \<Rightarrow> bool" where
  "mandatory r \<longleftrightarrow> \<not> rr_optional r \<and> rr_phase_kind r = kind_cpu"

text \<open>
  A single-lane schedule gives every mandatory record a start at or after its release, so
  that it finishes by its deadline and by the horizon, and a later record starts only when
  every earlier one has finished.
\<close>

definition lane_schedule :: "nat \<Rightarrow> nat \<Rightarrow> reference_release list \<Rightarrow> (nat \<Rightarrow> nat) \<Rightarrow> bool" where
  "lane_schedule from_time horizon rs start \<longleftrightarrow>
     (\<forall>i < length rs. mandatory (rs ! i) \<longrightarrow>
        from_time \<le> start i \<and> release_at (rs ! i) \<le> start i \<and>
        start i + budget_of (rs ! i) \<le> deadline_at (rs ! i) \<and>
        start i + budget_of (rs ! i) \<le> horizon) \<and>
     (\<forall>j < length rs. \<forall>i < j. mandatory (rs ! i) \<and> mandatory (rs ! j) \<longrightarrow>
        start i + budget_of (rs ! i) \<le> start j)"

lemma admit_record_optional: "\<not> mandatory r \<Longrightarrow> admit_record index r st = Inr st"
  by (cases st) (auto simp: admit_record_def mandatory_def)

lemma admit_record_mandatory:
  assumes "mandatory r"
  shows "admit_record index r (admission, previous) = Inr (admission', finish) \<longleftrightarrow>
    unat finish = max (unat previous) (release_at r) + budget_of r \<and>
    unat finish \<le> deadline_at r \<and>
    admission' = admission @
      [\<lparr>ra_reference_index = index, ra_declared_start_ns = max previous (rr_release_time_ns r),
        ra_declared_finish_ns = finish, ra_deadline_ns = rr_deadline_time_ns r\<rparr>]"
proof -
  let ?start = "max previous (rr_release_time_ns r)"
  have start: "unat ?start = max (unat previous) (release_at r)"
    by (simp add: max_def word_le_nat_alt)
  have "admit_record index r (admission, previous) = Inr (admission', finish) \<longleftrightarrow>
      checked_add ?start (rr_budget_wcet_ns r) = Some finish \<and> \<not> finish > rr_deadline_time_ns r \<and>
      admission' = admission @
        [\<lparr>ra_reference_index = index, ra_declared_start_ns = ?start,
          ra_declared_finish_ns = finish, ra_deadline_ns = rr_deadline_time_ns r\<rparr>]"
    using assms by (auto simp: admit_record_def mandatory_def Let_def split: option.splits)
  moreover have "checked_add ?start (rr_budget_wcet_ns r) = Some finish \<longleftrightarrow>
      unat finish = max (unat previous) (release_at r) + budget_of r"
    using unat_u64_less [of finish] by (auto simp: checked_add_Some start)
  ultimately show ?thesis by (auto simp: word_less_nat_alt not_less)
qed

lemma lane_schedule_skip:
  "\<not> mandatory r \<Longrightarrow>
     lane_schedule from_time horizon (r # rs) start \<longleftrightarrow> lane_schedule from_time horizon rs (\<lambda>i. start (Suc i))"
  unfolding lane_schedule_def by (simp add: All_less_Suc2)

lemma lane_schedule_take:
  assumes "mandatory r"
  shows "lane_schedule from_time horizon (r # rs) start \<longleftrightarrow>
    from_time \<le> start 0 \<and> release_at r \<le> start 0 \<and> start 0 + budget_of r \<le> deadline_at r \<and>
    start 0 + budget_of r \<le> horizon \<and>
    lane_schedule (max from_time (start 0 + budget_of r)) horizon rs (\<lambda>i. start (Suc i))"
  using assms unfolding lane_schedule_def by (auto simp: All_less_Suc2)

lemma lane_schedule_earlier:
  "lane_schedule from_time horizon rs start \<Longrightarrow> from_time' \<le> from_time \<Longrightarrow>
     lane_schedule from_time' horizon rs start"
  unfolding lane_schedule_def by (meson order_trans)

lemma lane_schedule_later:
  "lane_schedule from_time horizon rs start \<Longrightarrow> horizon \<le> horizon' \<Longrightarrow>
     lane_schedule from_time horizon' rs start"
  unfolding lane_schedule_def by (meson order_trans)

lemma admit_records_complete:
  assumes "lane_schedule (unat previous) horizon rs start" and "unat previous \<le> horizon"
  shows "\<exists>admission' finish. admit_records index rs (admission, previous) = Inr (admission', finish) \<and>
    unat finish \<le> horizon"
  using assms
proof (induction rs arbitrary: index admission previous start)
  case Nil
  then show ?case by simp
next
  case (Cons r rs)
  show ?case
  proof (cases "mandatory r")
    case False
    then show ?thesis
      using Cons.IH [of previous "\<lambda>i. start (Suc i)"] Cons.prems
      by (simp add: admit_record_optional lane_schedule_skip)
  next
    case True
    let ?finish = "max (unat previous) (release_at r) + budget_of r"
    have s: "?finish \<le> start 0 + budget_of r" "start 0 + budget_of r \<le> deadline_at r"
        "start 0 + budget_of r \<le> horizon"
        "lane_schedule (max (unat previous) (start 0 + budget_of r)) horizon rs (\<lambda>i. start (Suc i))"
      using Cons.prems(1) unfolding lane_schedule_take [OF True] by auto
    define finish :: u64 where "finish = word_of_nat ?finish"
    have "?finish < 18446744073709551616"
      using s(1,2) unat_u64_less [of "rr_deadline_time_ns r"] by linarith
    then have f: "unat finish = ?finish" unfolding finish_def by (rule unat_of_nat_u64)
    obtain admission' where step: "admit_record index r (admission, previous) = Inr (admission', finish)"
      using admit_record_mandatory [OF True, of index admission previous _ finish] f s(1,2) by auto
    have "lane_schedule (unat finish) horizon rs (\<lambda>i. start (Suc i))"
      using s(1,4) f by (auto intro: lane_schedule_earlier)
    then show ?thesis
      using Cons.IH [of finish "\<lambda>i. start (Suc i)"] step s(1,3) f by simp
  qed
qed

text \<open>What the admission list says about the records it was made from.\<close>

definition admitted_within :: "nat \<Rightarrow> nat \<Rightarrow> reference_release \<Rightarrow> rate_admission_record \<Rightarrow> bool" where
  "admitted_within from_time to_time r a \<longleftrightarrow>
     from_time \<le> unat (ra_declared_start_ns a) \<and> release_at r \<le> unat (ra_declared_start_ns a) \<and>
     unat (ra_declared_finish_ns a) = unat (ra_declared_start_ns a) + budget_of r \<and>
     unat (ra_declared_finish_ns a) \<le> deadline_at r \<and> ra_deadline_ns a = rr_deadline_time_ns r \<and>
     unat (ra_declared_finish_ns a) \<le> to_time"

lemma admitted_within_earlier:
  "admitted_within from_time to_time r a \<Longrightarrow> from_time' \<le> from_time \<Longrightarrow> admitted_within from_time' to_time r a"
  by (auto simp: admitted_within_def)

definition lane_admission ::
  "nat \<Rightarrow> reference_release list \<Rightarrow> nat \<Rightarrow> rate_admission_record list \<Rightarrow> nat \<Rightarrow> bool" where
  "lane_admission index rs from_time admitted to_time \<longleftrightarrow>
     map ra_reference_index admitted = map fst (filter (\<lambda>x. mandatory (snd x)) (enumerate index rs)) \<and>
     (\<forall>a \<in> set admitted. admitted_within from_time to_time (rs ! (ra_reference_index a - index)) a) \<and>
     sorted_wrt (\<lambda>a b. ra_declared_finish_ns a \<le> ra_declared_start_ns b) admitted"

lemma lane_admission_index:
  "lane_admission index rs from_time admitted to_time \<Longrightarrow> a \<in> set admitted \<Longrightarrow>
     index \<le> ra_reference_index a"
proof -
  assume "lane_admission index rs from_time admitted to_time" and a: "a \<in> set admitted"
  then have "ra_reference_index a \<in> set (map fst (filter (\<lambda>x. mandatory (snd x)) (enumerate index rs)))"
    unfolding lane_admission_def by (metis image_eqI list.set_map)
  then show ?thesis by (auto simp: in_set_enumerate_eq)
qed

lemma lane_admission_skip:
  assumes "\<not> mandatory r" and "lane_admission (Suc index) rs from_time admitted to_time"
  shows "lane_admission index (r # rs) from_time admitted to_time"
proof -
  have "(r # rs) ! (ra_reference_index a - index) = rs ! (ra_reference_index a - Suc index)"
    if "a \<in> set admitted" for a
    using lane_admission_index [OF assms(2) that] by (simp add: Suc_diff_Suc nth_Cons')
  then show ?thesis using assms unfolding lane_admission_def by simp
qed

lemma lane_admission_take:
  assumes "mandatory r" and "lane_admission (Suc index) rs (unat finish) admitted to_time"
    and "a = \<lparr>ra_reference_index = index, ra_declared_start_ns = s,
      ra_declared_finish_ns = finish, ra_deadline_ns = rr_deadline_time_ns r\<rparr>"
    and "from_time \<le> unat s" and "release_at r \<le> unat s" and "unat finish = unat s + budget_of r"
    and "unat finish \<le> deadline_at r" and "unat finish \<le> to_time"
  shows "lane_admission index (r # rs) from_time (a # admitted) to_time"
proof -
  have shift: "(r # rs) ! (ra_reference_index b - index) = rs ! (ra_reference_index b - Suc index)"
    if "b \<in> set admitted" for b
    using lane_admission_index [OF assms(2) that] by (simp add: Suc_diff_Suc nth_Cons')
  have "\<forall>b \<in> set admitted. admitted_within from_time to_time ((r # rs) ! (ra_reference_index b - index)) b \<and>
      finish \<le> ra_declared_start_ns b"
  proof
    fix b
    assume b: "b \<in> set admitted"
    then have w: "admitted_within (unat finish) to_time (rs ! (ra_reference_index b - Suc index)) b"
      using assms(2) unfolding lane_admission_def by blast
    moreover have "finish \<le> ra_declared_start_ns b"
      using w by (simp add: admitted_within_def word_le_nat_alt)
    moreover have "from_time \<le> unat finish" using assms(4,6) by simp
    ultimately show "admitted_within from_time to_time ((r # rs) ! (ra_reference_index b - index)) b \<and>
        finish \<le> ra_declared_start_ns b"
      using shift [OF b] admitted_within_earlier by simp
  qed
  moreover have "admitted_within from_time to_time r a"
    using assms(4-8) unfolding assms(3) by (simp add: admitted_within_def)
  ultimately show ?thesis
    using assms(1,2) unfolding lane_admission_def assms(3) by simp
qed

lemma admit_records_sound:
  assumes "admit_records index rs (admission, previous) = Inr (admission', finish)"
  shows "unat previous \<le> unat finish \<and>
    (\<exists>admitted. admission' = admission @ admitted \<and>
       lane_admission index rs (unat previous) admitted (unat finish))"
  using assms
proof (induction rs arbitrary: index admission previous)
  case Nil
  then show ?case by (simp add: lane_admission_def)
next
  case (Cons r rs)
  show ?case
  proof (cases "mandatory r")
    case False
    then show ?thesis
      using Cons.IH [of "Suc index" admission previous] Cons.prems lane_admission_skip [OF False]
      by (auto simp: admit_record_optional)
  next
    case True
    obtain admission1 finish1 where step: "admit_record index r (admission, previous) = Inr (admission1, finish1)"
      and rest: "admit_records (Suc index) rs (admission1, finish1) = Inr (admission', finish)"
      using Cons.prems by (auto simp: sum_bind_Inr)
    note st = step [unfolded admit_record_mandatory [OF True]]
    obtain admitted where tl: "unat finish1 \<le> unat finish" "admission' = admission1 @ admitted"
      "lane_admission (Suc index) rs (unat finish1) admitted (unat finish)"
      using Cons.IH [OF rest] by blast
    have start: "unat (max previous (rr_release_time_ns r)) = max (unat previous) (release_at r)"
      by (simp add: max_def word_le_nat_alt)
    have "lane_admission index (r # rs) (unat previous)
        (\<lparr>ra_reference_index = index, ra_declared_start_ns = max previous (rr_release_time_ns r),
          ra_declared_finish_ns = finish1, ra_deadline_ns = rr_deadline_time_ns r\<rparr> # admitted) (unat finish)"
      using st tl(1) start by (intro lane_admission_take [OF True tl(3) refl]) simp_all
    moreover have "unat previous \<le> unat finish" using st tl(1) by simp
    ultimately show ?thesis using st tl(2) by simp
  qed
qed

lemma admit_records_schedule:
  assumes "admit_records index rs (admission, previous) = Inr (admission', finish)"
  shows "unat previous \<le> unat finish \<and> (\<exists>start. lane_schedule (unat previous) (unat finish) rs start)"
  using assms
proof (induction rs arbitrary: index admission previous)
  case Nil
  then show ?case by (simp add: lane_schedule_def)
next
  case (Cons r rs)
  show ?case
  proof (cases "mandatory r")
    case False
    then obtain start where "unat previous \<le> unat finish" "lane_schedule (unat previous) (unat finish) rs start"
      using Cons.IH [of "Suc index" admission previous] Cons.prems by (auto simp: admit_record_optional)
    then show ?thesis
      using lane_schedule_skip [OF False, of _ _ rs "\<lambda>i. start (i - 1)"] by auto
  next
    case True
    obtain admission1 finish1 where step: "admit_record index r (admission, previous) = Inr (admission1, finish1)"
      and rest: "admit_records (Suc index) rs (admission1, finish1) = Inr (admission', finish)"
      using Cons.prems by (auto simp: sum_bind_Inr)
    note st = step [unfolded admit_record_mandatory [OF True]]
    obtain start where tl: "unat finish1 \<le> unat finish" "lane_schedule (unat finish1) (unat finish) rs start"
      using Cons.IH [OF rest] by blast
    let ?start = "case_nat (max (unat previous) (release_at r)) start"
    have "max (unat previous) (unat finish1) = unat finish1" using st by simp
    then have "lane_schedule (unat previous) (unat finish) (r # rs) ?start"
      unfolding lane_schedule_take [OF True] using st tl by simp
    then show ?thesis using st tl(1) by auto
  qed
qed

lemma admission_iff:
  "(\<exists>admission finish. admit_records 0 rs ([], 0) = Inr (admission, finish) \<and> finish \<le> supercycle) \<longleftrightarrow>
     (\<exists>start. lane_schedule 0 (unat supercycle) rs start)"
proof
  assume "\<exists>admission finish. admit_records 0 rs ([], 0) = Inr (admission, finish) \<and> finish \<le> supercycle"
  then obtain admission finish where a: "admit_records 0 rs ([], 0) = Inr (admission, finish)"
    and f: "unat finish \<le> unat supercycle" by (auto simp: word_le_nat_alt)
  then obtain start where "lane_schedule 0 (unat finish) rs start"
    using admit_records_schedule [OF a] by auto
  then show "\<exists>start. lane_schedule 0 (unat supercycle) rs start"
    using f by (blast intro: lane_schedule_later)
next
  assume "\<exists>start. lane_schedule 0 (unat supercycle) rs start"
  then show "\<exists>admission finish. admit_records 0 rs ([], 0) = Inr (admission, finish) \<and> finish \<le> supercycle"
    using admit_records_complete [of 0 "unat supercycle" rs] by (auto simp: word_le_nat_alt)
qed

section \<open>Groups as a run-length encoding\<close>

abbreviation release_tag :: "reference_release \<Rightarrow> nat \<times> u64" where
  "release_tag r \<equiv> (rr_domain_registration_index r, rr_domain_release_sequence r)"

abbreviation group_tag :: "rate_release_group \<Rightarrow> nat \<times> u64" where
  "group_tag grp \<equiv> (rg_domain_registration_index grp, rg_domain_release_sequence grp)"

definition run_lengths :: "reference_release list \<Rightarrow> rate_release_group list \<Rightarrow> bool" where
  "run_lengths rs groups \<longleftrightarrow>
     concat (map (\<lambda>grp. replicate (rg_reference_count grp) (group_tag grp)) groups) = map release_tag rs \<and>
     distinct_adj (map group_tag groups) \<and>
     (\<forall>grp \<in> set groups. 0 < rg_reference_count grp) \<and>
     (\<forall>k < length groups.
        rg_first_reference_index (groups ! k) = sum_list (map rg_reference_count (take k groups)) \<and>
        rg_release_time_ns (groups ! k) = rr_release_time_ns (rs ! rg_first_reference_index (groups ! k)))"

lemma run_lengths_tags:
  "run_lengths rs groups \<Longrightarrow>
     concat (map (\<lambda>grp. replicate (rg_reference_count grp) (group_tag grp)) groups) = map release_tag rs"
  by (simp add: run_lengths_def)

lemma run_lengths_total: "run_lengths rs groups \<Longrightarrow> sum_list (map rg_reference_count groups) = length rs"
proof -
  assume "run_lengths rs groups"
  then have "length (concat (map (\<lambda>grp. replicate (rg_reference_count grp) (group_tag grp)) groups)) = length rs"
    by (simp add: run_lengths_def)
  then show ?thesis by (simp add: length_concat comp_def)
qed

lemma run_lengths_first_less:
  assumes "run_lengths rs groups" and "k < length groups"
  shows "rg_first_reference_index (groups ! k) + rg_reference_count (groups ! k) \<le> length rs"
proof -
  have "sum_list (map rg_reference_count (take (Suc k) groups)) \<le> sum_list (map rg_reference_count groups)"
    by (metis append_take_drop_id le_add1 map_append sum_list_append)
  then show ?thesis
    using assms run_lengths_total [OF assms(1)]
    by (simp add: run_lengths_def take_Suc_conv_app_nth)
qed

lemma run_lengths_first_in:
  assumes "run_lengths rs groups" and "k < length groups"
  shows "rg_first_reference_index (groups ! k) < length rs"
proof -
  have "groups ! k \<in> set groups" using assms(2) by simp
  then have "0 < rg_reference_count (groups ! k)" using assms(1) unfolding run_lengths_def by blast
  then show ?thesis using run_lengths_first_less [OF assms] by simp
qed

lemma run_lengths_starts:
  assumes "run_lengths rs groups" and "k < length groups"
  shows "rg_first_reference_index (groups ! k) = sum_list (map rg_reference_count (take k groups))"
    and "rg_release_time_ns (groups ! k) = rr_release_time_ns ((rs @ after) ! rg_first_reference_index (groups ! k))"
  using assms run_lengths_first_in [OF assms] by (auto simp: run_lengths_def nth_append)

lemma run_lengths_new_group:
  assumes "run_lengths rs groups" and "groups = [] \<or> group_tag (last groups) \<noteq> release_tag r"
    and "group_tag grp = release_tag r" and "rg_first_reference_index grp = length rs"
    and "rg_reference_count grp = 1" and "rg_release_time_ns grp = rr_release_time_ns r"
  shows "run_lengths (rs @ [r]) (groups @ [grp])"
  unfolding run_lengths_def
proof (intro conjI allI impI)
  show "concat (map (\<lambda>grp. replicate (rg_reference_count grp) (group_tag grp)) (groups @ [grp])) =
      map release_tag (rs @ [r])"
    using assms(1,3,5) by (simp add: run_lengths_def)
  show "distinct_adj (map group_tag (groups @ [grp]))"
    using assms(1,2,3) by (auto simp: run_lengths_def distinct_adj_append_iff last_map)
  show "\<forall>g \<in> set (groups @ [grp]). 0 < rg_reference_count g"
    using assms(1,5) by (simp add: run_lengths_def)
  fix k
  assume "k < length (groups @ [grp])"
  then consider "k < length groups" | "k = length groups" by fastforce
  then show "rg_first_reference_index ((groups @ [grp]) ! k) = sum_list (map rg_reference_count (take k (groups @ [grp])))"
  proof cases
    case 1
    then show ?thesis using run_lengths_starts(1) [OF assms(1) 1] by (simp add: nth_append)
  next
    case 2
    then show ?thesis using assms(4) run_lengths_total [OF assms(1)] by simp
  qed
  show "rg_release_time_ns ((groups @ [grp]) ! k) = rr_release_time_ns ((rs @ [r]) ! rg_first_reference_index ((groups @ [grp]) ! k))"
    using \<open>k < length (groups @ [grp])\<close> run_lengths_starts(2) [OF assms(1), of k "[r]"] assms(4,6)
    by (cases "k < length groups") (simp_all add: nth_append [of groups] less_Suc_eq)
qed

lemma run_lengths_longer_group:
  assumes "run_lengths rs (front @ [grp])" and "group_tag grp = release_tag r"
  shows "run_lengths (rs @ [r]) (front @ [grp\<lparr>rg_reference_count := Suc (rg_reference_count grp)\<rparr>])"
    (is "run_lengths _ (front @ [?grp])")
  unfolding run_lengths_def
proof (intro conjI allI impI)
  have "replicate (Suc n) x = replicate n x @ [x]" for n and x :: "nat \<times> u64"
    by (simp add: replicate_append_same)
  then show "concat (map (\<lambda>grp. replicate (rg_reference_count grp) (group_tag grp)) (front @ [?grp])) =
      map release_tag (rs @ [r])"
    using assms by (simp add: run_lengths_def del: replicate_Suc)
  show "distinct_adj (map group_tag (front @ [?grp]))"
    using assms(1) by (simp add: run_lengths_def)
  show "\<forall>g \<in> set (front @ [?grp]). 0 < rg_reference_count g"
    using assms(1) by (simp add: run_lengths_def)
  fix k
  assume "k < length (front @ [?grp])"
  then consider "k < length front" | "k = length front" by fastforce
  then have same: "rg_first_reference_index ((front @ [?grp]) ! k) = rg_first_reference_index ((front @ [grp]) ! k)"
    "rg_release_time_ns ((front @ [?grp]) ! k) = rg_release_time_ns ((front @ [grp]) ! k)"
    "take k (front @ [?grp]) = take k (front @ [grp])"
    by (cases; simp add: nth_append)+
  show "rg_first_reference_index ((front @ [?grp]) ! k) = sum_list (map rg_reference_count (take k (front @ [?grp])))"
    unfolding same by (rule run_lengths_starts(1) [OF assms(1)]) (use \<open>k < length (front @ [?grp])\<close> in simp)
  show "rg_release_time_ns ((front @ [?grp]) ! k) = rr_release_time_ns ((rs @ [r]) ! rg_first_reference_index ((front @ [?grp]) ! k))"
    unfolding same by (rule run_lengths_starts(2) [OF assms(1)]) (use \<open>k < length (front @ [?grp])\<close> in simp)
qed

lemma extend_groups_spec:
  assumes "run_lengths rs groups" and "index = length rs"
  shows "run_lengths (rs @ [r]) (extend_groups index r groups)"
proof (cases "groups = [] \<or> group_tag (last groups) \<noteq> release_tag r")
  case True
  then show ?thesis
    using run_lengths_new_group [OF assms(1) True] assms(2) by (auto simp: extend_groups_def)
next
  case False
  then obtain front grp where g: "groups = front @ [grp]" by (metis rev_exhaust)
  have tag: "group_tag grp = release_tag r" using False g by simp
  then show ?thesis
    using run_lengths_longer_group [OF assms(1) [unfolded g] tag] g by (simp add: extend_groups_def)
qed

lemma group_records_spec:
  assumes "run_lengths before groups"
  shows "run_lengths (before @ rs) (group_records (length before) rs groups)"
  using assms
proof (induction rs arbitrary: before groups)
  case Nil
  then show ?case by simp
next
  case (Cons r rs)
  show ?case using Cons.IH [OF extend_groups_spec [OF Cons.prems refl, of r]] by simp
qed

lemma groups_run_lengths: "run_lengths rs (group_records 0 rs [])"
  using group_records_spec [of "[]" "[]" rs] by (simp add: run_lengths_def)

end
