(* ===== verification/Dispatch_Groups.thy ===== *)
theory Dispatch_Groups
  imports Dispatch_Walk
begin

text \<open>
  What the dispatch compiler derives from the release groups: one record count per domain, and
  for every reference record the slice of device records of its own group that it must wait for.
\<close>

section \<open>Records per domain release\<close>

lemma count_group_records_sound:
  assumes "count_group_records groups records = Inr records'"
    and "\<forall>grp \<in> set groups. 0 < rg_reference_count grp \<and> rg_domain_registration_index grp < length records"
  shows "length records' = length records \<and>
    (\<forall>grp \<in> set groups. records' ! rg_domain_registration_index grp = rg_reference_count grp) \<and>
    (\<forall>d < length records. records ! d \<noteq> 0 \<longrightarrow> records' ! d = records ! d) \<and>
    (\<forall>d < length records. d \<notin> rg_domain_registration_index ` set groups \<longrightarrow> records' ! d = records ! d)"
  using assms
proof (induction groups records rule: count_group_records.induct)
  case (1 records)
  then show ?case by simp
next
  case (2 grp groups records)
  let ?d = "rg_domain_registration_index grp"
  show ?case
  proof (cases "records ! ?d = 0")
    case True
    have IH: "length records' = length records \<and>
      (\<forall>g \<in> set groups. records' ! rg_domain_registration_index g = rg_reference_count g) \<and>
      (\<forall>d < length records. records[?d := rg_reference_count grp] ! d \<noteq> 0 \<longrightarrow>
         records' ! d = records[?d := rg_reference_count grp] ! d) \<and>
      (\<forall>d < length records. d \<notin> rg_domain_registration_index ` set groups \<longrightarrow>
         records' ! d = records[?d := rg_reference_count grp] ! d)"
      using "2.IH"(1) [OF refl True] "2.prems" True by simp
    then have "records' ! ?d = rg_reference_count grp" using "2.prems"(2) by simp
    moreover have "records' ! d = records ! d" if "d < length records" "records ! d \<noteq> 0" for d
      using IH True that by (metis nth_list_update_neq)
    moreover have "records' ! d = records ! d"
      if "d < length records" "d \<notin> rg_domain_registration_index ` set (grp # groups)" for d
      using IH that by simp
    ultimately show ?thesis using IH by simp
  next
    case False
    then have same: "records ! ?d = rg_reference_count grp"
      and rest: "count_group_records groups records = Inr records'"
      using "2.prems"(1) by (auto simp: Let_def split: if_splits)
    then show ?thesis using "2.IH"(2) [OF refl False _ rest] "2.prems"(2) False by auto
  qed
qed

definition counts_agree :: "rate_release_group list \<Rightarrow> bool" where
  "counts_agree groups \<longleftrightarrow>
     (\<forall>grp \<in> set groups. \<forall>grp' \<in> set groups.
        rg_domain_registration_index grp = rg_domain_registration_index grp' \<longrightarrow>
        rg_reference_count grp = rg_reference_count grp')"

lemma counts_agreeD:
  "counts_agree groups \<Longrightarrow> grp \<in> set groups \<Longrightarrow> grp' \<in> set groups \<Longrightarrow>
     rg_domain_registration_index grp = rg_domain_registration_index grp' \<Longrightarrow>
     rg_reference_count grp = rg_reference_count grp'"
  unfolding counts_agree_def by blast

lemma counts_agree_tl: "counts_agree (grp # groups) \<Longrightarrow> counts_agree groups"
  unfolding counts_agree_def by (meson list.set_intros(2))

lemma count_group_records_complete:
  assumes "counts_agree groups"
    and "\<forall>grp \<in> set groups. rg_domain_registration_index grp < length records \<and>
      (records ! rg_domain_registration_index grp = 0 \<or>
       records ! rg_domain_registration_index grp = rg_reference_count grp)"
  shows "\<exists>records'. count_group_records groups records = Inr records'"
  using assms
proof (induction groups records rule: count_group_records.induct)
  case (1 records)
  then show ?case by simp
next
  case (2 grp groups records)
  let ?d = "rg_domain_registration_index grp"
  note agree = counts_agree_tl [OF "2.prems"(1)]
  show ?case
  proof (cases "records ! ?d = 0")
    case True
    have "\<exists>records'. count_group_records groups (records[?d := rg_reference_count grp]) = Inr records'"
    proof (rule "2.IH"(1) [OF refl True agree], rule ballI)
      fix g
      assume g: "g \<in> set groups"
      have "rg_domain_registration_index g = ?d \<Longrightarrow> rg_reference_count grp = rg_reference_count g"
        using counts_agreeD [OF "2.prems"(1), of grp g] g by simp
      then show "rg_domain_registration_index g < length (records[?d := rg_reference_count grp]) \<and>
          (records[?d := rg_reference_count grp] ! rg_domain_registration_index g = 0 \<or>
           records[?d := rg_reference_count grp] ! rg_domain_registration_index g = rg_reference_count g)"
        using "2.prems"(2) g by (simp add: nth_list_update)
    qed
    then show ?thesis using True by simp
  next
    case False
    then have same: "records ! ?d = rg_reference_count grp" using "2.prems"(2) by simp
    have "\<exists>records'. count_group_records groups records = Inr records'"
      using "2.IH"(2) [OF refl False _ agree] same "2.prems"(2) by simp
    then show ?thesis using False same by simp
  qed
qed

lemma count_group_records_iff:
  assumes "\<forall>grp \<in> set groups. 0 < rg_reference_count grp \<and> rg_domain_registration_index grp < n"
  shows "(\<exists>records. count_group_records groups (replicate n 0) = Inr records) \<longleftrightarrow> counts_agree groups"
proof
  assume "\<exists>records. count_group_records groups (replicate n 0) = Inr records"
  then obtain records where r: "count_group_records groups (replicate n 0) = Inr records" by blast
  have "\<forall>grp \<in> set groups. records ! rg_domain_registration_index grp = rg_reference_count grp"
    using count_group_records_sound [OF r] assms by simp
  then show "counts_agree groups" unfolding counts_agree_def by (metis (no_types))
next
  assume "counts_agree groups"
  then show "\<exists>records. count_group_records groups (replicate n 0) = Inr records"
    using assms by (intro count_group_records_complete) auto
qed

section \<open>Device prerequisites\<close>

definition prerequisites_of ::
  "graph_dependency list \<Rightarrow> reference_release list \<Rightarrow> nat option list \<Rightarrow> nat \<Rightarrow> nat \<Rightarrow> nat list" where
  "prerequisites_of dependencies releases by_reference first_index i =
     List.map_filter (device_prerequisite releases by_reference first_index i) dependencies"

abbreviation device_records_in :: "nat option list \<Rightarrow> nat \<Rightarrow> nat \<Rightarrow> nat" where
  "device_records_in by_reference m c \<equiv> length (filter (\<lambda>i. by_reference ! i \<noteq> None) [m..<m + c])"

definition group_device_records :: "nat option list \<Rightarrow> rate_release_group \<Rightarrow> nat" where
  "group_device_records by_reference grp =
     device_records_in by_reference (rg_first_reference_index grp) (rg_reference_count grp)"

lemma key_slice_append:
  "offsets ! Suc i \<le> length found \<Longrightarrow> key_slice offsets (found @ added) i = key_slice offsets found i"
  by (simp add: key_slice_def)

lemma device_group_fold:
  assumes "m + c < length offsets" and "offsets ! m = length found"
    and "w = fold (device_record_step dependencies releases by_reference first_index) [m..<m + c]
      \<lparr>dd_offsets = offsets, dd_dependencies = found, dd_device_records = 0\<rparr>"
  shows "length (dd_offsets w) = length offsets \<and>
    (\<forall>k \<le> m. dd_offsets w ! k = offsets ! k) \<and>
    (\<exists>added. dd_dependencies w = found @ added) \<and>
    dd_offsets w ! (m + c) = length (dd_dependencies w) \<and>
    (\<forall>i. m \<le> i \<and> i < m + c \<longrightarrow> dd_offsets w ! Suc i \<le> length (dd_dependencies w) \<and>
       key_slice (dd_offsets w) (dd_dependencies w) i = prerequisites_of dependencies releases by_reference first_index i) \<and>
    dd_device_records w = device_records_in by_reference m c"
  using assms
proof (induction c arbitrary: w)
  case 0
  then show ?case by auto
next
  case (Suc c)
  define v where "v = fold (device_record_step dependencies releases by_reference first_index) [m..<m + c]
      \<lparr>dd_offsets = offsets, dd_dependencies = found, dd_device_records = 0\<rparr>"
  let ?new = "prerequisites_of dependencies releases by_reference first_index (m + c)"
  have IH: "length (dd_offsets v) = length offsets" "\<forall>k \<le> m. dd_offsets v ! k = offsets ! k"
      "\<exists>added. dd_dependencies v = found @ added" "dd_offsets v ! (m + c) = length (dd_dependencies v)"
      "\<forall>i. m \<le> i \<and> i < m + c \<longrightarrow> dd_offsets v ! Suc i \<le> length (dd_dependencies v) \<and>
         key_slice (dd_offsets v) (dd_dependencies v) i = prerequisites_of dependencies releases by_reference first_index i"
      "dd_device_records v = device_records_in by_reference m c"
    using Suc.IH [OF _ Suc.prems(2) v_def] Suc.prems(1) by simp_all
  have w: "dd_offsets w = (dd_offsets v)[Suc (m + c) := length (dd_dependencies v) + length ?new]"
      "dd_dependencies w = dd_dependencies v @ ?new"
      "dd_device_records w = device_records_in by_reference m (Suc c)"
    using IH(6) unfolding Suc.prems(3)
    by (simp_all add: v_def [symmetric] device_record_step_def prerequisites_of_def Let_def)
  have keep: "dd_offsets w ! k = dd_offsets v ! k" if "k \<le> m + c" for k
    using that by (simp add: w)
  have at_end: "dd_offsets w ! Suc (m + c) = length (dd_dependencies w)"
    using Suc.prems(1) IH(1) by (simp add: w)
  have slices: "dd_offsets w ! Suc i \<le> length (dd_dependencies w) \<and>
      key_slice (dd_offsets w) (dd_dependencies w) i = prerequisites_of dependencies releases by_reference first_index i"
    if i: "m \<le> i" "i < m + Suc c" for i
  proof (cases "i = m + c")
    case True
    then show ?thesis using at_end keep [of "m + c"] IH(4) by (simp add: key_slice_def w(2))
  next
    case False
    then have "i < m + c" using i by simp
    then have old: "dd_offsets v ! Suc i \<le> length (dd_dependencies v)"
        "key_slice (dd_offsets v) (dd_dependencies v) i = prerequisites_of dependencies releases by_reference first_index i"
      using IH(5) i by blast+
    have "key_slice (dd_offsets w) (dd_dependencies w) i = key_slice (dd_offsets v) (dd_dependencies v @ ?new) i"
      using keep [of i] keep [of "Suc i"] \<open>i < m + c\<close> by (simp add: key_slice_def w(2))
    then show ?thesis using old keep [of "Suc i"] \<open>i < m + c\<close> key_slice_append [OF old(1)] by (simp add: w(2))
  qed
  show ?case
    using IH(1,2,3) keep at_end slices w(3) by (auto simp: w(1,2))
qed

primrec consecutive :: "nat \<Rightarrow> rate_release_group list \<Rightarrow> bool" where
  "consecutive m [] = True"
| "consecutive m (grp # groups) \<longleftrightarrow>
     rg_first_reference_index grp = m \<and> consecutive (m + rg_reference_count grp) groups"

lemma consecutiveI:
  assumes "\<forall>k < length groups.
    rg_first_reference_index (groups ! k) = m + sum_list (map rg_reference_count (take k groups))"
  shows "consecutive m groups"
  using assms
proof (induction groups arbitrary: m)
  case Nil
  then show ?case by simp
next
  case (Cons grp groups)
  have "rg_first_reference_index (groups ! k) =
      m + rg_reference_count grp + sum_list (map rg_reference_count (take k groups))"
    if "k < length groups" for k
    using Cons.prems [rule_format, of "Suc k"] that by simp
  then show ?case using Cons.IH Cons.prems by auto
qed

lemma run_lengths_consecutive: "run_lengths rs groups \<Longrightarrow> consecutive 0 groups"
  by (rule consecutiveI) (simp add: run_lengths_def)

definition dependency_slices_ok ::
  "graph_dependency list \<Rightarrow> reference_release list \<Rightarrow> nat option list \<Rightarrow> rate_release_group list \<Rightarrow>
     nat list \<Rightarrow> nat list \<Rightarrow> bool" where
  "dependency_slices_ok dependencies releases by_reference groups offsets found \<longleftrightarrow>
     (\<forall>grp \<in> set groups. \<forall>i. rg_first_reference_index grp \<le> i \<and>
        i < rg_first_reference_index grp + rg_reference_count grp \<longrightarrow>
        key_slice offsets found i =
          prerequisites_of dependencies releases by_reference (rg_first_reference_index grp) i)"

lemma Max_insert_max:
  "finite A \<Longrightarrow> Max (insert (max a b) A) = Max (insert a (insert b A))" for a b :: nat
  by (cases "A = {}") (simp_all add: max.assoc)

lemma device_group_walk_spec:
  assumes "consecutive m groups" and "m + sum_list (map rg_reference_count groups) < length offsets"
    and "offsets ! m = length found"
    and "device_group_walk dependencies releases by_reference groups (offsets, found, maximum) =
      (offsets', found', maximum')"
  shows "length offsets' = length offsets \<and> (\<forall>k \<le> m. offsets' ! k = offsets ! k) \<and>
    (\<exists>added. found' = found @ added) \<and>
    dependency_slices_ok dependencies releases by_reference groups offsets' found' \<and>
    maximum' = Max (insert maximum (group_device_records by_reference ` set groups))"
  using assms
proof (induction groups arbitrary: m offsets found maximum)
  case Nil
  then show ?case by (simp add: dependency_slices_ok_def)
next
  case (Cons grp groups)
  let ?c = "rg_reference_count grp"
  define w where "w = fold (device_record_step dependencies releases by_reference m) [m..<m + ?c]
      \<lparr>dd_offsets = offsets, dd_dependencies = found, dd_device_records = 0\<rparr>"
  have first_index: "rg_first_reference_index grp = m" and cons: "consecutive (m + ?c) groups"
    using Cons.prems(1) by simp_all
  have room: "m + ?c < length offsets" using Cons.prems(2) by simp
  note g = device_group_fold [OF room Cons.prems(3) w_def]
  have rest: "device_group_walk dependencies releases by_reference groups
      (dd_offsets w, dd_dependencies w, max maximum (dd_device_records w)) = (offsets', found', maximum')"
    using Cons.prems(4) first_index by (simp add: w_def [symmetric] Let_def)
  have IH: "length offsets' = length (dd_offsets w) \<and> (\<forall>k \<le> m + ?c. offsets' ! k = dd_offsets w ! k) \<and>
      (\<exists>added. found' = dd_dependencies w @ added) \<and>
      dependency_slices_ok dependencies releases by_reference groups offsets' found' \<and>
      maximum' = Max (insert (max maximum (dd_device_records w))
        (group_device_records by_reference ` set groups))"
    by (rule Cons.IH [OF cons _ _ rest]) (use Cons.prems(2) g in simp_all)
  have counted: "dd_device_records w = group_device_records by_reference grp"
    unfolding group_device_records_def first_index using g by blast
  have "key_slice offsets' found' i = prerequisites_of dependencies releases by_reference m i"
    if i: "m \<le> i" "i < m + ?c" for i
  proof -
    have old: "dd_offsets w ! Suc i \<le> length (dd_dependencies w)"
        "key_slice (dd_offsets w) (dd_dependencies w) i = prerequisites_of dependencies releases by_reference m i"
      using g i by blast+
    obtain added where f: "found' = dd_dependencies w @ added" using IH by blast
    have "key_slice offsets' found' i = key_slice (dd_offsets w) found' i"
      using IH i by (simp add: key_slice_def)
    then show ?thesis using old key_slice_append [OF old(1)] f by simp
  qed
  then have "dependency_slices_ok dependencies releases by_reference (grp # groups) offsets' found'"
    using IH first_index unfolding dependency_slices_ok_def by simp
  moreover have "maximum' = Max (insert maximum (group_device_records by_reference ` set (grp # groups)))"
    using IH Max_insert_max [of "group_device_records by_reference ` set groups" maximum "dd_device_records w"]
    unfolding counted by simp
  moreover have "\<forall>k \<le> m. offsets' ! k = offsets ! k" using IH g by simp
  moreover have "\<exists>added. found' = found @ added" using IH g by (metis append.assoc)
  moreover have "length offsets' = length offsets" using IH g by simp
  ultimately show ?case by blast
qed

end
