(* ===== verification/Dispatch_Validation.thy ===== *)
theory Dispatch_Validation
  imports Dispatch_Groups
begin

text \<open>
  The conditions under which the dispatch compiler accepts its inputs, stated without the loops
  and arrays that check them.
\<close>

section \<open>Marked domains\<close>

definition cpu_domain :: "compiled_rate_plan \<Rightarrow> nat \<Rightarrow> bool" where
  "cpu_domain plan i \<longleftrightarrow>
     (\<exists>b \<in> set (plan_bindings plan). cb_phase_kind b = kind_cpu \<and> rate_domain_valid (cb_domain b) \<and>
        rate_domain_number (cb_domain b) = i)"

lemma length_mark_cpu_domains [simp]: "length (mark_cpu_domains n bs marks) = length marks"
  by (induction n bs marks rule: mark_cpu_domains.induct) auto

lemma mark_cpu_domains_nth:
  assumes "n \<le> length marks" and "i < n"
  shows "mark_cpu_domains n bs marks ! i \<longleftrightarrow>
    marks ! i \<or> (\<exists>b \<in> set bs. cb_phase_kind b = kind_cpu \<and> rate_domain_valid (cb_domain b) \<and>
      rate_domain_number (cb_domain b) = i)"
  using assms
  by (induction n bs marks rule: mark_cpu_domains.induct) (auto simp: nth_list_update)

definition channel_ok :: "u32 \<Rightarrow> compiled_rate_plan \<Rightarrow> cross_rate_channel_spec \<Rightarrow> bool" where
  "channel_ok graph_owner plan c \<longleftrightarrow>
     \<not> endpoint_rejected graph_owner plan (ch_producer c) \<and>
     \<not> endpoint_rejected graph_owner plan (ch_consumer c) \<and>
     (\<exists>i j. endpoint_domain plan (ch_producer c) = Some i \<and> endpoint_domain plan (ch_consumer c) = Some j \<and>
        \<not> cd_optional (plan_domains plan ! i) \<and> \<not> cd_optional (plan_domains plan ! j))"

definition producing_domain :: "compiled_rate_plan \<Rightarrow> cross_rate_channel_spec list \<Rightarrow> nat \<Rightarrow> bool" where
  "producing_domain plan channels i \<longleftrightarrow>
     (\<exists>c \<in> set channels. endpoint_domain plan (ch_producer c) = Some i)"

lemma endpoint_domain_less: "endpoint_domain plan p = Some i \<Longrightarrow> i < length (plan_domains plan)"
  by (auto simp: endpoint_domain_def split: option.splits if_splits)

lemma check_channels_Cons:
  "check_channels graph_owner plan (c # cs) marks = Inr marks' \<longleftrightarrow>
     channel_ok graph_owner plan c \<and>
     check_channels graph_owner plan cs (marks[the (endpoint_domain plan (ch_producer c)) := True]) = Inr marks'"
  by (auto simp: channel_ok_def split: option.splits)

lemma check_channels_Inr:
  assumes "length (plan_domains plan) \<le> length marks"
  shows "(\<exists>marks'. check_channels graph_owner plan cs marks = Inr marks') \<longleftrightarrow>
      list_all (channel_ok graph_owner plan) cs"
    and "check_channels graph_owner plan cs marks = Inr marks' \<Longrightarrow> i < length (plan_domains plan) \<Longrightarrow>
      marks' ! i \<longleftrightarrow> marks ! i \<or> producing_domain plan cs i"
  using assms
proof (induction cs arbitrary: marks)
  case Nil
  {
    case 1
    then show ?case by simp
  next
    case 2
    then show ?case by (simp add: producing_domain_def)
  }
next
  case (Cons c cs)
  {
    case (1 marks)
    let ?marks = "marks[the (endpoint_domain plan (ch_producer c)) := True]"
    from 1 have "length (plan_domains plan) \<le> length ?marks" by simp
    from Cons.IH(1) [OF this] show ?case unfolding check_channels_Cons by simp
  next
    case (2 marks)
    let ?marks = "marks[the (endpoint_domain plan (ch_producer c)) := True]"
    from 2 have c: "channel_ok graph_owner plan c" and cs: "check_channels graph_owner plan cs ?marks = Inr marks'"
      unfolding check_channels_Cons by simp_all
    obtain d where d: "endpoint_domain plan (ch_producer c) = Some d" using c by (auto simp: channel_ok_def)
    show ?case
      using Cons.IH(2) [OF cs 2(2)] 2(2,3) d endpoint_domain_less [OF d]
      by (auto simp: producing_domain_def nth_list_update)
  }
qed

section \<open>The domain of a phase\<close>

definition phase_domain :: "compiled_rate_plan \<Rightarrow> nat \<Rightarrow> nat option" where
  "phase_domain plan p =
     map_option (\<lambda>b. rate_domain_number (cb_domain b))
       (find (\<lambda>b. phase_number (cb_phase b) = p) (rev (plan_bindings plan)))"

lemma find_append: "find P (xs @ ys) = (case find P xs of None \<Rightarrow> find P ys | Some x \<Rightarrow> Some x)"
  by (induction xs) auto

lemma domains_by_phase_Inr:
  "domains_by_phase graph_owner m bs table = Inr table' \<longleftrightarrow>
     list_all (\<lambda>b. \<not> active_binding_rejected graph_owner (length table) m b) bs \<and>
     length table' = length table \<and>
     (\<forall>p < length table. table' ! p =
        (case find (\<lambda>b. phase_number (cb_phase b) = p) (rev bs) of
           None \<Rightarrow> table ! p | Some b \<Rightarrow> Some (rate_domain_number (cb_domain b))))"
proof (induction bs arbitrary: table)
  case Nil
  then show ?case by (auto intro: nth_equalityI)
next
  case (Cons b bs)
  let ?table = "table[phase_number (cb_phase b) := Some (rate_domain_number (cb_domain b))]"
  have entry: "(case find (\<lambda>b. phase_number (cb_phase b) = p) (rev bs) of
      None \<Rightarrow> ?table ! p | Some b \<Rightarrow> Some (rate_domain_number (cb_domain b))) =
    (case find (\<lambda>b. phase_number (cb_phase b) = p) (rev (b # bs)) of
      None \<Rightarrow> table ! p | Some b \<Rightarrow> Some (rate_domain_number (cb_domain b)))"
    if "p < length table" for p
    using that by (simp add: find_append nth_list_update split: option.splits)
  show ?case
  proof (cases "active_binding_rejected graph_owner (length table) m b")
    case True
    then show ?thesis by simp
  next
    case False
    then have "domains_by_phase graph_owner m (b # bs) table = domains_by_phase graph_owner m bs ?table"
      by simp
    then show ?thesis using Cons.IH [of ?table] entry False by simp
  qed
qed

section \<open>Acceptance\<close>

definition dependency_local :: "compiled_rate_plan \<Rightarrow> graph_dependency \<Rightarrow> bool" where
  "dependency_local plan d \<longleftrightarrow>
     phase_valid (prerequisite d) \<and> phase_valid (dependent d) \<and>
     phase_number (prerequisite d) < length (plan_bindings plan) \<and>
     phase_number (dependent d) < length (plan_bindings plan) \<and>
     phase_domain plan (phase_number (prerequisite d)) = phase_domain plan (phase_number (dependent d))"

definition dispatch_valid ::
  "u32 \<Rightarrow> graph_dependency list \<Rightarrow> compiled_rate_plan \<Rightarrow> cross_rate_channel_spec list \<Rightarrow>
     compiled_device_rate_plan option \<Rightarrow> bool" where
  "dispatch_valid graph_owner dependencies plan channels device_plan \<longleftrightarrow>
     list_all (channel_ok graph_owner plan) channels \<and>
     (\<forall>i < length (plan_domains plan).
        \<not> active_domain_rejected (cpu_domain plan i) (producing_domain plan channels i) (plan_domains plan ! i)) \<and>
     list_all (\<lambda>b. \<not> device_binding_rejected (device_phases device_plan) b) (plan_bindings plan) \<and>
     list_all (\<lambda>b. \<not> active_binding_rejected graph_owner (length (plan_bindings plan))
       (length (plan_domains plan)) b) (plan_bindings plan) \<and>
     list_all (dependency_local plan) dependencies"

lemma list_ex_enumerate: "list_ex P (enumerate 0 xs) \<longleftrightarrow> (\<exists>i < length xs. P (i, xs ! i))"
  by (force simp: list_ex_iff in_set_enumerate_eq)

lemma domains_checked:
  assumes "length (plan_domains plan) \<le> rate_domain_capacity"
    and "check_channels graph_owner plan channels (replicate rate_domain_capacity False) = Inr marks"
  shows "list_ex (\<lambda>(index, d). active_domain_rejected
        (mark_cpu_domains (length (plan_domains plan)) (plan_bindings plan) (replicate rate_domain_capacity False) ! index)
        (marks ! index) d) (enumerate 0 (plan_domains plan)) \<longleftrightarrow>
    (\<exists>i < length (plan_domains plan).
       active_domain_rejected (cpu_domain plan i) (producing_domain plan channels i) (plan_domains plan ! i))"
proof -
  let ?cpu = "mark_cpu_domains (length (plan_domains plan)) (plan_bindings plan) (replicate rate_domain_capacity False)"
  have "?cpu ! i \<longleftrightarrow> cpu_domain plan i" and "marks ! i \<longleftrightarrow> producing_domain plan channels i"
    if "i < length (plan_domains plan)" for i
    using that assms mark_cpu_domains_nth [of "length (plan_domains plan)" "replicate rate_domain_capacity False" i]
      check_channels_Inr(2) [OF _ assms(2) that]
    by (simp_all add: cpu_domain_def)
  then show ?thesis by (auto simp: list_ex_enumerate)
qed

lemma dependencies_checked:
  assumes "domains_by_phase graph_owner m (plan_bindings plan) (replicate (length (plan_bindings plan)) None) = Inr table"
  shows "list_ex (active_dependency_rejected table) dependencies \<longleftrightarrow> \<not> list_all (dependency_local plan) dependencies"
proof -
  have table: "length table = length (plan_bindings plan)"
    "p < length (plan_bindings plan) \<Longrightarrow> table ! p = phase_domain plan p" for p
    using assms by (simp_all add: domains_by_phase_Inr phase_domain_def split: option.splits)
  have "active_dependency_rejected table d \<longleftrightarrow> \<not> dependency_local plan d" for d
    unfolding active_dependency_rejected_def dependency_local_def table(1) using table(2) by auto
  then show ?thesis by (simp add: list_ex_iff list_all_iff)
qed

lemma validate_dispatch_Inr:
  assumes "length (plan_domains plan) \<le> rate_domain_capacity"
  shows "validate_dispatch graph_owner dependencies plan channels device_plan = Inr () \<longleftrightarrow>
    dispatch_valid graph_owner dependencies plan channels device_plan"
proof -
  let ?marks = "check_channels graph_owner plan channels (replicate rate_domain_capacity False)"
  let ?table = "domains_by_phase graph_owner (length (plan_domains plan)) (plan_bindings plan)
    (replicate (length (plan_bindings plan)) None)"
  have channels: "(\<exists>marks. ?marks = Inr marks) \<longleftrightarrow> list_all (channel_ok graph_owner plan) channels"
    using assms by (intro check_channels_Inr(1)) simp
  have bindings: "(\<exists>table. ?table = Inr table) \<longleftrightarrow>
      list_all (\<lambda>b. \<not> active_binding_rejected graph_owner (length (plan_bindings plan))
        (length (plan_domains plan)) b) (plan_bindings plan)" (is "_ \<longleftrightarrow> ?bindings")
  proof
    assume "\<exists>table. ?table = Inr table"
    then show ?bindings by (auto simp: domains_by_phase_Inr)
  next
    assume ?bindings
    then show "\<exists>table. ?table = Inr table"
      by (intro exI [of _ "map (phase_domain plan) [0..<length (plan_bindings plan)]"])
        (simp add: domains_by_phase_Inr phase_domain_def split: option.splits)
  qed
  show ?thesis
    unfolding validate_dispatch_def dispatch_valid_def Let_def
    using channels bindings domains_checked [OF assms] dependencies_checked
    by (cases ?marks; cases ?table) (auto simp: list_ex_iff list_all_iff)
qed

end
