(* ===== verification/Dispatch_Plans.thy ===== *)
theory Dispatch_Plans
  imports Dispatch_Validation
begin

text \<open>
  Correctness of \<open>compile_rate_dispatch\<close>: when it succeeds, and what every table of the plan it
  produces contains.
\<close>

section \<open>Tables by index\<close>

lemma enumerate_map: "enumerate 0 xs = map (\<lambda>i. (i, xs ! i)) [0..<length xs]"
  by (rule nth_equalityI) (simp_all add: nth_enumerate_eq)

lemma filter_enumerate:
  "map fst (filter (\<lambda>x. P (fst x) (snd x)) (enumerate 0 xs)) = filter (\<lambda>i. P i (xs ! i)) [0..<length xs]"
  by (simp add: enumerate_map filter_map comp_def)

section \<open>Successful compilations\<close>

lemma admit_record_error: "admit_record i r st = Inl e \<Longrightarrow> rx_status e \<noteq> ok"
  by (cases st) (auto simp: admit_record_def Let_def split: if_splits option.splits)

lemma bind_device_record_error: "bind_device_record phases i r t = Inl e \<Longrightarrow> rx_status e \<noteq> ok"
  by (auto simp: bind_device_record_def split: if_splits option.splits)

lemma walk_record_error: "walk_record plan phases i r w = Inl e \<Longrightarrow> rx_status e \<noteq> ok"
  unfolding walk_record_def
  by (auto simp: sum_bind_Inl dest: admit_record_error bind_device_record_error split: if_splits)

lemma walk_records_error: "walk_records plan phases i rs w = Inl e \<Longrightarrow> rx_status e \<noteq> ok"
  by (induction plan phases i rs w rule: walk_records.induct)
    (auto simp: sum_bind_Inl dest: walk_record_error)

lemma count_group_records_error: "count_group_records groups records = Inl e \<Longrightarrow> rx_status e \<noteq> ok"
  by (induction groups records rule: count_group_records.induct) (auto simp: Let_def split: if_splits)

lemma check_channels_error: "check_channels ow plan cs marks = Inl e \<Longrightarrow> rx_status e \<noteq> ok"
  by (induction ow plan cs marks rule: check_channels.induct) (auto split: if_splits option.splits)

lemma domains_by_phase_error: "domains_by_phase ow m bs table = Inl e \<Longrightarrow> rx_status e \<noteq> ok"
  by (induction ow m bs table rule: domains_by_phase.induct) (auto split: if_splits)

lemma validate_dispatch_error: "validate_dispatch ow deps plan cs dv = Inl e \<Longrightarrow> rx_status e \<noteq> ok"
  unfolding validate_dispatch_def Let_def
  by (auto simp: sum_bind_Inl dest: check_channels_error domains_by_phase_error split: if_splits)

lemma compile_dispatch_error:
  "compile_dispatch_checked ow tier policy deps plan cs dv = Inl e \<Longrightarrow> rx_status e \<noteq> ok"
  unfolding compile_dispatch_checked_def compile_dispatch_candidate_def
  by (auto simp: sum_bind_Inl dest: validate_dispatch_error walk_records_error count_group_records_error
      split: if_splits)

lemma compile_rate_dispatch_ok:
  "compile_rate_dispatch ow tier policy deps plan cs dv out = (ok, disp, diag) \<Longrightarrow>
     compile_dispatch_checked ow tier policy deps plan cs dv = Inr disp"
  by (auto simp: compile_rate_dispatch_def dest: compile_dispatch_error split: sum.splits)

definition dispatch_groups :: "compiled_rate_plan \<Rightarrow> rate_release_group list" where
  "dispatch_groups plan = group_records 0 (plan_releases plan) []"

definition dispatch_devices :: "compiled_rate_plan \<Rightarrow> compiled_device_rate_plan option \<Rightarrow> nat option list" where
  "dispatch_devices plan dv = map (device_phase_of (device_phases dv)) (plan_releases plan)"

lemma compile_dispatch_checked_Inr:
  "compile_dispatch_checked ow tier policy deps plan cs dv = Inr disp \<longleftrightarrow>
     \<not> policy_rejected policy \<and> tier = tier_unspecified \<and> \<not> plan_unusable plan \<and>
     dispatch_valid ow deps plan cs dv \<and> list_all (record_ok plan (device_phases dv)) (plan_releases plan) \<and>
     (\<exists>w records. admit_records 0 (plan_releases plan) ([], 0) = Inr (dw_admission w, dw_previous_finish w) \<and>
        dw_previous_finish w \<le> plan_supercycle_ns plan \<and> dw_groups w = dispatch_groups plan \<and>
        dw_device_phase_by_reference w = dispatch_devices plan dv \<and>
        count_group_records (dispatch_groups plan) (replicate rate_domain_capacity 0) = Inr records \<and>
        disp = assemble_dispatch policy deps plan cs w records)"
proof (cases "policy_rejected policy \<or> tier \<noteq> tier_unspecified \<or> plan_unusable plan")
  case True
  then show ?thesis by (auto simp: compile_dispatch_checked_def)
next
  case False
  then have "length (plan_domains plan) \<le> rate_domain_capacity" by (simp add: plan_unusable_def)
  note valid = validate_dispatch_Inr [OF this, of ow deps cs dv]
  have "compile_dispatch_checked ow tier policy deps plan cs dv = Inr disp \<longleftrightarrow>
      dispatch_valid ow deps plan cs dv \<and>
      (\<exists>w. walk_records plan (device_phases dv) 0 (plan_releases plan) (empty_walk plan) = Inr w \<and>
        dw_previous_finish w \<le> plan_supercycle_ns plan \<and>
        (\<exists>records. count_group_records (dw_groups w) (replicate rate_domain_capacity 0) = Inr records \<and>
           disp = assemble_dispatch policy deps plan cs w records))"
    using False valid
    by (auto simp: compile_dispatch_checked_def compile_dispatch_candidate_def sum_bind_Inr not_less split: if_splits)
  then show ?thesis
    unfolding walk_from_empty dispatch_groups_def dispatch_devices_def using False by auto
qed

lemma groups_of_records:
  assumes "list_all (record_ok plan phases) (plan_releases plan)" and "grp \<in> set (dispatch_groups plan)"
  shows "0 < rg_reference_count grp" and "rg_domain_registration_index grp < length (plan_domains plan)"
proof -
  have runs: "run_lengths (plan_releases plan) (dispatch_groups plan)"
    unfolding dispatch_groups_def by (rule groups_run_lengths)
  then show pos: "0 < rg_reference_count grp" using assms(2) by (simp add: run_lengths_def)
  then have "group_tag grp \<in> set (concat (map (\<lambda>g. replicate (rg_reference_count g) (group_tag g)) (dispatch_groups plan)))"
    using assms(2) by force
  then have "group_tag grp \<in> set (map release_tag (plan_releases plan))"
    unfolding run_lengths_tags [OF runs] .
  then show "rg_domain_registration_index grp < length (plan_domains plan)"
    using assms(1) by (auto simp: list_all_iff record_ok_def)
qed

lemma dispatch_accepted:
  "(\<exists>disp. compile_dispatch_checked ow tier policy deps plan cs dv = Inr disp) \<longleftrightarrow>
     \<not> policy_rejected policy \<and> tier = tier_unspecified \<and> \<not> plan_unusable plan \<and>
     dispatch_valid ow deps plan cs dv \<and> list_all (record_ok plan (device_phases dv)) (plan_releases plan) \<and>
     (\<exists>start. lane_schedule 0 (unat (plan_supercycle_ns plan)) (plan_releases plan) start) \<and>
     counts_agree (dispatch_groups plan)"
proof (cases "\<not> plan_unusable plan \<and> list_all (record_ok plan (device_phases dv)) (plan_releases plan)")
  case False
  then show ?thesis by (auto simp: compile_dispatch_checked_Inr)
next
  case True
  have "\<forall>grp \<in> set (dispatch_groups plan).
      0 < rg_reference_count grp \<and> rg_domain_registration_index grp < rate_domain_capacity"
    using True groups_of_records [of plan "device_phases dv"] by (force simp: plan_unusable_def)
  note counts = count_group_records_iff [OF this]
  have walk: "(\<exists>w. P (dw_admission w) (dw_previous_finish w) \<and> dw_groups w = gs \<and> dw_device_phase_by_reference w = tbl) \<longleftrightarrow>
      (\<exists>a f. P a f)" for P gs tbl
    by (metis dispatch_walk.select_convs)
  have "(\<exists>w. admit_records 0 (plan_releases plan) ([], 0) = Inr (dw_admission w, dw_previous_finish w) \<and>
        dw_previous_finish w \<le> plan_supercycle_ns plan \<and> dw_groups w = dispatch_groups plan \<and>
        dw_device_phase_by_reference w = dispatch_devices plan dv) \<longleftrightarrow>
      (\<exists>start. lane_schedule 0 (unat (plan_supercycle_ns plan)) (plan_releases plan) start)"
    unfolding admission_iff [symmetric]
    using walk [of "\<lambda>a f. admit_records 0 (plan_releases plan) ([], 0) = Inr (a, f) \<and> f \<le> plan_supercycle_ns plan"]
    by simp
  then show ?thesis
    unfolding compile_dispatch_checked_Inr counts [symmetric] using True by blast
qed

lemma dispatch_ok_parts:
  assumes "compile_rate_dispatch ow tier policy deps plan cs dv out = (ok, disp, diag)"
  obtains w records where "length (plan_domains plan) \<le> rate_domain_capacity"
    and "dispatch_valid ow deps plan cs dv"
    and "list_all (record_ok plan (device_phases dv)) (plan_releases plan)"
    and "admit_records 0 (plan_releases plan) ([], 0) = Inr (dw_admission w, dw_previous_finish w)"
    and "dw_previous_finish w \<le> plan_supercycle_ns plan" and "dw_groups w = dispatch_groups plan"
    and "dw_device_phase_by_reference w = dispatch_devices plan dv"
    and "count_group_records (dispatch_groups plan) (replicate rate_domain_capacity 0) = Inr records"
    and "disp = assemble_dispatch policy deps plan cs w records"
  using compile_rate_dispatch_ok [OF assms] that
  unfolding compile_dispatch_checked_Inr by (auto simp: plan_unusable_def)

lemmas assemble_parts = assemble_dispatch_def Let_def case_prod_beta

lemma dispatch_tables:
  assumes "compile_rate_dispatch ow tier policy deps plan cs dv out = (ok, disp, diag)"
  shows "dp_groups disp = dispatch_groups plan"
    and "(dp_domain_group_offsets disp, dp_domain_group_indices disp) = group_slices (dispatch_groups plan)"
    and "(dp_producer_channel_offsets disp, dp_producer_channel_indices disp) =
      producer_slices (length (plan_bindings plan)) cs"
    and "(dp_consumer_channel_offsets disp, dp_consumer_channel_indices disp) =
      consumer_slices (length (plan_bindings plan)) cs"
    and "dp_optional_shed_order disp = optional_shed_order plan"
    and "dp_device_phase_by_reference disp = dispatch_devices plan dv"
    and "(dp_device_dependency_offsets disp, dp_device_dependencies disp, dp_maximum_device_records_per_group disp) =
      device_group_walk deps (plan_releases plan) (dispatch_devices plan dv) (dispatch_groups plan)
        (replicate (Suc (length (plan_releases plan))) 0, [], 0)"
    and "dp_policy disp = policy"
  by (rule dispatch_ok_parts [OF assms]; simp add: assemble_parts)+

section \<open>A sample plan\<close>

definition sample_policy :: rate_execution_policy where
  "sample_policy = \<lparr>ep_maximum_dispatch_records_per_step = 8, ep_host_policy_version = 1,
     ep_consecutive_late_threshold = 1, ep_consecutive_on_time_threshold = 1, ep_rate_telemetry_capacity = 0\<rparr>"

definition sample_rate :: "nat \<Rightarrow> u64 \<Rightarrow> bool \<Rightarrow> compiled_rate_domain" where
  "sample_rate i period opt = \<lparr>cd_domain = rate_domain_handle_of 7 (word_of_nat i), cd_name = [],
     cd_registration_index = i, cd_period_ns = period, cd_substep_count = 1, cd_relative_deadline_ns = 5,
     cd_budget_wcet_ns = 1, cd_criticality = normal, cd_optional = opt, cd_releases_per_supercycle = 10 div period,
     cd_period_ratio_numerator = 1, cd_period_ratio_denominator = 1, cd_late_action = late_hold,
     cd_bounded_catch_up_limit = 0\<rparr>"

definition sample_bound :: "nat \<Rightarrow> nat \<Rightarrow> rate_phase_kind \<Rightarrow> compiled_rate_binding" where
  "sample_bound p d k = \<lparr>cb_phase = phase_handle_of 7 (word_of_nat p),
     cb_domain = rate_domain_handle_of 7 (word_of_nat d), cb_phase_kind = k, cb_compiled_phase_index = p\<rparr>"

definition sample_record :: "u64 \<Rightarrow> nat \<Rightarrow> nat \<Rightarrow> rate_phase_kind \<Rightarrow> bool \<Rightarrow> u64 \<Rightarrow> reference_release" where
  "sample_record t d p k opt s = \<lparr>rr_release_time_ns = t, rr_domain = rate_domain_handle_of 7 (word_of_nat d),
     rr_domain_registration_index = d, rr_domain_release_sequence = s,
     rr_phase = phase_handle_of 7 (word_of_nat p), rr_phase_kind = k, rr_compiled_phase_index = p,
     rr_substep_ordinal = 0, rr_substep_count = 1, rr_relative_deadline_ns = 5, rr_deadline_time_ns = t + 5,
     rr_budget_wcet_ns = 1, rr_criticality = normal, rr_optional = opt, rr_late_action = late_hold,
     rr_bounded_catch_up_limit = 0\<rparr>"

text \<open>
  Domain 0 with period 5 runs the CPU phase 0, domain 1 with period 10 runs the device phases 1
  and 2, the second of which depends on the first, and the optional domain 2 runs the CPU phase 3.
\<close>

definition sample_plan :: compiled_rate_plan where
  "sample_plan = \<lparr>plan_supercycle_ns = 10,
     plan_domains = [sample_rate 0 5 False, sample_rate 1 10 False, sample_rate 2 10 True],
     plan_bindings = [sample_bound 0 0 kind_cpu, sample_bound 1 1 kind_device, sample_bound 2 1 kind_device,
       sample_bound 3 2 kind_cpu],
     plan_releases = [sample_record 0 0 0 kind_cpu False 0, sample_record 0 1 1 kind_device False 0,
       sample_record 0 1 2 kind_device False 0, sample_record 0 2 3 kind_cpu True 0,
       sample_record 5 0 0 kind_cpu False 1]\<rparr>"

definition sample_device_phase :: "nat \<Rightarrow> compiled_device_phase" where
  "sample_device_phase p = \<lparr>dv_phase = phase_handle_of 7 (word_of_nat p), dv_domain = rate_domain_handle_of 7 1,
     dv_backend = DeviceBackendHandle 0, dv_compiled_phase_index = p, dv_completion_budget_ns = 1,
     dv_maximum_in_flight = 1, dv_command_count = 1, dv_wait_count = 0, dv_signal_count = 0,
     dv_first_command_index = 0, dv_first_payload_reference_index = 0, dv_payload_reference_count = 1,
     dv_first_timeline_reference_index = 0, dv_timeline_reference_count = 0,
     dv_completion_timestamp_domain_identity = 1, dv_simulation = None\<rparr>"

definition sample_devices :: "compiled_device_rate_plan option" where
  "sample_devices = Some \<lparr>dr_phases = [sample_device_phase 1, sample_device_phase 2], dr_payload_references = []\<rparr>"

definition sample_dependency :: graph_dependency where
  "sample_dependency = \<lparr>prerequisite = phase_handle_of 7 1, dependent = phase_handle_of 7 2\<rparr>"

definition sample_channel :: cross_rate_channel_spec where
  "sample_channel = \<lparr>ch_name = ''c'', ch_producer = phase_handle_of 7 0, ch_consumer = phase_handle_of 7 1,
     ch_payload_size = 1, ch_initial_sample = [0], ch_mode = sample_and_hold, ch_maximum_age_ns = u64_max,
     ch_producer_device = no_selector,
     ch_consumer_device = \<lparr>sel_payload_reference_ordinal = Some 0, sel_slot_stride_bytes = 1\<rparr>\<rparr>"

definition empty_dispatch_plan :: compiled_rate_dispatch_plan where
  "empty_dispatch_plan = \<lparr>dp_policy = sample_policy, dp_admission = [], dp_groups = [],
     dp_domain_group_offsets = [], dp_domain_group_indices = [], dp_records_per_domain_release = [],
     dp_optional_shed_order = [], dp_producer_channel_offsets = [], dp_producer_channel_indices = [],
     dp_consumer_channel_offsets = [], dp_consumer_channel_indices = [], dp_device_phase_by_reference = [],
     dp_device_dependency_offsets = [], dp_device_dependencies = [], dp_maximum_device_records_per_group = 0\<rparr>"

lemmas sample_handles =
  phase.owner_make phase.index_make phase.valid_make phase.make_inj rate_domain.owner_make
  rate_domain.index_make rate_domain.valid_make rate_domain.make_inj index_mask_numeral

lemmas sample_defs =
  sample_policy_def sample_rate_def sample_bound_def sample_record_def sample_plan_def
  sample_device_phase_def sample_devices_def sample_dependency_def sample_channel_def

lemma sample_groups:
  "dispatch_groups sample_plan =
     [\<lparr>rg_first_reference_index = 0, rg_reference_count = 1, rg_domain_registration_index = 0,
       rg_domain_release_sequence = 0, rg_release_time_ns = 0\<rparr>,
      \<lparr>rg_first_reference_index = 1, rg_reference_count = 2, rg_domain_registration_index = 1,
       rg_domain_release_sequence = 0, rg_release_time_ns = 0\<rparr>,
      \<lparr>rg_first_reference_index = 3, rg_reference_count = 1, rg_domain_registration_index = 2,
       rg_domain_release_sequence = 0, rg_release_time_ns = 0\<rparr>,
      \<lparr>rg_first_reference_index = 4, rg_reference_count = 1, rg_domain_registration_index = 0,
       rg_domain_release_sequence = 1, rg_release_time_ns = 5\<rparr>]"
  by (simp add: dispatch_groups_def sample_plan_def sample_record_def extend_groups_def)

lemma sample_records_ok: "list_all (record_ok sample_plan (device_phases sample_devices)) (plan_releases sample_plan)"
  by (simp add: record_ok_def device_phase_of_def sample_plan_def sample_record_def sample_devices_def
      device_phases_def admitted_by_def sample_device_phase_def sample_handles)

lemma sample_lane:
  "lane_schedule 0 (unat (plan_supercycle_ns sample_plan)) (plan_releases sample_plan) (\<lambda>i. if i = 0 then 0 else 5)"
  by (simp add: lane_schedule_def sample_plan_def sample_record_def mandatory_def All_less_Suc2)

lemma sample_channel_ok: "channel_ok 7 sample_plan sample_channel"
  by (simp add: channel_ok_def sample_plan_def sample_channel_def endpoint_rejected_def endpoint_domain_def
     sample_bound_def sample_rate_def sample_handles)

lemma sample_domains_ok: "i < length (plan_domains sample_plan) \<Longrightarrow>
   \<not> active_domain_rejected c p (plan_domains sample_plan ! i)"
  by (auto simp: sample_plan_def sample_rate_def active_domain_rejected_def valid_action_def less_Suc_eq)

lemma sample_bindings_ok: 
  "list_all (\<lambda>b. \<not> device_binding_rejected (device_phases sample_devices) b) (plan_bindings sample_plan)"
  "list_all (\<lambda>b. \<not> active_binding_rejected 7 (length (plan_bindings sample_plan)) (length (plan_domains sample_plan)) b) (plan_bindings sample_plan)"
  by (simp_all add: device_binding_rejected_def active_binding_rejected_def sample_plan_def sample_bound_def sample_devices_def
     device_phases_def admitted_by_def sample_device_phase_def sample_handles)

lemma sample_dependency_ok: "dependency_local sample_plan sample_dependency"
  by (simp add: dependency_local_def sample_dependency_def sample_plan_def phase_domain_def sample_bound_def sample_handles)

lemma sample_dispatches:
  "\<exists>disp. compile_rate_dispatch 7 tier_unspecified sample_policy [sample_dependency] sample_plan [sample_channel]
     sample_devices out = (ok, disp, \<lparr>rx_status = ok, rx_message = None, rx_reference_index = None\<rparr>)"
proof -
  have "\<not> policy_rejected sample_policy"
    by (simp add: sample_policy_def policy_rejected_def rate_policy_threshold_limit_def
        rate_telemetry_capacity_limit_def reference_release_capacity_def)
  moreover have "\<not> plan_unusable sample_plan"
    by (simp add: plan_unusable_def sample_plan_def rate_domain_capacity_def)
  moreover have "dispatch_valid 7 [sample_dependency] sample_plan [sample_channel] sample_devices"
    unfolding dispatch_valid_def
    using sample_channel_ok sample_domains_ok sample_bindings_ok sample_dependency_ok by simp
  moreover have "counts_agree (dispatch_groups sample_plan)"
    by (simp add: counts_agree_def sample_groups)
  ultimately have "\<exists>disp. compile_dispatch_checked 7 tier_unspecified sample_policy [sample_dependency] sample_plan
      [sample_channel] sample_devices = Inr disp"
    unfolding dispatch_accepted using sample_records_ok sample_lane by blast
  then show ?thesis by (auto simp: compile_rate_dispatch_def)
qed

end
