(* ===== verification/Dispatch_Properties.thy ===== *)
theory Dispatch_Properties
  imports Dispatch_Plans
begin

text \<open>
  The properties of the rate dispatch compiler and of the due-work counters.
\<close>

section \<open>Acceptance and admission\<close>

text \<open>What compilation asks of the policy, the plan, the channels, the domains and the bindings.\<close>

definition policy_conforms :: "rate_execution_policy \<Rightarrow> bool" where
  "policy_conforms p \<longleftrightarrow>
     ep_maximum_dispatch_records_per_step p \<in> {1..65536} \<and> ep_host_policy_version p \<noteq> 0 \<and>
     unat (ep_consecutive_late_threshold p) \<in> {1..65536} \<and>
     unat (ep_consecutive_on_time_threshold p) \<in> {1..65536} \<and> ep_rate_telemetry_capacity p \<le> 65536"

definition plan_conforms :: "compiled_rate_plan \<Rightarrow> bool" where
  "plan_conforms plan \<longleftrightarrow>
     length (plan_domains plan) \<in> {1..64} \<and> plan_releases plan \<noteq> [] \<and> 0 < unat (plan_supercycle_ns plan)"

definition domain_dispatchable :: "bool \<Rightarrow> bool \<Rightarrow> compiled_rate_domain \<Rightarrow> bool" where
  "domain_dispatchable cpu producer d \<longleftrightarrow>
     0 < unat (cd_period_ns d) \<and> 0 < unat (cd_relative_deadline_ns d) \<and>
     (cpu \<longrightarrow> unat (cd_relative_deadline_ns d) \<le> unat (cd_period_ns d)) \<and>
     (case cd_late_action d of
        late_bounded_catch_up \<Rightarrow> cd_bounded_catch_up_limit d \<noteq> 0
      | late_skip \<Rightarrow> cd_bounded_catch_up_limit d = 0 \<and> \<not> producer
      | late_unknown _ \<Rightarrow> False
      | _ \<Rightarrow> cd_bounded_catch_up_limit d = 0)"

definition endpoint_conforms :: "u32 \<Rightarrow> compiled_rate_plan \<Rightarrow> phase_handle \<Rightarrow> bool" where
  "endpoint_conforms ow plan p \<longleftrightarrow>
     phase_valid p \<and> phase_owner p = ow \<and> phase_number p < length (plan_bindings plan) \<and>
     (\<exists>i. endpoint_domain plan p = Some i \<and> \<not> cd_optional (plan_domains plan ! i))"

definition dispatch_conforms ::
  "u32 \<Rightarrow> graph_dependency list \<Rightarrow> compiled_rate_plan \<Rightarrow> cross_rate_channel_spec list \<Rightarrow>
     compiled_device_rate_plan option \<Rightarrow> bool" where
  "dispatch_conforms ow deps plan cs dv \<longleftrightarrow>
     (\<forall>c \<in> set cs. endpoint_conforms ow plan (ch_producer c) \<and> endpoint_conforms ow plan (ch_consumer c)) \<and>
     (\<forall>i < length (plan_domains plan).
        domain_dispatchable (cpu_domain plan i) (producing_domain plan cs i) (plan_domains plan ! i)) \<and>
     (\<forall>b \<in> set (plan_bindings plan).
        phase_valid (cb_phase b) \<and> phase_owner (cb_phase b) = ow \<and>
        phase_number (cb_phase b) < length (plan_bindings plan) \<and>
        rate_domain_valid (cb_domain b) \<and> rate_domain_owner (cb_domain b) = ow \<and>
        rate_domain_number (cb_domain b) < length (plan_domains plan) \<and>
        (cb_phase_kind b = kind_device \<longrightarrow>
           (cb_phase b, cb_domain b) \<in> (\<lambda>d. (dv_phase d, dv_domain d)) ` set (device_phases dv))) \<and>
     (\<forall>d \<in> set deps. dependency_local plan d)"

lemma policy_conforms_iff: "policy_conforms p \<longleftrightarrow> \<not> policy_rejected p"
  by (auto simp: policy_conforms_def policy_rejected_def rate_policy_threshold_limit_def
      rate_telemetry_capacity_limit_def reference_release_capacity_def word_le_nat_alt word_less_nat_alt not_less
      Suc_le_eq unat_gt_0)

lemma plan_conforms_iff: "plan_conforms plan \<longleftrightarrow> \<not> plan_unusable plan"
  by (auto simp: plan_conforms_def plan_unusable_def rate_domain_capacity_def Suc_le_eq unat_gt_0)

lemma domain_dispatchable_iff: "domain_dispatchable cpu producer d \<longleftrightarrow> \<not> active_domain_rejected cpu producer d"
  by (cases "cd_late_action d")
    (auto simp: domain_dispatchable_def active_domain_rejected_def valid_action_def word_less_nat_alt not_less unat_gt_0)

lemma dispatch_conforms_iff: "dispatch_conforms ow deps plan cs dv \<longleftrightarrow> dispatch_valid ow deps plan cs dv"
proof -
  have "channel_ok ow plan c \<longleftrightarrow> endpoint_conforms ow plan (ch_producer c) \<and> endpoint_conforms ow plan (ch_consumer c)" for c
    by (auto simp: channel_ok_def endpoint_conforms_def endpoint_rejected_def not_le)
  moreover have "\<not> device_binding_rejected phases b \<longleftrightarrow> (cb_phase_kind b = kind_device \<longrightarrow>
      (cb_phase b, cb_domain b) \<in> (\<lambda>d. (dv_phase d, dv_domain d)) ` set phases)" for phases b
    by (force simp: device_binding_rejected_def admitted_by_def list_ex_iff)
  moreover have "\<not> active_binding_rejected ow n m b \<longleftrightarrow>
      phase_valid (cb_phase b) \<and> phase_owner (cb_phase b) = ow \<and> phase_number (cb_phase b) < n \<and>
      rate_domain_valid (cb_domain b) \<and> rate_domain_owner (cb_domain b) = ow \<and>
      rate_domain_number (cb_domain b) < m" for n m b
    by (auto simp: active_binding_rejected_def not_le)
  ultimately show ?thesis
    unfolding dispatch_conforms_def dispatch_valid_def domain_dispatchable_iff list_all_iff by blast
qed

text \<open>
  C27. \<open>compile_rate_dispatch\<close> succeeds exactly when the policy, the tier, the plan, the channels, the
  bindings, the dependencies and the records are valid, every domain has the same number of
  records in each of its releases, and the mandatory CPU records have some single-lane schedule in
  reference order: starts at or after the releases, without overlap, with every record finished by
  its deadline and by the supercycle boundary.
\<close>

theorem compile_rate_dispatch_ok_iff:
  "fst (compile_rate_dispatch ow tier policy deps plan cs dv out) = ok \<longleftrightarrow>
     policy_conforms policy \<and> tier = tier_unspecified \<and> plan_conforms plan \<and>
     dispatch_conforms ow deps plan cs dv \<and> list_all (record_ok plan (device_phases dv)) (plan_releases plan) \<and>
     (\<exists>start. lane_schedule 0 (unat (plan_supercycle_ns plan)) (plan_releases plan) start) \<and>
     counts_agree (dispatch_groups plan)"
proof -
  have "fst (compile_rate_dispatch ow tier policy deps plan cs dv out) = ok \<longleftrightarrow>
      (\<exists>disp. compile_dispatch_checked ow tier policy deps plan cs dv = Inr disp)"
    by (auto simp: compile_rate_dispatch_def dest: compile_dispatch_error split: sum.splits)
  then show ?thesis
    unfolding dispatch_accepted policy_conforms_iff plan_conforms_iff dispatch_conforms_iff .
qed

text \<open>
  C28. The admission table of a compiled dispatch plan lists exactly the mandatory CPU records, in
  reference order; each starts no earlier than its release, runs for its declared budget without
  wrap-around, finishes by its deadline and within the supercycle, and no two of them overlap.
\<close>

theorem compile_rate_dispatch_admission:
  assumes "compile_rate_dispatch ow tier policy deps plan cs dv out = (ok, disp, diag)"
  shows "map ra_reference_index (dp_admission disp) =
      filter (\<lambda>i. mandatory (plan_releases plan ! i)) [0..<length (plan_releases plan)] \<and>
    (\<forall>a \<in> set (dp_admission disp). \<forall>r. r = plan_releases plan ! ra_reference_index a \<longrightarrow>
       unat (rr_release_time_ns r) \<le> unat (ra_declared_start_ns a) \<and>
       unat (ra_declared_finish_ns a) = unat (ra_declared_start_ns a) + unat (rr_budget_wcet_ns r) \<and>
       ra_deadline_ns a = rr_deadline_time_ns r \<and>
       unat (ra_declared_finish_ns a) \<le> unat (rr_deadline_time_ns r) \<and>
       ra_declared_finish_ns a \<le> plan_supercycle_ns plan) \<and>
    sorted_wrt (\<lambda>a b. ra_declared_finish_ns a \<le> ra_declared_start_ns b) (dp_admission disp)"
proof (rule dispatch_ok_parts [OF assms])
  fix w records
  assume admit: "admit_records 0 (plan_releases plan) ([], 0) = Inr (dw_admission w, dw_previous_finish w)"
    and idle: "dw_previous_finish w \<le> plan_supercycle_ns plan"
    and disp: "disp = assemble_dispatch policy deps plan cs w records"
  have "dp_admission disp = dw_admission w" by (simp add: disp assemble_parts)
  then have lane: "lane_admission 0 (plan_releases plan) 0 (dp_admission disp) (unat (dw_previous_finish w))"
    using admit_records_sound [OF admit] by simp
  have "map ra_reference_index (dp_admission disp) =
      filter (\<lambda>i. mandatory (plan_releases plan ! i)) [0..<length (plan_releases plan)]"
    using lane filter_enumerate [of "\<lambda>_. mandatory"] by (simp add: lane_admission_def)
  moreover have "sorted_wrt (\<lambda>a b. ra_declared_finish_ns a \<le> ra_declared_start_ns b) (dp_admission disp)"
    using lane by (simp add: lane_admission_def)
  moreover have "\<forall>a \<in> set (dp_admission disp). admitted_within 0 (unat (plan_supercycle_ns plan))
      (plan_releases plan ! ra_reference_index a) a"
    using lane idle by (force simp: lane_admission_def admitted_within_def word_le_nat_alt)
  ultimately show ?thesis unfolding admitted_within_def word_le_nat_alt by blast
qed

theorem compile_rate_dispatch_admission_witness:
  "\<exists>disp. compile_rate_dispatch 7 tier_unspecified sample_policy [sample_dependency] sample_plan [sample_channel]
       sample_devices empty_dispatch_plan =
       (ok, disp, \<lparr>rx_status = ok, rx_message = None, rx_reference_index = None\<rparr>) \<and>
     map ra_reference_index (dp_admission disp) = [0, 4]"
proof -
  obtain disp where disp: "compile_rate_dispatch 7 tier_unspecified sample_policy [sample_dependency] sample_plan
      [sample_channel] sample_devices empty_dispatch_plan =
      (ok, disp, \<lparr>rx_status = ok, rx_message = None, rx_reference_index = None\<rparr>)"
    using sample_dispatches by blast
  show ?thesis
    using disp compile_rate_dispatch_admission [OF disp]
    by (intro exI [of _ disp]) (simp add: sample_plan_def sample_record_def mandatory_def upt_rec)
qed

section \<open>Tables\<close>

lemma slices_by_index:
  assumes "\<forall>i < length xs. P (xs ! i) \<longrightarrow> key (xs ! i) < n"
    and "slices n (map (\<lambda>(i, x). (key x, i)) (filter (\<lambda>(i, x). P x) (enumerate 0 xs))) = (offsets, indices)"
    and "k < n"
  shows "key_slice offsets indices k = filter (\<lambda>i. P (xs ! i) \<and> key (xs ! i) = k) [0..<length xs]"
proof -
  let ?items = "map (\<lambda>(i, x). (key x, i)) (filter (\<lambda>(i, x). P x) (enumerate 0 xs))"
  have items: "?items = map (\<lambda>i. (key (xs ! i), i)) (filter (\<lambda>i. P (xs ! i)) [0..<length xs])"
    by (simp add: enumerate_map filter_map comp_def)
  have "\<forall>x \<in> set ?items. fst x < n" unfolding items using assms(1) by auto
  from slices_spec(4) [OF this assms(2,3)] show ?thesis
    unfolding items by (simp add: filter_map comp_def conj_commute)
qed

text \<open>
  C29. The groups of a compiled dispatch plan are the run-length encoding of the reference records by
  domain and release sequence, the slice of a domain lists its groups in order, and the record
  count of a domain is the size of each of its groups.
\<close>

theorem compile_rate_dispatch_groups:
  assumes "compile_rate_dispatch ow tier policy deps plan cs dv out = (ok, disp, diag)"
  shows "run_lengths (plan_releases plan) (dp_groups disp) \<and>
    (\<forall>d < rate_domain_capacity. key_slice (dp_domain_group_offsets disp) (dp_domain_group_indices disp) d =
       filter (\<lambda>k. rg_domain_registration_index (dp_groups disp ! k) = d) [0..<length (dp_groups disp)]) \<and>
    (\<forall>grp \<in> set (dp_groups disp).
       dp_records_per_domain_release disp ! rg_domain_registration_index grp = rg_reference_count grp)"
proof (rule dispatch_ok_parts [OF assms])
  fix w records
  assume cap: "length (plan_domains plan) \<le> rate_domain_capacity"
    and recs: "list_all (record_ok plan (device_phases dv)) (plan_releases plan)"
    and counts: "count_group_records (dispatch_groups plan) (replicate rate_domain_capacity 0) = Inr records"
    and disp: "disp = assemble_dispatch policy deps plan cs w records"
  note t = dispatch_tables [OF assms]
  have grp: "0 < rg_reference_count grp \<and> rg_domain_registration_index grp < rate_domain_capacity"
    if "grp \<in> set (dispatch_groups plan)" for grp
    using groups_of_records [OF recs that] cap by simp
  have "run_lengths (plan_releases plan) (dp_groups disp)"
    unfolding t(1) dispatch_groups_def by (rule groups_run_lengths)
  moreover have "key_slice (dp_domain_group_offsets disp) (dp_domain_group_indices disp) d =
      filter (\<lambda>k. rg_domain_registration_index (dp_groups disp ! k) = d) [0..<length (dp_groups disp)]"
    if "d < rate_domain_capacity" for d
    using slices_by_index [OF _ _ that, of "dispatch_groups plan" "\<lambda>_. True" rg_domain_registration_index] grp
      t(2) [symmetric] by (simp add: t(1) group_slices_def)
  moreover have "dp_records_per_domain_release disp = records" by (simp add: disp assemble_parts)
  ultimately show ?thesis
    using count_group_records_sound [OF counts] grp t(1) by simp
qed

theorem compile_rate_dispatch_groups_witness:
  "\<exists>disp. compile_rate_dispatch 7 tier_unspecified sample_policy [sample_dependency] sample_plan [sample_channel]
       sample_devices empty_dispatch_plan =
       (ok, disp, \<lparr>rx_status = ok, rx_message = None, rx_reference_index = None\<rparr>) \<and>
     run_lengths (plan_releases sample_plan) (dp_groups disp)"
proof -
  obtain disp where disp: "compile_rate_dispatch 7 tier_unspecified sample_policy [sample_dependency] sample_plan
      [sample_channel] sample_devices empty_dispatch_plan =
      (ok, disp, \<lparr>rx_status = ok, rx_message = None, rx_reference_index = None\<rparr>)"
    using sample_dispatches by blast
  show ?thesis using disp compile_rate_dispatch_groups [OF disp] by blast
qed

text \<open>
  C30. The producer slice of a phase lists, in registration order, exactly the channels it produces; if
  some channel has a device consumer, the consumer slice of a phase lists exactly the channels it
  consumes on a device; and the shedding order lists exactly the optional domains, lower
  criticality first and later registration first among equals.
\<close>

theorem compile_rate_dispatch_slices:
  assumes "compile_rate_dispatch ow tier policy deps plan cs dv out = (ok, disp, diag)"
  shows "(\<forall>p < length (plan_bindings plan).
       key_slice (dp_producer_channel_offsets disp) (dp_producer_channel_indices disp) p =
         filter (\<lambda>c. phase_number (ch_producer (cs ! c)) = p) [0..<length cs]) \<and>
    ((\<exists>c \<in> set cs. selector_valid (ch_consumer_device c)) \<longrightarrow>
       (\<forall>p < length (plan_bindings plan).
          key_slice (dp_consumer_channel_offsets disp) (dp_consumer_channel_indices disp) p =
            filter (\<lambda>c. selector_valid (ch_consumer_device (cs ! c)) \<and> phase_number (ch_consumer (cs ! c)) = p)
              [0..<length cs])) \<and>
    set (dp_optional_shed_order disp) = {i. i < length (plan_domains plan) \<and> cd_optional (plan_domains plan ! i)} \<and>
    sorted_wrt (\<lambda>i j. criticality_code (cd_criticality (plan_domains plan ! i)) <
        criticality_code (cd_criticality (plan_domains plan ! j)) \<or>
      criticality_code (cd_criticality (plan_domains plan ! i)) =
        criticality_code (cd_criticality (plan_domains plan ! j)) \<and> j < i) (dp_optional_shed_order disp)"
proof (rule dispatch_ok_parts [OF assms])
  assume valid: "dispatch_valid ow deps plan cs dv"
  note t = dispatch_tables [OF assms]
  have ends: "phase_number (ch_producer (cs ! c)) < length (plan_bindings plan) \<and>
      phase_number (ch_consumer (cs ! c)) < length (plan_bindings plan)" if "c < length cs" for c
    using valid that by (fastforce simp: dispatch_valid_def list_all_length channel_ok_def endpoint_rejected_def)
  have prod: "key_slice (dp_producer_channel_offsets disp) (dp_producer_channel_indices disp) p =
      filter (\<lambda>c. phase_number (ch_producer (cs ! c)) = p) [0..<length cs]"
    if "p < length (plan_bindings plan)" for p
    using slices_by_index [OF _ _ that, of cs "\<lambda>_. True" "\<lambda>c. phase_number (ch_producer c)"] ends
      t(3) [symmetric] by (simp add: producer_slices_def)
  have cons: "key_slice (dp_consumer_channel_offsets disp) (dp_consumer_channel_indices disp) p =
      filter (\<lambda>c. selector_valid (ch_consumer_device (cs ! c)) \<and> phase_number (ch_consumer (cs ! c)) = p) [0..<length cs]"
    if "p < length (plan_bindings plan)" "\<exists>c \<in> set cs. selector_valid (ch_consumer_device c)" for p
    using slices_by_index [OF _ _ that(1), of cs "\<lambda>c. selector_valid (ch_consumer_device c)"
        "\<lambda>c. phase_number (ch_consumer c)"] ends that(2)
      t(4) [symmetric] by (simp add: consumer_slices_def list_ex_iff)
  have "inj (shed_key plan)" by (auto simp: shed_key_def intro: injI)
  then have "distinct (map (shed_key plan) (filter (\<lambda>i. cd_optional (plan_domains plan ! i)) [0..<length (plan_domains plan)]))"
    by (auto simp: distinct_map intro: inj_on_subset)
  from sorted_key_strict [OF this] have
    "sorted_wrt (\<lambda>i j. shed_key plan i < shed_key plan j) (dp_optional_shed_order disp)"
    unfolding t(5) optional_shed_order_def by (simp add: sorted_wrt_map)
  then have "sorted_wrt (\<lambda>i j. criticality_code (cd_criticality (plan_domains plan ! i)) <
        criticality_code (cd_criticality (plan_domains plan ! j)) \<or>
      criticality_code (cd_criticality (plan_domains plan ! i)) =
        criticality_code (cd_criticality (plan_domains plan ! j)) \<and> j < i) (dp_optional_shed_order disp)"
    by (rule sorted_wrt_mono_rel [rotated]) (auto simp: shed_key_def)
  then show ?thesis using prod cons by (auto simp: t(5) optional_shed_order_def)
qed

theorem compile_rate_dispatch_slices_witness:
  "\<exists>disp. compile_rate_dispatch 7 tier_unspecified sample_policy [sample_dependency] sample_plan [sample_channel]
       sample_devices empty_dispatch_plan =
       (ok, disp, \<lparr>rx_status = ok, rx_message = None, rx_reference_index = None\<rparr>) \<and>
     key_slice (dp_producer_channel_offsets disp) (dp_producer_channel_indices disp) 0 = [0] \<and>
     key_slice (dp_consumer_channel_offsets disp) (dp_consumer_channel_indices disp) 1 = [0]"
proof -
  obtain disp where disp: "compile_rate_dispatch 7 tier_unspecified sample_policy [sample_dependency] sample_plan
      [sample_channel] sample_devices empty_dispatch_plan =
      (ok, disp, \<lparr>rx_status = ok, rx_message = None, rx_reference_index = None\<rparr>)"
    using sample_dispatches by blast
  have "\<exists>c \<in> set [sample_channel]. selector_valid (ch_consumer_device c)"
    by (simp add: sample_channel_def selector_valid_def)
  then show ?thesis
    using disp compile_rate_dispatch_slices [OF disp]
    by (intro exI [of _ disp])
      (simp add: sample_plan_def sample_channel_def selector_valid_def sample_handles)
qed

section \<open>Device prerequisites\<close>

lemma find_upt_Some:
  "find P [a..<b] = Some j \<longleftrightarrow> a \<le> j \<and> j < b \<and> P j \<and> (\<forall>k. a \<le> k \<and> k < j \<longrightarrow> \<not> P k)"
proof -
  have "find P [a..<b] = Some j \<longleftrightarrow>
      (\<exists>i < b - a. P (a + i) \<and> j = a + i \<and> (\<forall>k < i. \<not> P (a + k)))"
    unfolding find_Some_iff by auto
  also have "\<dots> \<longleftrightarrow> a \<le> j \<and> j < b \<and> P j \<and> (\<forall>k. a \<le> k \<and> k < j \<longrightarrow> \<not> P k)"
  proof
    assume "\<exists>i < b - a. P (a + i) \<and> j = a + i \<and> (\<forall>k < i. \<not> P (a + k))"
    then obtain i where i: "i < b - a" "P (a + i)" "j = a + i" "\<forall>k < i. \<not> P (a + k)" by blast
    have "\<not> P k" if "a \<le> k" "k < j" for k
      using i(3) i(4) [rule_format, of "k - a"] that by simp
    then show "a \<le> j \<and> j < b \<and> P j \<and> (\<forall>k. a \<le> k \<and> k < j \<longrightarrow> \<not> P k)" using i by auto
  next
    assume "a \<le> j \<and> j < b \<and> P j \<and> (\<forall>k. a \<le> k \<and> k < j \<longrightarrow> \<not> P k)"
    then show "\<exists>i < b - a. P (a + i) \<and> j = a + i \<and> (\<forall>k < i. \<not> P (a + k))"
      by (intro exI [of _ "j - a"]) auto
  qed
  finally show ?thesis .
qed

lemma set_map_filter: "j \<in> set (List.map_filter f xs) \<longleftrightarrow> (\<exists>x \<in> set xs. f x = Some j)"
  by (induction xs) (auto simp: map_filter_simps split: option.splits)

lemma device_prerequisite_Some:
  "device_prerequisite releases by_reference first_index i d = Some j \<longleftrightarrow>
     dependent d = rr_phase (releases ! i) \<and> first_index \<le> j \<and> j < i \<and>
     (prerequisite d = rr_phase (releases ! j) \<and> by_reference ! j \<noteq> None) \<and>
     (\<forall>k. first_index \<le> k \<and> k < j \<and> by_reference ! k \<noteq> None \<longrightarrow> rr_phase (releases ! k) \<noteq> rr_phase (releases ! j))"
  unfolding device_prerequisite_def by (auto simp: find_upt_Some)

lemma set_prerequisites_of:
  "j \<in> set (prerequisites_of deps releases by_reference first_index i) \<longleftrightarrow>
     first_index \<le> j \<and> j < i \<and> by_reference ! j \<noteq> None \<and>
     (\<exists>d \<in> set deps. dependent d = rr_phase (releases ! i) \<and> prerequisite d = rr_phase (releases ! j)) \<and>
     (\<forall>k. first_index \<le> k \<and> k < j \<and> by_reference ! k \<noteq> None \<longrightarrow> rr_phase (releases ! k) \<noteq> rr_phase (releases ! j))"
  unfolding prerequisites_of_def set_map_filter device_prerequisite_Some by blast

text \<open>
  C31. For a record of a group, the device prerequisite slice of a compiled dispatch plan holds exactly
  the earlier device records of the same group whose phase the graph makes a prerequisite of the
  record's phase and that are the first device record of their phase in the group; the reported maximum
  is the largest number of device records in a group.
\<close>

theorem compile_rate_dispatch_prerequisites:
  assumes "compile_rate_dispatch ow tier policy deps plan cs dv out = (ok, disp, diag)"
    and "grp \<in> set (dp_groups disp)"
    and "rg_first_reference_index grp \<le> i" and "i < rg_first_reference_index grp + rg_reference_count grp"
  shows "(\<forall>j. j \<in> set (key_slice (dp_device_dependency_offsets disp) (dp_device_dependencies disp) i) \<longleftrightarrow>
      rg_first_reference_index grp \<le> j \<and> j < i \<and> dp_device_phase_by_reference disp ! j \<noteq> None \<and>
      (\<exists>d \<in> set deps. dependent d = rr_phase (plan_releases plan ! i) \<and>
         prerequisite d = rr_phase (plan_releases plan ! j)) \<and>
      (\<forall>k. rg_first_reference_index grp \<le> k \<and> k < j \<and> dp_device_phase_by_reference disp ! k \<noteq> None \<longrightarrow>
         rr_phase (plan_releases plan ! k) \<noteq> rr_phase (plan_releases plan ! j))) \<and>
    group_device_records (dp_device_phase_by_reference disp) grp \<le> dp_maximum_device_records_per_group disp"
proof -
  note t = dispatch_tables [OF assms(1)]
  have runs: "run_lengths (plan_releases plan) (dispatch_groups plan)"
    unfolding dispatch_groups_def by (rule groups_run_lengths)
  have walk: "dependency_slices_ok deps (plan_releases plan) (dispatch_devices plan dv) (dispatch_groups plan)
      (dp_device_dependency_offsets disp) (dp_device_dependencies disp) \<and>
    dp_maximum_device_records_per_group disp =
      Max (insert 0 (group_device_records (dispatch_devices plan dv) ` set (dispatch_groups plan)))"
    using device_group_walk_spec [OF run_lengths_consecutive [OF runs] _ _ t(7) [symmetric]]
      run_lengths_total [OF runs] by simp
  have "key_slice (dp_device_dependency_offsets disp) (dp_device_dependencies disp) i =
      prerequisites_of deps (plan_releases plan) (dispatch_devices plan dv) (rg_first_reference_index grp) i"
    using walk assms(2-4) unfolding dependency_slices_ok_def t(1) by blast
  moreover have "group_device_records (dispatch_devices plan dv) grp \<le> dp_maximum_device_records_per_group disp"
    using walk assms(2) unfolding t(1) by simp
  ultimately show ?thesis unfolding t(6) by (simp only: set_prerequisites_of) blast
qed

theorem compile_rate_dispatch_prerequisites_witness:
  "\<exists>disp. compile_rate_dispatch 7 tier_unspecified sample_policy [sample_dependency] sample_plan [sample_channel]
       sample_devices empty_dispatch_plan =
       (ok, disp, \<lparr>rx_status = ok, rx_message = None, rx_reference_index = None\<rparr>) \<and>
     set (key_slice (dp_device_dependency_offsets disp) (dp_device_dependencies disp) 2) = {1}"
proof -
  obtain disp where disp: "compile_rate_dispatch 7 tier_unspecified sample_policy [sample_dependency] sample_plan
      [sample_channel] sample_devices empty_dispatch_plan =
      (ok, disp, \<lparr>rx_status = ok, rx_message = None, rx_reference_index = None\<rparr>)"
    using sample_dispatches by blast
  let ?grp = "\<lparr>rg_first_reference_index = 1, rg_reference_count = 2, rg_domain_registration_index = 1,
       rg_domain_release_sequence = 0, rg_release_time_ns = 0\<rparr>"
  note t = dispatch_tables [OF disp]
  have grp: "?grp \<in> set (dp_groups disp)" unfolding t(1) sample_groups by simp
  have by_reference: "dp_device_phase_by_reference disp ! 1 = Some 0"
    unfolding t(6)
    by (simp add: dispatch_devices_def sample_plan_def sample_record_def device_phase_of_def sample_devices_def
        device_phases_def sample_device_phase_def admitted_by_def)
  have phases: "rr_phase (plan_releases sample_plan ! 1) = prerequisite sample_dependency"
      "rr_phase (plan_releases sample_plan ! 2) = dependent sample_dependency"
    by (simp_all add: sample_plan_def sample_record_def sample_dependency_def)
  have range: "1 \<le> j \<and> j < (2 :: nat) \<longleftrightarrow> j = 1" for j by auto
  have bounds: "rg_first_reference_index ?grp \<le> 2" "2 < rg_first_reference_index ?grp + rg_reference_count ?grp"
    by simp_all
  note dep = compile_rate_dispatch_prerequisites [OF disp grp bounds, THEN conjunct1, rule_format]
  have "j \<in> set (key_slice (dp_device_dependency_offsets disp) (dp_device_dependencies disp) 2) \<longleftrightarrow> j = 1" for j
  proof
    assume "j \<in> set (key_slice (dp_device_dependency_offsets disp) (dp_device_dependencies disp) 2)"
    then have "rg_first_reference_index ?grp \<le> j \<and> j < 2" unfolding dep by blast
    then show "j = 1" using range by simp
  next
    assume "j = 1"
    then show "j \<in> set (key_slice (dp_device_dependency_offsets disp) (dp_device_dependencies disp) 2)"
      unfolding dep using by_reference phases by simp
  qed
  then show ?thesis using disp by (intro exI [of _ disp]) blast
qed

section \<open>Due work\<close>

definition due_sequences :: "u64 \<Rightarrow> u64 \<Rightarrow> u64 \<Rightarrow> nat set" where
  "due_sequences period cursor_ns end_ns =
     {k. unat cursor_ns \<le> k * unat period \<and> k * unat period < unat end_ns}"

lemma due_sequences_interval:
  assumes "period \<noteq> 0"
  shows "due_sequences period c e = {ceil_nat (unat c) (unat period)..<ceil_nat (unat e) (unat period)}"
proof -
  have p: "0 < unat period" using assms by (simp add: unat_gt_0)
  have "ceil_nat (unat c) (unat period) \<le> k \<and> k < ceil_nat (unat e) (unat period) \<longleftrightarrow>
      unat c \<le> k * unat period \<and> k * unat period < unat e" for k
    using ceil_nat_le_iff [OF p, of "unat c" k] ceil_nat_le_iff [OF p, of "unat e" k] by linarith
  then show ?thesis
    by (simp only: due_sequences_def set_eq_iff mem_Collect_eq atLeastLessThan_iff simp_thms)
qed

lemma ceil_nat_mono: "0 < d \<Longrightarrow> v \<le> w \<Longrightarrow> ceil_nat v d \<le> ceil_nat w d"
  by (metis ceil_nat_le_iff le_trans order_refl)

lemma ceil_div_total:
  assumes "d \<noteq> 0"
  shows "ceil_div v d = Some (word_of_nat (ceil_nat (unat v) (unat d)))"
    and "unat (word_of_nat (ceil_nat (unat v) (unat d)) :: u64) = ceil_nat (unat v) (unat d)"
proof -
  have d: "0 < unat d" using assms by (simp add: unat_gt_0)
  then have "ceil_nat (unat v) (unat d) \<le> unat v"
    unfolding ceil_nat_le_iff [OF d] by simp
  then show *: "unat (word_of_nat (ceil_nat (unat v) (unat d)) :: u64) = ceil_nat (unat v) (unat d)"
    using unat_u64_less [of v] by (intro unat_of_nat_u64) simp
  then show "ceil_div v d = Some (word_of_nat (ceil_nat (unat v) (unat d)))"
    using assms by (simp add: ceil_div_Some)
qed

lemma count_due_domain_value:
  assumes "i < length (plan_domains plan)" and "period = cd_period_ns (plan_domains plan ! i)"
    and "records = dp_records_per_domain_release disp ! i" and "records \<le> size_max"
    and "c \<le> e" and "period \<noteq> 0" and "records \<noteq> 0" and "n = card (due_sequences period c e)"
  shows "count_due_domain_releases plan disp i c e =
    (if n * records < 18446744073709551616 then (ok, word_of_nat n, word_of_nat (n * records))
     else (capacity_exceeded, 0, 0))"
    and "n < 18446744073709551616"
proof -
  let ?first = "word_of_nat (ceil_nat (unat c) (unat period)) :: u64"
    and ?stop = "word_of_nat (ceil_nat (unat e) (unat period)) :: u64"
  have p: "0 < unat period" using assms(6) by (simp add: unat_gt_0)
  note first = ceil_div_total [OF assms(6), of c] and last = ceil_div_total [OF assms(6), of e]
  have le: "?first \<le> ?stop"
    unfolding word_le_nat_alt first(2) last(2)
    using assms(5) by (intro ceil_nat_mono [OF p]) (simp add: word_le_nat_alt)
  have n: "n = unat (?stop - ?first)"
    using le assms(8) by (simp add: due_sequences_interval [OF assms(6)] unat_sub first(2) last(2))
  then show small: "n < 18446744073709551616" using unat_u64_less by simp
  have words: "?stop - ?first = word_of_nat n" "unat (word_of_nat records :: u64) = records"
    using n assms(4) by (simp_all add: unat_of_nat_u64 size_max_def)
  have "unat (word_of_nat n :: u64) = n" using small by (rule unat_of_nat_u64)
  then have "checked_multiply (word_of_nat n) (word_of_nat records) =
      (if n * records < 18446744073709551616 then Some (word_of_nat (n * records)) else None)"
    using words(2) by (simp add: checked_multiply_eq)
  then show "count_due_domain_releases plan disp i c e =
    (if n * records < 18446744073709551616 then (ok, word_of_nat n, word_of_nat (n * records))
     else (capacity_exceeded, 0, 0))"
    unfolding count_due_domain_releases_def Let_def assms(2,3) [symmetric] first(1) last(1)
    using assms(1,5-7) le words(1) by (simp add: not_less [symmetric])
qed

text \<open>
  C32. The number of domain releases that \<open>count_due_domain_releases\<close> computes by two rounded divisions is
  the number of release times, multiples of the period, in the half-open interval from the
  cursor to the end, and the record count is that number times the records of one release; every
  invalid argument and every overflow is reported with zero counts.
\<close>

theorem count_due_domain_releases_eq:
  assumes "dp_records_per_domain_release disp ! i \<le> size_max"
  shows "count_due_domain_releases plan disp i c e =
    (if e < c \<or> length (plan_domains plan) \<le> i \<or> cd_period_ns (plan_domains plan ! i) = 0 \<or>
        dp_records_per_domain_release disp ! i = 0
     then (invalid_argument, 0, 0)
     else let n = card {k. unat c \<le> k * unat (cd_period_ns (plan_domains plan ! i)) \<and>
                           k * unat (cd_period_ns (plan_domains plan ! i)) < unat e};
              records = n * dp_records_per_domain_release disp ! i
          in if records < 2 ^ 64 then (ok, word_of_nat n, word_of_nat records) else (capacity_exceeded, 0, 0))"
proof (cases "e < c \<or> length (plan_domains plan) \<le> i \<or> cd_period_ns (plan_domains plan ! i) = 0 \<or>
    dp_records_per_domain_release disp ! i = 0")
  case True
  then show ?thesis by (auto simp: count_due_domain_releases_def Let_def)
next
  case False
  then show ?thesis
    using count_due_domain_value(1) [OF _ refl refl assms _ _ _ refl, of plan c e]
    by (simp add: Let_def due_sequences_def not_less not_le)
qed

theorem count_due_domain_releases_eq_witness:
  "count_due_domain_releases sample_plan (empty_dispatch_plan\<lparr>dp_records_per_domain_release := [3]\<rparr>) 0 5 15 =
     (ok, 2, 6)"
proof -
  have "{k. 5 \<le> k * 5 \<and> k * 5 < (15 :: nat)} = {1, 2}" by auto
  then show ?thesis
    using count_due_domain_releases_eq [of "empty_dispatch_plan\<lparr>dp_records_per_domain_release := [3]\<rparr>" 0 sample_plan 5 15]
    by (simp add: size_max_def sample_plan_def sample_rate_def Let_def)
qed

end
