(* ===== verification/Rate_Cycles.thy ===== *)
theory Rate_Cycles
  imports Rate_Schedule Dispatch_Properties
begin

text \<open>
  The rate timeline compiler feeds the dispatch compiler.  For the plans it produces, the records
  of one domain release are adjacent, every release of a domain has the same number of records,
  and the due-work counter over one supercycle agrees with the tables.
\<close>

section \<open>Runs of a sorted list\<close>

lemma runs_distinct:
  fixes \<kappa> :: "'t \<Rightarrow> 'k :: linorder"
  assumes "sorted (map \<kappa> (concat (map (\<lambda>g. replicate (c g) (t g)) gs)))"
    and "inj_on \<kappa> (t ` set gs)" and "\<forall>g \<in> set gs. 0 < c g" and "distinct_adj (map t gs)"
  shows "distinct (map t gs)"
  using assms
proof (induction gs)
  case Nil
  then show ?case by simp
next
  case (Cons g gs)
  let ?T = "concat (map (\<lambda>g. replicate (c g) (t g)) gs)"
  have later: "t h \<in> set ?T" if "h \<in> set gs" for h
    using that Cons.prems(3) by force
  have tl: "distinct (map t gs)"
  proof (rule Cons.IH)
    show "sorted (map \<kappa> ?T)" using Cons.prems(1) by (simp add: sorted_append)
    show "inj_on \<kappa> (t ` set gs)" using Cons.prems(2) by (rule inj_on_subset) auto
    show "distinct_adj (map t gs)" using Cons.prems(4) by (auto simp: distinct_adj_Cons)
  qed (use Cons.prems(3) in simp)
  have "t g \<notin> t ` set gs"
  proof
    assume "t g \<in> t ` set gs"
    then obtain h where h: "h \<in> set gs" "t h = t g" by auto
    then obtain g' gs' where gs: "gs = g' # gs'" by (cases gs) auto
    have apart: "t g \<noteq> t g'" using Cons.prems(4) by (simp add: gs)
    have pos: "0 < c g" "0 < c g'" using Cons.prems(3) gs by simp_all
    have "\<kappa> (t g) \<le> \<kappa> x" if "x \<in> set ?T" for x
      using Cons.prems(1) pos(1) that by (auto simp: sorted_append)
    then have "\<kappa> (t g) \<le> \<kappa> (t g')" using later [of g'] gs by simp
    moreover have "\<kappa> (t g') \<le> \<kappa> (t h)"
    proof (cases "h = g'")
      case False
      then have "t h \<in> set (concat (map (\<lambda>g. replicate (c g) (t g)) gs'))"
        using h(1) Cons.prems(3) gs by force
      then show ?thesis using Cons.prems(1) pos(2) by (auto simp: sorted_append gs)
    qed simp
    ultimately have "\<kappa> (t g) = \<kappa> (t g')" using h(2) by simp
    then show False using apart Cons.prems(2) by (auto simp: gs inj_on_def)
  qed
  then show ?case using tl by simp
qed

lemma runs_count:
  assumes "distinct (map t gs)" and "g \<in> set gs"
  shows "length (filter (\<lambda>x. x = t g) (concat (map (\<lambda>g. replicate (c g) (t g)) gs))) = c g"
  using assms
proof (induction gs)
  case Nil
  then show ?case by simp
next
  case (Cons h gs)
  have "t x \<noteq> t h" if "x \<in> set gs" for x
    using Cons.prems(1) that by (metis distinct.simps(2) image_eqI list.map(2) list.set_map)
  then have absent: "filter (\<lambda>x. x = t h) (concat (map (\<lambda>g. replicate (c g) (t g)) gs)) = []"
    by (auto simp: filter_empty_conv)
  show ?case
  proof (cases "g = h")
    case True
    then show ?thesis using absent by simp
  next
    case False
    then have g: "g \<in> set gs" using Cons.prems(2) by simp
    then have "t h \<noteq> t g" using Cons.prems(1) by auto
    then show ?thesis using Cons.IH g Cons.prems(1) by simp
  qed
qed

lemma runs_set:
  "\<forall>g \<in> set gs. 0 < c g \<Longrightarrow> set (concat (map (\<lambda>g. replicate (c g) (t g)) gs)) = t ` set gs"
  by (induction gs) auto

lemma filter_concat_tag:
  assumes "distinct (map h is)" and "i \<in> set is" and "\<forall>j \<in> set is. \<forall>x \<in> set (f j). tag x = h j"
  shows "filter (\<lambda>x. tag x = h i) (concat (map f is)) = f i"
  using assms
proof (induction "is")
  case Nil
  then show ?case by simp
next
  case (Cons j "is")
  show ?case
  proof (cases "i = j")
    case True
    have "h x \<noteq> h j" if "x \<in> set is" for x
      using Cons.prems(1) that by (metis distinct.simps(2) image_eqI list.map(2) list.set_map)
    then have "filter (\<lambda>x. tag x = h i) (concat (map f is)) = []"
      using Cons.prems(3) True by (auto simp: filter_empty_conv)
    moreover have "filter (\<lambda>x. tag x = h i) (f j) = f i"
      using Cons.prems(3) True by (simp add: filter_id_conv)
    ultimately show ?thesis by simp
  next
    case False
    then have i: "i \<in> set is" using Cons.prems(2) by simp
    then have "h j \<noteq> h i" using Cons.prems(1) by auto
    then have "filter (\<lambda>x. tag x = h i) (f j) = []"
      using Cons.prems(3) by (auto simp: filter_empty_conv)
    then show ?thesis using Cons.IH i Cons.prems by simp
  qed
qed

lemma word_of_nat_inj:
  assumes "m < 18446744073709551616"
  shows "inj_on (word_of_nat :: nat \<Rightarrow> u64) {..<m}"
proof (rule inj_onI)
  fix x y
  assume "x \<in> {..<m}" and "y \<in> {..<m}"
  then have "x < 18446744073709551616" and "y < 18446744073709551616" using assms by simp_all
  note u = this [THEN unat_of_nat_u64]
  assume "(word_of_nat x :: u64) = word_of_nat y"
  from arg_cong [OF this, of unat] show "x = y" unfolding u .
qed

section \<open>Records of one domain release\<close>

lemma records_of_release:
  assumes "i < length ds" and "s < sc div domain_period (ds ! i)" and "sc < 18446744073709551616"
  shows "length (filter (\<lambda>r. release_tag r = (i, word_of_nat s)) (expected_releases sc cbs ds)) =
    length (filter (\<lambda>b. rate_domain_number (cb_domain b) = i) cbs) * unat (rd_substep_count (ds ! i))"
proof -
  have dom: "filter (\<lambda>r. rr_domain_registration_index r = fst (i, ds ! i)) (expected_releases sc cbs ds) =
      (\<lambda>(i, d). expected_domain sc cbs i d) (i, ds ! i)"
    unfolding expected_releases_def
  proof (rule filter_concat_tag [where h = fst])
    show "(i, ds ! i) \<in> set (enumerate 0 ds)" using assms(1) by (simp add: in_set_enumerate_eq)
    show "\<forall>x \<in> set (enumerate 0 ds). \<forall>r \<in> set ((\<lambda>(i, d). expected_domain sc cbs i d) x).
        rr_domain_registration_index r = fst x"
      by (auto simp: expected_domain_def expected_sequence_def release_of_def)
  qed simp
  have small: "sc div domain_period (ds ! i) < 18446744073709551616"
    by (rule le_less_trans [OF div_le_dividend assms(3)])
  have inj: "inj_on (word_of_nat :: nat \<Rightarrow> u64) {0..<sc div domain_period (ds ! i)}"
    unfolding atLeast0LessThan by (rule word_of_nat_inj [OF small])
  have seq: "filter (\<lambda>r. rr_domain_release_sequence r = word_of_nat s) (expected_domain sc cbs i (ds ! i)) =
      expected_sequence cbs i (ds ! i) s"
    unfolding expected_domain_def
  proof (rule filter_concat_tag [where h = "word_of_nat"])
    show "distinct (map (word_of_nat :: nat \<Rightarrow> u64) [0..<sc div domain_period (ds ! i)])"
      using inj by (simp add: distinct_map)
    show "\<forall>j \<in> set [0..<sc div domain_period (ds ! i)]. \<forall>r \<in> set (expected_sequence cbs i (ds ! i) j).
        rr_domain_release_sequence r = word_of_nat j"
      by (auto simp: expected_sequence_def release_of_def)
  qed (use assms(2) in simp)
  have "filter (\<lambda>r. release_tag r = (i, word_of_nat s)) (expected_releases sc cbs ds) =
      filter (\<lambda>r. rr_domain_release_sequence r = word_of_nat s)
        (filter (\<lambda>r. rr_domain_registration_index r = i) (expected_releases sc cbs ds))"
    by (simp add: conj_commute)
  also have "\<dots> = expected_sequence cbs i (ds ! i) s"
    using dom seq by (simp only: fst_conv case_prod_conv)
  finally show ?thesis
    unfolding expected_sequence_def by (simp add: length_concat comp_def sum_list_triv)
qed

section \<open>Groups of a compiled plan\<close>

definition cycle_key :: "rate_domain_spec list \<Rightarrow> nat \<times> u64 \<Rightarrow> nat \<times> nat" where
  "cycle_key ds x = (unat (snd x) * domain_period (ds ! fst x), fst x)"

lemma release_cycle_key:
  assumes "r \<in> set (expected_releases sc cbs ds)" and "sc < 18446744073709551616"
    and "\<forall>d \<in> set ds. 0 < domain_period d \<and> domain_period d dvd sc"
  shows "cycle_key ds (release_tag r) = (unat (rr_release_time_ns r), rr_domain_registration_index r)"
    and "rr_domain_registration_index r < length ds"
    and "unat (rr_domain_release_sequence r) < sc div domain_period (ds ! rr_domain_registration_index r)"
proof -
  obtain i s b k where i: "i < length ds" and s: "s < sc div domain_period (ds ! i)"
    and r: "r = release_of i (ds ! i) (word_of_nat s) (word_of_nat (s * domain_period (ds ! i)))
              (word_of_nat (s * domain_period (ds ! i) + unat (rd_relative_deadline_ns (ds ! i)))) b k"
    using assms(1) unfolding in_expected_releases by blast
  let ?p = "domain_period (ds ! i)"
  have p: "0 < ?p" "?p dvd sc" using assms(3) i by simp_all
  have "s * ?p < sc" using s p by (metis dvd_div_mult_self mult_less_cancel2)
  then have t: "unat (word_of_nat (s * ?p) :: u64) = s * ?p" using assms(2) by (intro unat_of_nat_u64) simp
  have "s < 18446744073709551616" using less_trans [OF s le_less_trans [OF div_le_dividend assms(2)]] .
  then have sq: "unat (word_of_nat s :: u64) = s" by (rule unat_of_nat_u64)
  show "cycle_key ds (release_tag r) = (unat (rr_release_time_ns r), rr_domain_registration_index r)"
    using t sq by (simp add: cycle_key_def r release_of_def del: of_nat_mult)
  show "rr_domain_registration_index r < length ds" using i by (simp add: r release_of_def)
  show "unat (rr_domain_release_sequence r) < sc div domain_period (ds ! rr_domain_registration_index r)"
    using s sq by (simp add: r release_of_def)
qed

lemma cycle_key_inj:
  assumes "\<forall>d \<in> set ds. 0 < domain_period d"
  shows "inj_on (cycle_key ds) {x. fst x < length ds}"
proof (rule inj_onI)
  fix x y
  assume "x \<in> {x. fst x < length ds}" and eq: "cycle_key ds x = cycle_key ds y"
  then have "0 < domain_period (ds ! fst x)" using assms by simp
  then show "x = y" using eq by (auto simp: cycle_key_def prod_eq_iff word_unat_eq_iff)
qed

lemma sorted_map_weaken:
  assumes "sorted_wrt R xs" and "\<And>x y. x \<in> set xs \<Longrightarrow> y \<in> set xs \<Longrightarrow> R x y \<Longrightarrow> f x \<le> f y"
  shows "sorted (map f xs)"
  unfolding sorted_map using assms by (rule sorted_wrt_mono_rel [rotated])

lemma length_filter_mset: "mset xs = mset ys \<Longrightarrow> length (filter P xs) = length (filter P ys)"
  by (metis mset_filter size_mset)

lemma plan_groups:
  assumes "rate_admissible ow n order ds bs" and "length order = n" and "length bs = n"
    and "\<forall>j < n. bbp ! binding_phase (bs ! j) = Some j" and "plan = plan_for ow order ds bs bbp"
  shows "distinct (map group_tag (dispatch_groups plan))"
    and "grp \<in> set (dispatch_groups plan) \<Longrightarrow> rg_reference_count grp =
      phases_of_domain bs (rg_domain_registration_index grp) *
      unat (rd_substep_count (ds ! rg_domain_registration_index grp))"
    and "group_tag ` set (dispatch_groups plan) = release_tag ` set (plan_releases plan)"
proof -
  note adm = rate_admissibleD [OF assms(1)] and parts = plan_for_parts [OF assms(1-4), folded assms(5)]
  let ?sc = "supercycle_of ds" and ?cbs = "plan_bindings plan"
  let ?gs = "dispatch_groups plan"
  have bound: "?cbs = map (\<lambda>(i, p). compiled_binding bs bbp i p) (enumerate 0 order)"
    by (simp add: assms(5) plan_for_def Let_def)
  have runs: "run_lengths (plan_releases plan) ?gs"
    unfolding dispatch_groups_def by (rule groups_run_lengths)
  note tags = run_lengths_tags [OF runs]
  have pos: "\<forall>g \<in> set ?gs. 0 < rg_reference_count g" and adj: "distinct_adj (map group_tag ?gs)"
    using runs by (simp_all add: run_lengths_def)
  show image: "group_tag ` set ?gs = release_tag ` set (plan_releases plan)"
    using runs_set [OF pos, of group_tag] unfolding tags by simp
  note key = release_cycle_key [OF _ adm(1,3), of _ ?cbs, folded parts(4)]
  have "sorted_wrt (\<lambda>r r'. release_key r < release_key r') (plan_releases plan)"
    using parts(2) by (simp add: sorted_wrt_map)
  then have "sorted (map (\<lambda>r. cycle_key ds (release_tag r)) (plan_releases plan))"
    by (rule sorted_map_weaken) (auto simp: key(1) release_key_def word_less_nat_alt less_eq_prod_def word_le_nat_alt)
  then have sorted: "sorted (map (cycle_key ds) (concat (map (\<lambda>g. replicate (rg_reference_count g) (group_tag g)) ?gs)))"
    unfolding tags by (simp add: comp_def)
  have "group_tag ` set ?gs \<subseteq> {x. fst x < length ds}"
    unfolding image using key(2) by auto
  then have "inj_on (cycle_key ds) (group_tag ` set ?gs)"
    using cycle_key_inj [of ds] adm(3) by (blast intro: inj_on_subset)
  from runs_distinct [OF sorted this pos adj] show dist: "distinct (map group_tag ?gs)" .
  show "rg_reference_count grp = phases_of_domain bs (rg_domain_registration_index grp) *
      unat (rd_substep_count (ds ! rg_domain_registration_index grp))" if grp: "grp \<in> set ?gs"
  proof -
    have "group_tag grp \<in> release_tag ` set (plan_releases plan)" unfolding image [symmetric] using grp by (rule imageI)
    then obtain r where r: "r \<in> set (plan_releases plan)" "group_tag grp = release_tag r" by (elim imageE)
    let ?i = "rr_domain_registration_index r" and ?s = "unat (rr_domain_release_sequence r)"
    have "rg_reference_count grp = length (filter (\<lambda>x. x = group_tag grp) (map release_tag (plan_releases plan)))"
      using runs_count [OF dist grp, of rg_reference_count] unfolding tags by simp
    also have "\<dots> = length (filter (\<lambda>r'. release_tag r' = (?i, word_of_nat ?s)) (plan_releases plan))"
      unfolding r(2) by (simp add: filter_map comp_def)
    also have "\<dots> = length (filter (\<lambda>r'. release_tag r' = (?i, word_of_nat ?s)) (expected_releases ?sc ?cbs ds))"
    proof -
      have "mset (plan_releases plan) = mset (expected_releases ?sc ?cbs ds)"
        by (simp add: assms(5) plan_for_def Let_def)
      then show ?thesis by (rule length_filter_mset)
    qed
    also have "\<dots> = length (filter (\<lambda>b. rate_domain_number (cb_domain b) = ?i) ?cbs) * unat (rd_substep_count (ds ! ?i))"
      by (rule records_of_release [OF key(2) [OF r(1)] key(3) [OF r(1)] adm(1)])
    also have "length (filter (\<lambda>b. rate_domain_number (cb_domain b) = ?i) ?cbs) = phases_of_domain bs ?i"
      unfolding bound by (rule domain_binding_count [OF selected_bindings(1) [OF adm(4) assms(3) adm(5) assms(2,4)]])
    finally show ?thesis using r(2) by simp
  qed
qed

lemma release_tags:
  assumes "rate_admissible ow n order ds bs" and "length order = n" and "length bs = n"
    and "\<forall>j < n. bbp ! binding_phase (bs ! j) = Some j" and "plan = plan_for ow order ds bs bbp"
  shows "release_tag ` set (plan_releases plan) =
    (SIGMA i:{..<length ds}. word_of_nat ` {..<supercycle_of ds div domain_period (ds ! i)})"
proof -
  note adm = rate_admissibleD [OF assms(1)] and parts = plan_for_parts [OF assms(1-4), folded assms(5)]
  have bound: "plan_bindings plan = map (\<lambda>(i, p). compiled_binding bs bbp i p) (enumerate 0 order)"
    by (simp add: assms(5) plan_for_def Let_def)
  have owned: "\<exists>b \<in> set (plan_bindings plan). rate_domain_number (cb_domain b) = i" if "i < length ds" for i
  proof -
    have "0 < phases_of_domain bs i" using assms(1) that by (simp add: rate_admissible_def ownership_ok_def)
    then have "0 < length (filter (\<lambda>b. rate_domain_number (cb_domain b) = i) (plan_bindings plan))"
      unfolding bound domain_binding_count [OF selected_bindings(1) [OF adm(4) assms(3) adm(5) assms(2,4)]] .
    then show ?thesis by (auto simp: filter_empty_conv)
  qed
  have subs: "0 < unat (rd_substep_count (ds ! i))" if "i < length ds" for i
    using assms(1) that nth_mem [OF that] by (auto simp: rate_admissible_def domain_rejected_def unat_gt_0)
  show ?thesis
  proof (intro set_eqI iffI)
    fix x
    assume "x \<in> release_tag ` set (plan_releases plan)"
    then show "x \<in> (SIGMA i:{..<length ds}. word_of_nat ` {..<supercycle_of ds div domain_period (ds ! i)})"
      unfolding parts(4) by (auto simp: in_expected_releases release_of_def)
  next
    fix x
    assume "x \<in> (SIGMA i:{..<length ds}. (word_of_nat :: nat \<Rightarrow> u64) ` {..<supercycle_of ds div domain_period (ds ! i)})"
    then obtain i s where i: "i < length ds" and s: "s < supercycle_of ds div domain_period (ds ! i)"
      and x: "x = (i, word_of_nat s)" by auto
    obtain b where b: "b \<in> set (plan_bindings plan)" "rate_domain_number (cb_domain b) = i" using owned [OF i] by blast
    let ?r = "release_of i (ds ! i) (word_of_nat s) (word_of_nat (s * domain_period (ds ! i)))
        (word_of_nat (s * domain_period (ds ! i) + unat (rd_relative_deadline_ns (ds ! i)))) b 0"
    have "?r \<in> set (plan_releases plan)"
      unfolding parts(4) in_expected_releases using i s b subs [OF i] by blast
    moreover have "x = release_tag ?r" by (simp add: x release_of_def)
    ultimately show "x \<in> release_tag ` set (plan_releases plan)" by (rule image_eqI [rotated])
  qed
qed

section \<open>Counting one supercycle\<close>

lemma add_due_counts_sum:
  assumes "\<forall>i \<in> set is. count_due_domain_releases plan disp i c e = (ok, word_of_nat (a i), word_of_nat (b i))"
    and "A + sum_list (map a is) < 18446744073709551616" and "B + sum_list (map b is) < 18446744073709551616"
  shows "add_due_counts plan disp c e is \<lparr>due_domain_releases = word_of_nat A, due_reference_records = word_of_nat B\<rparr> =
    Some \<lparr>due_domain_releases = word_of_nat (A + sum_list (map a is)),
          due_reference_records = word_of_nat (B + sum_list (map b is))\<rparr>"
  using assms
proof (induction "is" arbitrary: A B)
  case Nil
  then show ?case by simp
next
  case (Cons i "is")
  have sum: "checked_add (word_of_nat x) (word_of_nat y) = Some (word_of_nat (x + y))"
    if "x + y < 18446744073709551616" for x y
  proof -
    have "unat (word_of_nat x :: u64) = x" and "unat (word_of_nat y :: u64) = y"
      using that by (simp_all only: unat_of_nat_u64)
    then show ?thesis using that by (simp add: checked_add_eq)
  qed
  show ?case
    using Cons.IH [of "A + a i" "B + b i"] Cons.prems sum [of A "a i"] sum [of B "b i"]
    by (simp add: add.assoc del: of_nat_add)
qed

lemma due_over_cycle:
  assumes "period \<noteq> 0" and "unat period dvd unat sc"
  shows "card (due_sequences period 0 sc) = unat sc div unat period"
proof -
  have "unat sc mod unat period = 0" using assms(2) by simp
  then show ?thesis by (simp add: due_sequences_interval [OF assms(1)] ceil_nat_def)
qed

lemma cycle_totals:
  assumes "rate_admissible ow n order ds bs" and "length order = n" and "length bs = n"
    and "\<forall>j < n. bbp ! binding_phase (bs ! j) = Some j" and "plan = plan_for ow order ds bs bbp"
  shows "length (dispatch_groups plan) = (\<Sum>i < length ds. supercycle_of ds div domain_period (ds ! i))"
    and "length (plan_releases plan) = (\<Sum>i < length ds. supercycle_of ds div domain_period (ds ! i) *
      (phases_of_domain bs i * unat (rd_substep_count (ds ! i))))"
    and "i < length ds \<Longrightarrow> 0 < phases_of_domain bs i * unat (rd_substep_count (ds ! i))"
    and "i < length ds \<Longrightarrow> \<exists>grp \<in> set (dispatch_groups plan). rg_domain_registration_index grp = i"
proof -
  note adm = rate_admissibleD [OF assms(1)] and parts = plan_for_parts [OF assms(1-4), folded assms(5)]
  note grps = plan_groups [OF assms]
  have "inj_on (word_of_nat :: nat \<Rightarrow> u64) {..<supercycle_of ds div domain_period (ds ! i)}" for i
    using word_of_nat_inj [of "supercycle_of ds div domain_period (ds ! i)"]
      le_less_trans [OF div_le_dividend adm(1)] by blast
  then have "card ((word_of_nat :: nat \<Rightarrow> u64) ` {..<supercycle_of ds div domain_period (ds ! i)}) =
      supercycle_of ds div domain_period (ds ! i)" for i
    by (simp add: card_image)
  then have "card (group_tag ` set (dispatch_groups plan)) =
      (\<Sum>i < length ds. supercycle_of ds div domain_period (ds ! i))"
    unfolding grps(3) release_tags [OF assms] by (subst card_SigmaI) simp_all
  then show "length (dispatch_groups plan) = (\<Sum>i < length ds. supercycle_of ds div domain_period (ds ! i))"
    using distinct_card [OF grps(1)] by simp
  show "length (plan_releases plan) = (\<Sum>i < length ds. supercycle_of ds div domain_period (ds ! i) *
      (phases_of_domain bs i * unat (rd_substep_count (ds ! i))))"
    unfolding parts(3)
    by (simp add: total_entries_def domain_entries_def sum_list_sum_nth atLeast0LessThan mult.assoc)
  have d: "\<not> domain_rejected (ds ! i)" if "i < length ds" for i
    using assms(1) that by (simp add: rate_admissible_def)
  show "0 < phases_of_domain bs i * unat (rd_substep_count (ds ! i))" if "i < length ds"
    using assms(1) d [OF that] that
    by (simp add: rate_admissible_def ownership_ok_def domain_rejected_def unat_gt_0)
  show "\<exists>grp \<in> set (dispatch_groups plan). rg_domain_registration_index grp = i" if i: "i < length ds"
  proof -
    have "0 < supercycle_of ds div domain_period (ds ! i)"
      using adm(2,3) i by (simp add: div_greater_zero_iff dvd_imp_le)
    then have "(i, word_of_nat 0) \<in> group_tag ` set (dispatch_groups plan)"
      unfolding grps(3) release_tags [OF assms] using i by blast
    then show ?thesis by auto
  qed
qed

lemma counted_cycle:
  assumes "rate_admissible ow n order ds bs" and "length order = n" and "length bs = n"
    and "\<forall>j < n. bbp ! binding_phase (bs ! j) = Some j" and plan: "plan = plan_for ow order ds bs bbp"
    and records: "\<forall>i < length ds. dp_records_per_domain_release disp ! i =
      phases_of_domain bs i * unat (rd_substep_count (ds ! i))"
  shows "count_due_rate_work plan disp 0 (plan_supercycle_ns plan) out =
    (ok, \<lparr>due_domain_releases = word_of_nat (length (dispatch_groups plan)),
          due_reference_records = word_of_nat (length (plan_releases plan))\<rparr>)"
proof -
  note adm = rate_admissibleD [OF assms(1)] and parts = plan_for_parts [OF assms(1-4), folded plan]
    and totals = cycle_totals [OF assms(1-5)]
  let ?a = "\<lambda>i. supercycle_of ds div domain_period (ds ! i)"
    and ?r = "\<lambda>i. phases_of_domain bs i * unat (rd_substep_count (ds ! i))"
  have len: "length (plan_domains plan) = length ds" and
    period: "i < length ds \<Longrightarrow> cd_period_ns (plan_domains plan ! i) = rd_period_ns (ds ! i)" for i
    by (simp_all add: plan plan_for_def Let_def compile_domains_def nth_enumerate_eq compile_domain_def)
  have small: "length (plan_releases plan) \<le> 65536" using parts(3) adm(7) by simp
  have one: "count_due_domain_releases plan disp i 0 (plan_supercycle_ns plan) =
      (ok, word_of_nat (?a i), word_of_nat (?a i * ?r i)) \<and> ?a i \<le> ?a i * ?r i" if i: "i < length ds" for i
  proof -
    have d: "0 < domain_period (ds ! i)" "domain_period (ds ! i) dvd unat (plan_supercycle_ns plan)"
      using adm(3) parts(1) i by simp_all
    have p: "rd_period_ns (ds ! i) \<noteq> 0" using d(1) by auto
    have n: "?a i = card (due_sequences (rd_period_ns (ds ! i)) 0 (plan_supercycle_ns plan))"
      unfolding due_over_cycle [OF p d(2)] parts(1) ..
    have "?a i * ?r i \<le> (\<Sum>i < length ds. ?a i * ?r i)"
      using i by (intro member_le_sum) simp_all
    then have le: "?a i * ?r i \<le> 65536" using totals(2) small by simp
    have "0 < ?a i" using adm(2,3) i by (simp add: div_greater_zero_iff dvd_imp_le)
    then have "?r i \<le> ?a i * ?r i" by simp
    then have "?r i \<le> 65536" using le by (rule order_trans)
    then have "?r i \<le> size_max" by (simp add: size_max_def)
    then have "count_due_domain_releases plan disp i 0 (plan_supercycle_ns plan) =
      (if ?a i * ?r i < 18446744073709551616 then (ok, word_of_nat (?a i), word_of_nat (?a i * ?r i))
       else (capacity_exceeded, 0, 0))"
      using records i totals(3) [OF i] p len
      by (intro count_due_domain_value(1) [OF _ period [OF i, symmetric] _ _ _ _ _ n]) simp_all
    then show ?thesis using le totals(3) [OF i] by (simp del: of_nat_mult)
  qed
  have sums: "sum_list (map f [0..<length ds]) = (\<Sum>i < length ds. f i)" for f :: "nat \<Rightarrow> nat"
    by (simp add: interv_sum_list_conv_sum_set_nat atLeast0LessThan)
  have "(\<Sum>i < length ds. ?a i) \<le> (\<Sum>i < length ds. ?a i * ?r i)"
    using one by (intro sum_mono) simp
  then have groups: "length (dispatch_groups plan) \<le> 65536" using totals(1,2) small by simp
  have "add_due_counts plan disp 0 (plan_supercycle_ns plan) [0..<length ds]
      \<lparr>due_domain_releases = word_of_nat 0, due_reference_records = word_of_nat 0\<rparr> =
    Some \<lparr>due_domain_releases = word_of_nat (0 + sum_list (map ?a [0..<length ds])),
      due_reference_records = word_of_nat (0 + sum_list (map (\<lambda>i. ?a i * ?r i) [0..<length ds]))\<rparr>"
    using one small groups unfolding totals(1,2) by (intro add_due_counts_sum) (simp_all add: sums)
  then show ?thesis
    unfolding count_due_rate_work_def len totals(1,2) by (simp only: sums) simp
qed

section \<open>Properties\<close>

text \<open>
  C33. For a plan that the timeline compiler produced, the dispatch compiler forms one group for every
  release of every domain in the supercycle, every release of domain i has as many records as the
  domain has phases times substeps, and counting the work due from zero to the supercycle boundary
  gives exactly the number of groups and the number of reference records.
\<close>

theorem compiled_cycle_counts:
  assumes "compile_rate_timeline ow n order ds bs out1 = (ok, plan, diag1)" and "ds \<noteq> []"
    and "compile_rate_dispatch ow' tier policy deps plan cs dv out2 = (ok, disp, diag2)"
  shows "distinct (map group_tag (dp_groups disp)) \<and>
    (\<forall>i < length ds. dp_records_per_domain_release disp ! i =
       phases_of_domain bs i * unat (rd_substep_count (ds ! i))) \<and>
    length (dp_groups disp) = (\<Sum>i < length ds. unat (plan_supercycle_ns plan) div unat (rd_period_ns (ds ! i))) \<and>
    count_due_rate_work plan disp 0 (plan_supercycle_ns plan) out3 =
      (ok, \<lparr>due_domain_releases = word_of_nat (length (dp_groups disp)),
            due_reference_records = word_of_nat (length (plan_releases plan))\<rparr>)"
proof -
  obtain bbp where len: "length order = n" "length bs = n" and adm: "rate_admissible ow n order ds bs"
    and bbp: "\<forall>j < n. bbp ! binding_phase (bs ! j) = Some j" and plan: "plan = plan_for ow order ds bs bbp"
    by (rule compile_rate_timeline_okE [OF assms(1,2)])
  note totals = cycle_totals [OF adm len bbp plan] and grps = plan_groups [OF adm len bbp plan]
  have records: "dp_records_per_domain_release disp ! i = phases_of_domain bs i * unat (rd_substep_count (ds ! i))"
    if i: "i < length ds" for i
  proof (rule dispatch_ok_parts [OF assms(3)])
    fix w records
    assume cap: "length (plan_domains plan) \<le> rate_domain_capacity"
      and recs: "list_all (record_ok plan (device_phases dv)) (plan_releases plan)"
      and counts: "count_group_records (dispatch_groups plan) (replicate rate_domain_capacity 0) = Inr records"
      and disp: "disp = assemble_dispatch policy deps plan cs w records"
    obtain grp where grp: "grp \<in> set (dispatch_groups plan)" "rg_domain_registration_index grp = i"
      using totals(4) [OF i] by blast
    have "\<forall>grp \<in> set (dispatch_groups plan).
        0 < rg_reference_count grp \<and> rg_domain_registration_index grp < length (replicate rate_domain_capacity (0 :: nat))"
      using groups_of_records [OF recs] cap by (fastforce intro: less_le_trans)
    from count_group_records_sound [OF counts this] have "records ! i = rg_reference_count grp"
      using grp by blast
    then show ?thesis using grps(2) [OF grp(1)] grp(2) by (simp add: disp assemble_parts)
  qed
  show ?thesis
    unfolding dispatch_tables(1) [OF assms(3)]
    using grps(1) records totals(1) counted_cycle [OF adm len bbp plan, of disp out3]
      plan_for_parts(1) [OF adm len bbp, folded plan] by simp
qed

definition sample_cycle_plan :: compiled_rate_plan where
  "sample_cycle_plan = plan_for 7 [phase_handle_of 7 0] [sample_domain] [sample_binding] [Some 0]"

lemma sample_cycle_compiles:
  "compile_rate_timeline 7 1 [phase_handle_of 7 0] [sample_domain] [sample_binding] empty_rate_plan =
     (ok, sample_cycle_plan, \<lparr>rc_status = ok, rc_message = None\<rparr>)"
proof -
  have "supercycle_of [sample_domain] = 5" by (simp add: supercycle_of_def sample_domain_def)
  then show ?thesis
    by (simp add: sample_cycle_plan_def plan_for_def expected_releases_def expected_domain_def
        expected_sequence_def compiled_binding_def sample_domain_def sample_binding_def compile_rate_eval)
qed

lemma sample_cycle_dispatches:
  "\<exists>disp. compile_rate_dispatch 7 tier_unspecified sample_policy [] sample_cycle_plan [] None empty_dispatch_plan =
     (ok, disp, \<lparr>rx_status = ok, rx_message = None, rx_reference_index = None\<rparr>)"
proof -
  note eval = sample_cycle_plan_def plan_for_def Let_def supercycle_of_def sample_handles compile_domains_def compile_domain_def
    expected_releases_def expected_domain_def expected_sequence_def compiled_binding_def release_of_def
    sample_domain_def sample_binding_def
  have "\<not> policy_rejected sample_policy"
    by (simp add: sample_policy_def policy_rejected_def rate_policy_threshold_limit_def
        rate_telemetry_capacity_limit_def reference_release_capacity_def)
  moreover have "\<not> plan_unusable sample_cycle_plan"
    by (simp add: plan_unusable_def rate_domain_capacity_def eval)
  moreover have "dispatch_valid 7 [] sample_cycle_plan [] None"
    by (simp add: dispatch_valid_def active_domain_rejected_def valid_action_def device_binding_rejected_def
        active_binding_rejected_def eval)
  moreover have "list_all (record_ok sample_cycle_plan (device_phases None)) (plan_releases sample_cycle_plan)"
    by (simp add: record_ok_def eval)
  moreover have "lane_schedule 0 (unat (plan_supercycle_ns sample_cycle_plan)) (plan_releases sample_cycle_plan) (\<lambda>_. 0)"
    by (simp add: lane_schedule_def eval)
  moreover have "counts_agree (dispatch_groups sample_cycle_plan)"
    by (simp add: counts_agree_def dispatch_groups_def extend_groups_def eval)
  ultimately have "\<exists>disp. compile_dispatch_checked 7 tier_unspecified sample_policy [] sample_cycle_plan [] None = Inr disp"
    unfolding dispatch_accepted by blast
  then show ?thesis by (auto simp: compile_rate_dispatch_def)
qed

theorem compiled_cycle_counts_witness:
  "\<exists>disp. compile_rate_timeline 7 1 [phase_handle_of 7 0] [sample_domain] [sample_binding] empty_rate_plan =
       (ok, sample_cycle_plan, \<lparr>rc_status = ok, rc_message = None\<rparr>) \<and>
     compile_rate_dispatch 7 tier_unspecified sample_policy [] sample_cycle_plan [] None empty_dispatch_plan =
       (ok, disp, \<lparr>rx_status = ok, rx_message = None, rx_reference_index = None\<rparr>) \<and>
     length (dp_groups disp) = 1"
proof -
  obtain disp where disp: "compile_rate_dispatch 7 tier_unspecified sample_policy [] sample_cycle_plan [] None
      empty_dispatch_plan = (ok, disp, \<lparr>rx_status = ok, rx_message = None, rx_reference_index = None\<rparr>)"
    using sample_cycle_dispatches by blast
  have "supercycle_of [sample_domain] = 5" by (simp add: supercycle_of_def sample_domain_def)
  then have "plan_supercycle_ns sample_cycle_plan = 5" by (simp add: sample_cycle_plan_def plan_for_def Let_def)
  then show ?thesis
    using sample_cycle_compiles disp compiled_cycle_counts [OF sample_cycle_compiles _ disp]
    by (intro exI [of _ disp]) (simp add: sample_domain_def)
qed

end
