(* ===== verification/Canonical_Bytes.thy ===== *)
theory Canonical_Bytes
  imports Rt_Prelude
begin

text \<open>
  The little-endian loads and stores of \<^verbatim>\<open>rt/include/rt/canonical_bytes.hpp\<close>.  A span of bytes is a
  list of 8-bit words.  A store that does not fit is None and leaves the buffer alone; a load that
  does not fit is None.
\<close>

type_synonym bytes = "u8 list"

section \<open>Stores and loads\<close>

definition store_u32_le :: "bytes \<Rightarrow> nat \<Rightarrow> u32 \<Rightarrow> bytes option" where
  "store_u32_le output offset v =
     (if offset > length output \<or> length output - offset < 4 then None
      else Some (fold (\<lambda>index out. out[offset + index := ucast (drop_bit (index * 8) v AND 0xff)])
             [0..<4] output))"

definition store_u64_le :: "bytes \<Rightarrow> nat \<Rightarrow> u64 \<Rightarrow> bytes option" where
  "store_u64_le output offset v =
     (if offset > length output \<or> length output - offset < 8 then None
      else Some (fold (\<lambda>index out. out[offset + index := ucast (drop_bit (index * 8) v AND 0xff)])
             [0..<8] output))"

definition load_u32_le :: "bytes \<Rightarrow> nat \<Rightarrow> u32 option" where
  "load_u32_le input offset =
     (if offset > length input \<or> length input - offset < 4 then None
      else Some (fold (\<lambda>index v. v OR push_bit (index * 8) (ucast (input ! (offset + index))))
             [0..<4] 0))"

definition load_u64_le :: "bytes \<Rightarrow> nat \<Rightarrow> u64 option" where
  "load_u64_le input offset =
     (if offset > length input \<or> length input - offset < 8 then None
      else Some (fold (\<lambda>index v. v OR push_bit (index * 8) (ucast (input ! (offset + index))))
             [0..<8] 0))"

section \<open>Blocks\<close>

named_theorems block_simps

definition slice :: "nat \<Rightarrow> nat \<Rightarrow> 'a list \<Rightarrow> 'a list" where
  "slice off n xs = take n (drop off xs)"

definition put :: "nat \<Rightarrow> 'a list \<Rightarrow> 'a list \<Rightarrow> 'a list" where
  "put off bs xs = take off xs @ bs @ drop (off + length bs) xs"

lemma length_put [simp]: "off + length bs \<le> length xs \<Longrightarrow> length (put off bs xs) = length xs"
  by (simp add: put_def)

lemma length_slice [simp]: "off + n \<le> length xs \<Longrightarrow> length (slice off n xs) = n"
  by (simp add: slice_def)

lemma nth_put:
  assumes "off + length bs \<le> length xs"
  shows "put off bs xs ! i =
    (if i < off then xs ! i else if i < off + length bs then bs ! (i - off) else xs ! i)"
proof -
  consider "i < off" | "off \<le> i" "i < off + length bs" | "off + length bs \<le> i" by linarith
  then show ?thesis
    by cases (use assms in \<open>auto simp: put_def nth_append\<close>)
qed

lemma nth_slice: "off + n \<le> length xs \<Longrightarrow> i < n \<Longrightarrow> slice off n xs ! i = xs ! (off + i)"
  by (simp add: slice_def)

lemma slice_put_same:
  "off + length bs \<le> length xs \<Longrightarrow> n = length bs \<Longrightarrow> slice off n (put off bs xs) = bs"
  by (simp add: slice_def put_def)

lemma slice_put_other:
  assumes "off' + length bs \<le> length xs" and "off + n \<le> length xs"
    and "off + n \<le> off' \<or> off' + length bs \<le> off"
  shows "slice off n (put off' bs xs) = slice off n xs"
  using assms by (intro nth_equalityI) (auto simp: nth_slice nth_put)

text \<open>Writing and reading blocks of a concatenation.\<close>

lemma put_append_right [block_simps]:
  "length h \<le> off \<Longrightarrow> put off bs (h @ r) = h @ put (off - length h) bs r"
  by (simp add: put_def)

lemma put_head [block_simps]:
  "length b = length bs \<Longrightarrow> put 0 bs (b @ r) = bs @ r"
  "length b = length bs \<Longrightarrow> put 0 bs b = bs"
  by (simp_all add: put_def)

lemma put_append_left:
  "off + length bs \<le> length h \<Longrightarrow> put off bs (h @ r) = put off bs h @ r"
  by (simp add: put_def)

lemma slice_append_right [block_simps]:
  "length h \<le> off \<Longrightarrow> slice off n (h @ r) = slice (off - length h) n r"
  by (simp add: slice_def)

lemma slice_head [block_simps]:
  "length b = n \<Longrightarrow> slice 0 n (b @ r) = b"
  "length b = n \<Longrightarrow> slice 0 n b = b"
  by (simp_all add: slice_def)

lemma fold_update_put:
  assumes "off + n \<le> length xs"
  shows "fold (\<lambda>i out. out[off + i := f i]) [0..<n] xs = put off (map f [0..<n]) xs"
  using assms
proof (induction n)
  case 0
  then show ?case by (simp add: put_def)
next
  case (Suc n)
  then have "fold (\<lambda>i out. out[off + i := f i]) [0..<Suc n] xs = (put off (map f [0..<n]) xs)[off + n := f n]"
    by simp
  also have "\<dots> = put off (map f [0..<Suc n]) xs"
    using Suc.prems by (intro nth_equalityI) (auto simp: nth_put nth_list_update nth_append less_Suc_eq)
  finally show ?case .
qed

section \<open>Little-endian encodings\<close>

definition le32 :: "u32 \<Rightarrow> bytes" where
  "le32 v = map (\<lambda>i. ucast (drop_bit (i * 8) v AND 0xff)) [0..<4]"

definition le64 :: "u64 \<Rightarrow> bytes" where
  "le64 v = map (\<lambda>i. ucast (drop_bit (i * 8) v AND 0xff)) [0..<8]"

definition un32 :: "bytes \<Rightarrow> u32" where
  "un32 bs = fold (\<lambda>i v. v OR push_bit (i * 8) (ucast (bs ! i))) [0..<4] 0"

definition un64 :: "bytes \<Rightarrow> u64" where
  "un64 bs = fold (\<lambda>i v. v OR push_bit (i * 8) (ucast (bs ! i))) [0..<8] 0"

lemma length_le [simp]: "length (le32 v) = 4" "length (le64 w) = 8"
  by (simp_all add: le32_def le64_def)

lemma store_u32_put [simp]: "off + 4 \<le> length xs \<Longrightarrow> store_u32_le xs off v = Some (put off (le32 v) xs)"
  by (simp add: store_u32_le_def le32_def fold_update_put del: upt_conv_Cons fold_simps)

lemma store_u64_put [simp]: "off + 8 \<le> length xs \<Longrightarrow> store_u64_le xs off v = Some (put off (le64 v) xs)"
  by (simp add: store_u64_le_def le64_def fold_update_put del: upt_conv_Cons fold_simps)

lemma load_u32_slice: "off + 4 \<le> length xs \<Longrightarrow> load_u32_le xs off = Some (un32 (slice off 4 xs))"
  unfolding load_u32_le_def un32_def by (auto simp: nth_slice intro: fold_cong)

lemma load_u64_slice: "off + 8 \<le> length xs \<Longrightarrow> load_u64_le xs off = Some (un64 (slice off 8 xs))"
  unfolding load_u64_le_def un64_def by (auto simp: nth_slice intro: fold_cong)

lemma store_fails [simp]:
  "\<not> off + 4 \<le> length xs \<Longrightarrow> store_u32_le xs off v = None"
  "\<not> off + 8 \<le> length xs \<Longrightarrow> store_u64_le xs off w = None"
  by (auto simp: store_u32_le_def store_u64_le_def)

lemma load_fails [simp]:
  "\<not> off + 4 \<le> length xs \<Longrightarrow> load_u32_le xs off = None"
  "\<not> off + 8 \<le> length xs \<Longrightarrow> load_u64_le xs off = None"
  by (auto simp: load_u32_le_def load_u64_le_def)

section \<open>Round trips\<close>

lemma bit_low_byte:
  fixes v :: "'a :: len word"
  assumes "8 \<le> LENGTH('a)"
  shows "bit (ucast (v AND 0xff) :: u8) k \<longleftrightarrow> k < 8 \<and> bit v k"
proof -
  have ones: "(0xff :: 'a word) = mask 8" by (simp add: mask_eq_exp_minus_1)
  have "bit (0xff :: 'a word) k \<longleftrightarrow> k < 8"
    unfolding ones using assms by (auto simp: bit_mask_iff)
  then show ?thesis using assms by (auto simp: bit_ucast_iff bit_and_iff)
qed

lemma bit_byte_beyond: "bit (b :: u8) k \<Longrightarrow> k < 8"
  using bit_imp_le_length [of b k] by simp

lemma bit_join:
  fixes bs :: bytes
  shows "bit (fold (\<lambda>i v. v OR push_bit (i * 8) (ucast (bs ! i))) [0..<m] (0 :: 'a :: len word)) n \<longleftrightarrow>
    n < LENGTH('a) \<and> n div 8 < m \<and> bit (bs ! (n div 8)) (n mod 8)"
proof (induction m)
  case 0
  then show ?case by simp
next
  case (Suc m)
  have "bit (push_bit (m * 8) (ucast (bs ! m) :: 'a word)) n \<longleftrightarrow>
      n < LENGTH('a) \<and> n div 8 = m \<and> bit (bs ! (n div 8)) (n mod 8)"
  proof (cases "n div 8 = m")
    case True
    then have "n - m * 8 = n mod 8" "m * 8 \<le> n"
      by (auto simp: modulo_nat_def mult.commute)
    then show ?thesis using True by (auto simp: bit_simps)
  next
    case False
    have "\<not> bit (bs ! m) (n - m * 8)" if "m * 8 \<le> n"
      using False that bit_byte_beyond [of "bs ! m" "n - m * 8"] by auto
    then show ?thesis using False by (auto simp: bit_simps)
  qed
  with Suc show ?case by (auto simp: bit_or_iff less_Suc_eq)
qed

lemma nth_le:
  "i < 4 \<Longrightarrow> bit (le32 v ! i) k \<longleftrightarrow> k < 8 \<and> bit v (i * 8 + k)"
  "i < 8 \<Longrightarrow> bit (le64 w ! i) k \<longleftrightarrow> k < 8 \<and> bit w (i * 8 + k)"
  by (auto simp: le32_def le64_def bit_low_byte bit_drop_bit_eq simp del: upt_conv_Cons)

lemma un_le [simp]: "un32 (le32 v) = v" "un64 (le64 w) = w"
proof -
  have "bit (un32 (le32 v)) n \<longleftrightarrow> bit v n" if "n < 32" for n
    using that unfolding un32_def bit_join by (simp add: nth_le less_mult_imp_div_less)
  then show "un32 (le32 v) = v" by (intro bit_word_eqI) simp
  have "bit (un64 (le64 w)) n \<longleftrightarrow> bit w n" if "n < 64" for n
    using that unfolding un64_def bit_join by (simp add: nth_le less_mult_imp_div_less)
  then show "un64 (le64 w) = w" by (intro bit_word_eqI) simp
qed

lemma le_un [simp]: "length bs = 4 \<Longrightarrow> le32 (un32 bs) = bs" "length cs = 8 \<Longrightarrow> le64 (un64 cs) = cs"
proof -
  show "le32 (un32 bs) = bs" if "length bs = 4"
  proof (rule nth_equalityI)
    show "le32 (un32 bs) ! i = bs ! i" if "i < length (le32 (un32 bs))" for i
      using that by (intro bit_word_eqI) (auto simp: nth_le un32_def bit_join)
  qed (use that in simp)
  show "le64 (un64 cs) = cs" if "length cs = 8"
  proof (rule nth_equalityI)
    show "le64 (un64 cs) ! i = cs ! i" if "i < length (le64 (un64 cs))" for i
      using that by (intro bit_word_eqI) (auto simp: nth_le un64_def bit_join)
  qed (use that in simp)
qed

lemma take_drop_put:
  assumes "off + length bs \<le> length xs"
  shows "take off (put off bs xs) = take off xs"
    and "drop (off + length bs) (put off bs xs) = drop (off + length bs) xs"
  using assms by (simp_all add: put_def)

section \<open>Properties\<close>

text \<open>
  C26. A store within bounds keeps the length, is read back by the load of the same width at its
  offset, and changes no byte outside its four or eight; out of bounds both fail.
\<close>

theorem store_load_le:
  "(if offset + 4 \<le> length output
    then \<exists>out. store_u32_le output offset v = Some out \<and> load_u32_le out offset = Some v \<and>
           length out = length output \<and> take offset out = take offset output \<and>
           drop (offset + 4) out = drop (offset + 4) output
    else store_u32_le output offset v = None \<and> load_u32_le output offset = None) \<and>
   (if offset + 8 \<le> length output
    then \<exists>out. store_u64_le output offset w = Some out \<and> load_u64_le out offset = Some w \<and>
           length out = length output \<and> take offset out = take offset output \<and>
           drop (offset + 8) out = drop (offset + 8) output
    else store_u64_le output offset w = None \<and> load_u64_le output offset = None)"
  using take_drop_put [of offset "le32 v" "output"] take_drop_put [of offset "le64 w" "output"]
  by (simp add: load_u32_slice load_u64_slice slice_put_same)

end
