(* ===== verification/Snapshot_Store.thy ===== *)
theory Snapshot_Store
  imports Canonical_Bytes
begin

text \<open>
  The single-producer single-consumer snapshot store of \<^verbatim>\<open>rt/src/cross_rate_data.cpp\<close>.  A slot is
  owned through one packed control word that holds a generation and one of the states free,
  writing, published and reading.  The payload storage is one byte array that the slots divide.

  The null pointers of a store that was never created are None.  Failure of an allocation is not
  modelled.  Here every operation runs without interference, so a compare-and-exchange
  finds the value that was loaded before it.
\<close>

section \<open>Control words\<close>

definition kStateMask :: u64 where "kStateMask = 3"
definition kFree :: u64 where "kFree = 0"
definition kWriting :: u64 where "kWriting = 1"
definition kPublished :: u64 where "kPublished = 2"
definition kReading :: u64 where "kReading = 3"

definition encode_control :: "u64 \<Rightarrow> u64 \<Rightarrow> u64" where
  "encode_control generation state = push_bit 2 generation OR state"

definition control_generation :: "u64 \<Rightarrow> u64" where
  "control_generation control = drop_bit 2 control"

definition control_state :: "u64 \<Rightarrow> u64" where
  "control_state control = control AND kStateMask"

definition maximum_generation :: u64 where
  "maximum_generation = drop_bit 2 u64_max"

section \<open>The store\<close>

datatype snapshot_store_result =
  store_ok | store_capacity_exceeded | store_not_ready | store_stale_generation | store_invalid_argument

datatype snapshot_retention = retain | retire_after | retention_unknown u8

record snapshot_store =
  payload_size :: nat
  slot_count :: nat
  payload_storage_bytes :: nat
  next_generation :: u64
  controls :: "u64 list option"
  payload :: "bytes option"

definition empty_store :: snapshot_store where
  "empty_store = \<lparr>payload_size = 0, slot_count = 0, payload_storage_bytes = 0, next_generation = 1,
     controls = None, payload = None\<rparr>"

definition checked_multiply_size :: "nat \<Rightarrow> nat \<Rightarrow> nat option" where
  "checked_multiply_size left right =
     (if left \<noteq> 0 \<and> right > size_max div left then None else Some (left * right))"

definition checked_add_size :: "nat \<Rightarrow> nat \<Rightarrow> nat option" where
  "checked_add_size left right = (if left > size_max - right then None else Some (left + right))"

definition create_store :: "nat \<Rightarrow> nat \<Rightarrow> snapshot_store \<Rightarrow> status \<times> snapshot_store" where
  "create_store slot_bytes slots output =
     (if slot_bytes = 0 \<or> slots = 0 then (invalid_config, output)
      else case checked_multiply_size slot_bytes slots of
             None \<Rightarrow> (invalid_config, output)
           | Some payload_bytes \<Rightarrow>
               (ok, \<lparr>payload_size = slot_bytes, slot_count = slots, payload_storage_bytes = payload_bytes,
                     next_generation = 1, controls = Some (replicate slots 0),
                     payload = Some (replicate payload_bytes 0)\<rparr>))"

definition slot_index :: "snapshot_store \<Rightarrow> u64 \<Rightarrow> nat" where
  "slot_index st generation = unat (generation - 1) mod slot_count st"

definition control_at :: "snapshot_store \<Rightarrow> nat \<Rightarrow> u64" where
  "control_at st slot = the (controls st) ! slot"

definition set_control :: "nat \<Rightarrow> u64 \<Rightarrow> snapshot_store \<Rightarrow> snapshot_store" where
  "set_control slot control st = st\<lparr>controls := map_option (\<lambda>cs. cs[slot := control]) (controls st)\<rparr>"

definition write_slot :: "nat \<Rightarrow> bytes \<Rightarrow> snapshot_store \<Rightarrow> snapshot_store" where
  "write_slot slot bs st = st\<lparr>payload := map_option (put (slot * payload_size st) bs) (payload st)\<rparr>"

definition read_slot :: "snapshot_store \<Rightarrow> nat \<Rightarrow> bytes" where
  "read_slot st slot = slice (slot * payload_size st) (payload_size st) (the (payload st))"

section \<open>Operations\<close>

definition publish_rejected :: "snapshot_store \<Rightarrow> u64 \<Rightarrow> bytes \<Rightarrow> bool" where
  "publish_rejected st generation bs \<longleftrightarrow>
     controls st = None \<or> payload st = None \<or> length bs \<noteq> payload_size st \<or> generation = 0 \<or>
     generation > maximum_generation \<or> generation \<noteq> next_generation st"

definition publish :: "u64 \<Rightarrow> bytes \<Rightarrow> snapshot_store \<Rightarrow> snapshot_store_result \<times> snapshot_store" where
  "publish generation bs st =
     (if publish_rejected st generation bs then (store_invalid_argument, st)
      else let slot = slot_index st generation in
        if control_state (control_at st slot) \<noteq> kFree then (store_capacity_exceeded, st)
        else let st = set_control slot (encode_control generation kWriting) st;
                 st = write_slot slot bs st;
                 st = set_control slot (encode_control generation kPublished) st
             in (store_ok,
                 st\<lparr>next_generation := (if generation = maximum_generation then 0 else generation + 1)\<rparr>))"

definition copy_rejected :: "snapshot_store \<Rightarrow> u64 \<Rightarrow> bytes \<Rightarrow> snapshot_retention \<Rightarrow> bool" where
  "copy_rejected st generation output retention \<longleftrightarrow>
     controls st = None \<or> payload st = None \<or> length output \<noteq> payload_size st \<or> generation = 0 \<or>
     generation > maximum_generation \<or> (retention \<noteq> retain \<and> retention \<noteq> retire_after)"

definition copy_claim :: "u64 \<Rightarrow> u64 \<Rightarrow> snapshot_store_result" where
  "copy_claim generation observed =
     (let observed_generation = control_generation observed; observed_state = control_state observed in
      if observed_generation < generation \<or> (observed_generation = generation \<and> observed_state = kWriting)
      then store_not_ready
      else if observed_generation > generation \<or> (observed_generation = generation \<and> observed_state = kFree)
      then store_stale_generation
      else if observed_state \<noteq> kPublished then store_not_ready
      else store_ok)"

definition copy_snapshot ::
  "u64 \<Rightarrow> bytes \<Rightarrow> snapshot_retention \<Rightarrow> snapshot_store \<Rightarrow>
     snapshot_store_result \<times> bytes \<times> snapshot_store" where
  "copy_snapshot generation output retention st =
     (if copy_rejected st generation output retention then (store_invalid_argument, output, st)
      else let slot = slot_index st generation in
        case copy_claim generation (control_at st slot) of
          store_ok \<Rightarrow>
            (let st = set_control slot (encode_control generation kReading) st;
                 output' = read_slot st slot;
                 st = set_control slot
                   (encode_control generation (if retention = retain then kPublished else kFree)) st
             in (store_ok, output', st))
        | result \<Rightarrow> (result, output, st))"

definition retire_claim :: "u64 \<Rightarrow> u64 \<Rightarrow> snapshot_store_result" where
  "retire_claim generation observed =
     (if control_generation observed \<noteq> generation
      then (if control_generation observed < generation then store_not_ready else store_stale_generation)
      else if control_state observed \<noteq> kPublished then store_not_ready
      else store_ok)"

definition retire :: "u64 \<Rightarrow> snapshot_store \<Rightarrow> snapshot_store_result \<times> snapshot_store" where
  "retire generation st =
     (if controls st = None \<or> generation = 0 \<or> generation > maximum_generation
      then (store_invalid_argument, st)
      else let slot = slot_index st generation in
        case retire_claim generation (control_at st slot) of
          store_ok \<Rightarrow> (store_ok, set_control slot (encode_control generation kFree) st)
        | result \<Rightarrow> (result, st))"

definition can_publish :: "snapshot_store \<Rightarrow> u64 \<Rightarrow> bool" where
  "can_publish st generation \<longleftrightarrow>
     \<not> (controls st = None \<or> generation = 0 \<or> generation > maximum_generation \<or>
        generation \<noteq> next_generation st) \<and>
     control_state (control_at st (slot_index st generation)) = kFree"

definition restore_rejected :: "snapshot_store \<Rightarrow> u64 \<Rightarrow> u64 \<Rightarrow> bytes \<Rightarrow> bool" where
  "restore_rejected st generation next_gen bs \<longleftrightarrow>
     controls st = None \<or> payload st = None \<or> length bs \<noteq> payload_size st \<or> generation = 0 \<or>
     generation > maximum_generation \<or>
     (next_gen \<noteq> 0 \<and> (next_gen > maximum_generation \<or> next_gen \<noteq> generation + 1))"

definition restore_committed ::
  "u64 \<Rightarrow> u64 \<Rightarrow> bytes \<Rightarrow> snapshot_store \<Rightarrow> snapshot_store_result \<times> snapshot_store" where
  "restore_committed generation next_gen bs st =
     (if restore_rejected st generation next_gen bs then (store_invalid_argument, st)
      else let st = st\<lparr>controls := map_option (\<lambda>cs. replicate (slot_count st) 0) (controls st)\<rparr>;
               slot = slot_index st generation;
               st = write_slot slot bs st;
               st = set_control slot (encode_control generation kPublished) st
           in (store_ok, st\<lparr>next_generation := next_gen\<rparr>))"

section \<open>Control words as pairs\<close>

lemma state_mask: "kStateMask = mask 2"
  by (simp add: kStateMask_def mask_eq_exp_minus_1)

lemma maximum_generation_bit: "g \<le> maximum_generation \<Longrightarrow> bit g n \<Longrightarrow> n < 62"
proof -
  assume g: "g \<le> maximum_generation" and b: "bit g n"
  have "unat g < 2 ^ 62"
    using g by (simp add: maximum_generation_def word_le_nat_alt drop_bit_eq_div unat_div unat_u64_max)
  moreover have "bit (unat g) n" using b by (simp add: bit_unsigned_iff bit_imp_le_length)
  ultimately have "2 ^ n \<le> unat g" "unat g < 2 ^ 62"
    by (simp_all add: bit_iff_odd) (metis div_less even_zero not_le)
  then have "(2 :: nat) ^ n < 2 ^ 62" by simp
  then show "n < 62" by (rule power_less_imp_less_exp [rotated]) simp
qed

lemma control_bits:
  assumes "g \<le> maximum_generation" and "s AND mask 2 = s"
  shows "control_generation (encode_control g s) = g" and "control_state (encode_control g s) = s"
proof -
  have low: "bit s n \<Longrightarrow> n < 2" for n
    using assms(2) bit_and_iff [of s "mask 2" n] by (simp add: bit_mask_iff)
  show "control_generation (encode_control g s) = g"
    using maximum_generation_bit [OF assms(1)] low
    by (intro bit_word_eqI)
      (force simp: control_generation_def encode_control_def bit_drop_bit_eq bit_or_iff bit_push_bit_iff)
  show "control_state (encode_control g s) = s"
    using low
    by (intro bit_word_eqI)
      (auto simp: control_state_def encode_control_def state_mask bit_and_iff bit_or_iff bit_push_bit_iff
        bit_mask_iff)
qed

lemma control_roundtrip [simp]:
  assumes "g \<le> maximum_generation"
  shows "control_generation (encode_control g kFree) = g" "control_state (encode_control g kFree) = kFree"
    "control_generation (encode_control g kWriting) = g" "control_state (encode_control g kWriting) = kWriting"
    "control_generation (encode_control g kPublished) = g" "control_state (encode_control g kPublished) = kPublished"
    "control_generation (encode_control g kReading) = g" "control_state (encode_control g kReading) = kReading"
  using control_bits [OF assms]
  by (simp_all add: kFree_def kWriting_def kPublished_def kReading_def mask_eq_exp_minus_1)

lemma control_zero [simp]: "control_generation 0 = 0" "control_state 0 = kFree"
  by (simp_all add: control_generation_def control_state_def kFree_def)

lemma states_distinct [simp]:
  "kFree \<noteq> kWriting" "kFree \<noteq> kPublished" "kFree \<noteq> kReading" "kWriting \<noteq> kPublished"
  "kWriting \<noteq> kReading" "kPublished \<noteq> kReading"
  "kWriting \<noteq> kFree" "kPublished \<noteq> kFree" "kReading \<noteq> kFree" "kPublished \<noteq> kWriting"
  "kReading \<noteq> kWriting" "kReading \<noteq> kPublished"
  by (simp_all add: kFree_def kWriting_def kPublished_def kReading_def)

lemma control_eq: "encode_control (control_generation c) (control_state c) = c"
proof -
  have "Suc (Suc (n - 2)) = n" if "2 \<le> n" for n using that by simp
  then show ?thesis
    by (intro bit_word_eqI)
      (auto simp: control_generation_def control_state_def encode_control_def state_mask bit_simps)
qed

end
