(* ===== verification/Cross_Rate_Data.thy ===== *)
theory Cross_Rate_Data
  imports Cross_Rate_Types Snapshot_Store
begin

text \<open>
  The cross-rate compiler of \<^verbatim>\<open>rt/src/cross_rate_data.cpp\<close>.  For every channel it checks the endpoints, and
  decides for every consumer release which producer release it reads: once for the first
  supercycle, where nothing may have been produced yet, and once for every later one, where the
  last sample of the previous supercycle is available.  It also places device endpoints in their
  buffers and creates one snapshot store per channel.

  A span of bytes is the list of its bytes.  The producer reference of a selection is None where
  the source holds the largest \<^verbatim>\<open>size_t\<close>.  A rejected channel list leaves the output as it was.
  Failure of an allocation is not modelled.
\<close>

section \<open>Plans\<close>

definition cross_rate_channel_capacity :: nat where "cross_rate_channel_capacity = 256"
definition cross_rate_channel_name_capacity :: nat where "cross_rate_channel_name_capacity = 64"
definition cross_rate_payload_capacity :: nat where "cross_rate_payload_capacity = 65536"
definition cross_rate_initial_bytes_capacity :: nat where "cross_rate_initial_bytes_capacity = 1048576"
definition cross_rate_selection_capacity :: nat where "cross_rate_selection_capacity = 262144"
definition cross_rate_snapshot_slot_count :: nat where "cross_rate_snapshot_slot_count = 2"
definition cross_rate_snapshot_bytes_capacity :: nat where "cross_rate_snapshot_bytes_capacity = 2097152"
definition runtime_timestamp_domain_identity :: u64 where "runtime_timestamp_domain_identity = 1"
definition invalid_cross_rate_sequence :: u64 where "invalid_cross_rate_sequence = u64_max"
definition invalid_cross_rate_substep :: u32 where "invalid_cross_rate_substep = 4294967295"

definition device_access_read :: u32 where "device_access_read = 1"
definition device_access_write :: u32 where "device_access_write = 2"
definition device_access_read_write :: u32 where "device_access_read_write = 3"
definition device_buffer_host_read :: u32 where "device_buffer_host_read = 1"
definition device_buffer_host_write :: u32 where "device_buffer_host_write = 2"
definition host_coherent :: u32 where "host_coherent = 1"

record device_buffer_source =
  bf_buffer :: device_buffer_handle
  bf_backend :: device_backend_handle
  bf_storage :: bytes
  bf_bytes :: u64
  bf_access :: u32
  bf_coherency :: u32
  bf_synchronization :: u32
  bf_byte_granularity :: u64
  bf_offset_granularity :: u64

record cross_rate_device_endpoint =
  de_channel_index :: nat
  de_producer :: bool
  de_phase :: phase_handle
  de_backend :: device_backend_handle
  de_buffer :: device_buffer_handle
  de_reference_kind :: device_reference_kind
  de_command_index :: u32
  de_command_reference_index :: u32
  de_envelope_offset :: u64
  de_envelope_bytes :: u64
  de_slot_stride_bytes :: u64
  de_slot_count :: u32
  de_timestamp_domain_identity :: u64
  de_host_storage :: bytes

datatype sample_provenance = initial_sample | produced

datatype sample_freshness = fresh | stale

datatype selection_horizon = first_supercycle | repeating_supercycle

record cross_rate_selection =
  cs_channel :: channel_handle
  cs_channel_registration_index :: nat
  cs_producer :: phase_handle
  cs_consumer :: phase_handle
  cs_producer_domain :: rate_domain_handle
  cs_consumer_domain :: rate_domain_handle
  cs_horizon :: selection_horizon
  cs_consumer_reference_index :: nat
  cs_consumer_release_sequence :: u64
  cs_consumer_substep_ordinal :: u32
  cs_producer_reference_index :: "nat option"
  cs_producer_release_sequence :: u64
  cs_producer_substep_ordinal :: u32
  cs_source_cycle_offset :: int
  cs_age_ns :: u64
  cs_provenance :: sample_provenance
  cs_held :: bool
  cs_freshness :: sample_freshness

record compiled_cross_rate_channel =
  cx_channel :: channel_handle
  cx_name :: string
  cx_registration_index :: nat
  cx_producer :: phase_handle
  cx_consumer :: phase_handle
  cx_producer_domain :: rate_domain_handle
  cx_consumer_domain :: rate_domain_handle
  cx_producer_compiled_phase_index :: nat
  cx_consumer_compiled_phase_index :: nat
  cx_payload_size :: nat
  cx_mode :: cross_rate_mode
  cx_maximum_age_ns :: u64
  cx_first_selection_index :: nat
  cx_selection_count :: nat
  cx_snapshot_slot_count :: nat
  cx_snapshot_bytes :: nat
  cx_producer_device :: device_endpoint_selector
  cx_consumer_device :: device_endpoint_selector
  cx_producer_device_backend :: device_backend_handle
  cx_consumer_device_backend :: device_backend_handle
  cx_producer_device_buffer :: device_buffer_handle
  cx_consumer_device_buffer :: device_buffer_handle
  cx_producer_device_base_offset :: u64
  cx_consumer_device_base_offset :: u64
  cx_producer_device_slot_count :: u32
  cx_consumer_device_slot_count :: u32
  cx_producer_timestamp_domain_identity :: u64

record compiled_cross_rate_plan =
  xp_channels :: "compiled_cross_rate_channel list"
  xp_selections :: "cross_rate_selection list"
  xp_stores :: "snapshot_store list"
  xp_device_endpoints :: "cross_rate_device_endpoint list"
  xp_device_endpoint_index_by_channel :: "nat option list"

definition empty_cross_rate_plan :: compiled_cross_rate_plan where
  "empty_cross_rate_plan = \<lparr>xp_channels = [], xp_selections = [], xp_stores = [], xp_device_endpoints = [],
     xp_device_endpoint_index_by_channel = []\<rparr>"

record cross_rate_diagnostic =
  cr_status :: status
  cr_message :: "string option"

abbreviation cross_error :: "status \<Rightarrow> string \<Rightarrow> cross_rate_diagnostic" where
  "cross_error st msg \<equiv> \<lparr>cr_status = st, cr_message = Some msg\<rparr>"

section \<open>Ages and sources\<close>

definition checked_age :: "u64 \<Rightarrow> u64 \<Rightarrow> u64 \<Rightarrow> bool \<Rightarrow> u64 option" where
  "checked_age supercycle producer_time consumer_time prior_cycle =
     (if \<not> prior_cycle
      then (if producer_time > consumer_time then None else Some (consumer_time - producer_time))
      else let prior_tail = supercycle - producer_time
           in if consumer_time > u64_max - prior_tail then None else Some (prior_tail + consumer_time))"

definition valid_channel_name :: "string \<Rightarrow> bool" where
  "valid_channel_name name \<longleftrightarrow>
     name \<noteq> [] \<and> length name < cross_rate_channel_name_capacity \<and> list_all name_character name"

type_synonym source_key = "sample_provenance \<times> nat option \<times> int"

definition source_key_of :: "cross_rate_selection \<Rightarrow> int \<Rightarrow> source_key" where
  "source_key_of s target_cycle =
     (cs_provenance s, cs_producer_reference_index s, target_cycle + cs_source_cycle_offset s)"

section \<open>Device endpoints\<close>

definition role_fits :: "bool \<Rightarrow> device_payload_role \<Rightarrow> bool" where
  "role_fits producer role \<longleftrightarrow>
     (if producer then role = role_output \<or> role = role_input_output
      else role = role_input \<or> role = role_input_output)"

definition access_fits :: "bool \<Rightarrow> u32 \<Rightarrow> bool" where
  "access_fits producer access \<longleftrightarrow>
     (if producer then access = device_access_write \<or> access = device_access_read_write
      else access = device_access_read \<or> access = device_access_read_write)"

definition buffer_unusable ::
  "bool \<Rightarrow> nat \<Rightarrow> u64 \<Rightarrow> device_payload_reference \<Rightarrow> device_buffer_source \<Rightarrow> bool" where
  "buffer_unusable producer bytes_per_sample stride reference buffer \<longleftrightarrow>
     bf_storage buffer = [] \<or>
     bf_access buffer AND (if producer then device_buffer_host_read else device_buffer_host_write) = 0 \<or>
     bf_coherency buffer \<noteq> host_coherent \<or>
     bf_byte_granularity buffer = 0 \<or>
     bf_offset_granularity buffer = 0 \<or>
     bytes_per_sample mod unat (bf_byte_granularity buffer) \<noteq> 0 \<or>
     unat stride < bytes_per_sample \<or>
     stride mod bf_offset_granularity buffer \<noteq> 0 \<or>
     pr_offset reference mod bf_offset_granularity buffer \<noteq> 0"

definition envelope_holds ::
  "nat \<Rightarrow> u64 \<Rightarrow> u32 \<Rightarrow> device_payload_reference \<Rightarrow> device_buffer_source \<Rightarrow> bool" where
  "envelope_holds bytes_per_sample stride in_flight reference buffer \<longleftrightarrow>
     (case checked_multiply (ucast (in_flight - 1)) stride of
        None \<Rightarrow> False
      | Some slot_delta \<Rightarrow>
     (case checked_add (pr_offset reference) slot_delta of
        None \<Rightarrow> False
      | Some final_offset \<Rightarrow>
     (case checked_add final_offset (word_of_nat bytes_per_sample) of
        None \<Rightarrow> False
      | Some final_end \<Rightarrow>
     (case checked_add (pr_offset reference) (pr_bytes reference) of
        None \<Rightarrow> False
      | Some envelope_end \<Rightarrow>
          \<not> (final_end > envelope_end \<or> final_end > bf_bytes buffer \<or>
             unat final_end > length (bf_storage buffer))))))"

definition endpoint_reference ::
  "compiled_device_rate_plan option \<Rightarrow> phase_handle \<Rightarrow> device_endpoint_selector \<Rightarrow>
     (compiled_device_phase \<times> device_payload_reference) option" where
  "endpoint_reference device_plan phase selector =
     (case device_plan of
        None \<Rightarrow> None
      | Some plan \<Rightarrow>
          if \<not> selector_valid selector then None
          else case find (\<lambda>d. dv_phase d = phase) (dr_phases plan) of
            None \<Rightarrow> None
          | Some phase_record \<Rightarrow>
              let ordinal = the (sel_payload_reference_ordinal selector);
                  reference_index = dv_first_payload_reference_index phase_record + ordinal
              in if ordinal \<ge> dv_payload_reference_count phase_record \<or> dv_maximum_in_flight phase_record = 0 \<or>
                    reference_index \<ge> length (dr_payload_references plan)
                 then None
                 else Some (phase_record, dr_payload_references plan ! reference_index))"

definition compile_device_endpoint ::
  "compiled_device_rate_plan option \<Rightarrow> device_buffer_source list \<Rightarrow> cross_rate_channel_spec \<Rightarrow> bool \<Rightarrow>
     cross_rate_device_endpoint option" where
  "compile_device_endpoint device_plan device_buffers c producer =
     (let phase = (if producer then ch_producer c else ch_consumer c);
          selector = (if producer then ch_producer_device c else ch_consumer_device c);
          stride = sel_slot_stride_bytes selector
      in case endpoint_reference device_plan phase selector of
           None \<Rightarrow> None
         | Some (phase_record, reference) \<Rightarrow>
             (case find (\<lambda>b. bf_buffer b = pr_buffer reference \<and> bf_backend b = pr_backend reference) device_buffers of
                None \<Rightarrow> None
              | Some buffer \<Rightarrow>
                  if \<not> role_fits producer (pr_role reference) \<or> \<not> access_fits producer (pr_access reference) \<or>
                     buffer_unusable producer (ch_payload_size c) stride reference buffer \<or>
                     \<not> envelope_holds (ch_payload_size c) stride (dv_maximum_in_flight phase_record) reference buffer
                  then None
                  else Some
                    \<lparr>de_channel_index = 0, de_producer = producer, de_phase = phase,
                     de_backend = pr_backend reference, de_buffer = pr_buffer reference,
                     de_reference_kind = pr_kind reference, de_command_index = pr_command_index reference,
                     de_command_reference_index = pr_command_reference_index reference,
                     de_envelope_offset = pr_offset reference, de_envelope_bytes = pr_bytes reference,
                     de_slot_stride_bytes = stride, de_slot_count = dv_maximum_in_flight phase_record,
                     de_timestamp_domain_identity =
                       (if producer then dv_completion_timestamp_domain_identity phase_record
                        else runtime_timestamp_domain_identity),
                     de_host_storage = bf_storage buffer\<rparr>))"

section \<open>Bindings\<close>

definition endpoint_binding_rejected :: "u32 \<Rightarrow> nat \<Rightarrow> nat \<Rightarrow> compiled_rate_binding \<Rightarrow> nat option list \<Rightarrow> bool" where
  "endpoint_binding_rejected graph_owner phase_count domain_count b binding_by_phase \<longleftrightarrow>
     \<not> phase_valid (cb_phase b) \<or> phase_owner (cb_phase b) \<noteq> graph_owner \<or>
     phase_number (cb_phase b) \<ge> phase_count \<or>
     \<not> rate_domain_valid (cb_domain b) \<or> rate_domain_owner (cb_domain b) \<noteq> graph_owner \<or>
     rate_domain_number (cb_domain b) \<ge> domain_count \<or>
     cb_compiled_phase_index b \<ge> phase_count \<or>
     binding_by_phase ! phase_number (cb_phase b) \<noteq> None"

fun index_bindings ::
  "u32 \<Rightarrow> nat \<Rightarrow> nat \<Rightarrow> nat \<Rightarrow> compiled_rate_binding list \<Rightarrow> nat option list \<Rightarrow>
     cross_rate_diagnostic + nat option list" where
  "index_bindings graph_owner phase_count domain_count index [] binding_by_phase = Inr binding_by_phase"
| "index_bindings graph_owner phase_count domain_count index (b # bs) binding_by_phase =
     (if endpoint_binding_rejected graph_owner phase_count domain_count b binding_by_phase
      then Inl (cross_error invalid_handle ''cross-rate endpoint binding is invalid or duplicated'')
      else index_bindings graph_owner phase_count domain_count (Suc index) bs
             (binding_by_phase[phase_number (cb_phase b) := Some index]))"

section \<open>Channel validation\<close>

definition channel_malformed :: "cross_rate_channel_spec \<Rightarrow> bool" where
  "channel_malformed c \<longleftrightarrow>
     \<not> valid_channel_name (ch_name c) \<or> ch_mode c \<noteq> sample_and_hold \<or> ch_payload_size c = 0 \<or>
     ch_payload_size c > cross_rate_payload_capacity \<or> length (ch_initial_sample c) \<noteq> ch_payload_size c"

definition channel_foreign :: "u32 \<Rightarrow> nat \<Rightarrow> cross_rate_channel_spec \<Rightarrow> bool" where
  "channel_foreign graph_owner phase_count c \<longleftrightarrow>
     \<not> phase_valid (ch_producer c) \<or> \<not> phase_valid (ch_consumer c) \<or>
     phase_owner (ch_producer c) \<noteq> graph_owner \<or> phase_owner (ch_consumer c) \<noteq> graph_owner \<or>
     phase_number (ch_producer c) \<ge> phase_count \<or> phase_number (ch_consumer c) \<ge> phase_count"

definition selector_partial :: "device_endpoint_selector \<Rightarrow> bool" where
  "selector_partial s \<longleftrightarrow> sel_payload_reference_ordinal s \<noteq> None \<or> sel_slot_stride_bytes s \<noteq> 0"

definition selectors_mismatch :: "cross_rate_channel_spec \<Rightarrow> bool \<Rightarrow> bool \<Rightarrow> bool" where
  "selectors_mismatch c producer_device consumer_device \<longleftrightarrow>
     (producer_device \<and> consumer_device) \<or>
     producer_device \<noteq> selector_valid (ch_producer_device c) \<or>
     consumer_device \<noteq> selector_valid (ch_consumer_device c) \<or>
     selector_partial (ch_producer_device c) \<noteq> producer_device \<or>
     selector_partial (ch_consumer_device c) \<noteq> consumer_device"

fun duplicate_channel :: "cross_rate_channel_spec list \<Rightarrow> cross_rate_channel_spec \<Rightarrow> cross_rate_diagnostic option" where
  "duplicate_channel [] c = None"
| "duplicate_channel (e # earlier) c =
     (if ch_name e = ch_name c
      then Some (cross_error invalid_config ''cross-rate channel names must be unique'')
      else if ch_producer e = ch_producer c \<and> ch_consumer e = ch_consumer c
      then Some (cross_error invalid_config ''duplicate cross-rate semantic edge'')
      else duplicate_channel earlier c)"

definition snapshot_slots :: "nat list \<Rightarrow> nat \<Rightarrow> nat" where
  "snapshot_slots slot_counts index =
     (if slot_counts = [] then cross_rate_snapshot_slot_count else slot_counts ! index)"

definition grow :: "nat \<Rightarrow> nat option \<Rightarrow> nat \<Rightarrow> nat option" where
  "grow amount added capacity =
     (case added of
        None \<Rightarrow> None
      | Some n \<Rightarrow>
          (case checked_add_size amount n of
             None \<Rightarrow> None
           | Some amount' \<Rightarrow> if amount' > capacity then None else Some amount'))"

definition consumer_release_count :: "compiled_rate_plan \<Rightarrow> phase_handle \<Rightarrow> nat" where
  "consumer_release_count plan phase = length (filter (\<lambda>r. rr_phase r = phase) (plan_releases plan))"

definition reserve_channel ::
  "compiled_rate_plan \<Rightarrow> nat \<Rightarrow> cross_rate_channel_spec \<Rightarrow> nat \<times> nat \<times> nat \<Rightarrow>
     cross_rate_diagnostic + nat \<times> nat \<times> nat" where
  "reserve_channel plan slots c = (\<lambda>(initial_bytes, snapshot_bytes, selection_count).
     case grow initial_bytes (Some (length (ch_initial_sample c))) cross_rate_initial_bytes_capacity of
       None \<Rightarrow> Inl (cross_error capacity_exceeded ''cross-rate aggregate payload storage exceeded'')
     | Some initial_bytes' \<Rightarrow>
     (case grow snapshot_bytes (checked_multiply_size (ch_payload_size c) slots)
             cross_rate_snapshot_bytes_capacity of
       None \<Rightarrow> Inl (cross_error capacity_exceeded ''cross-rate aggregate payload storage exceeded'')
     | Some snapshot_bytes' \<Rightarrow>
         let consumer_releases = consumer_release_count plan (ch_consumer c) in
         if consumer_releases = 0
         then Inl (cross_error capacity_exceeded ''cross-rate selection capacity exceeded'')
         else (case grow selection_count (checked_multiply_size consumer_releases 2)
                       cross_rate_selection_capacity of
                 None \<Rightarrow> Inl (cross_error capacity_exceeded ''cross-rate selection capacity exceeded'')
               | Some selection_count' \<Rightarrow> Inr (initial_bytes', snapshot_bytes', selection_count'))))"

definition validate_channel ::
  "u32 \<Rightarrow> nat \<Rightarrow> compiled_rate_plan \<Rightarrow> nat option list \<Rightarrow> compiled_device_rate_plan option \<Rightarrow>
     device_buffer_source list \<Rightarrow> cross_rate_channel_spec list \<Rightarrow> nat \<Rightarrow> cross_rate_channel_spec \<Rightarrow>
     nat \<times> nat \<times> nat \<Rightarrow> cross_rate_diagnostic + nat \<times> nat \<times> nat" where
  "validate_channel graph_owner phase_count plan binding_by_phase device_plan device_buffers earlier slots c totals =
     (if channel_malformed c
      then Inl (cross_error invalid_config
        ''cross-rate channel name, mode, payload, or initial sample is invalid'')
      else if channel_foreign graph_owner phase_count c
      then Inl (cross_error invalid_handle ''cross-rate channel contains an invalid or foreign endpoint'')
      else if ch_producer c = ch_consumer c
      then Inl (cross_error invalid_config ''cross-rate channel endpoints must be distinct'')
      else case (binding_by_phase ! phase_number (ch_producer c), binding_by_phase ! phase_number (ch_consumer c)) of
        (Some i, Some j) \<Rightarrow>
          let producer_binding = plan_bindings plan ! i;
              consumer_binding = plan_bindings plan ! j;
              producer_device = (cb_phase_kind producer_binding = kind_device);
              consumer_device = (cb_phase_kind consumer_binding = kind_device)
          in if selectors_mismatch c producer_device consumer_device
             then Inl (cross_error invalid_config
               ''cross-rate device endpoint selector is missing, malformed, or device-to-device'')
             else if (producer_device \<or> consumer_device) \<and>
                     compile_device_endpoint device_plan device_buffers c producer_device = None
             then Inl (cross_error invalid_config
               ''cross-rate device endpoint is inaccessible or conflicts with its admitted payload envelope'')
             else if cb_domain producer_binding = cb_domain consumer_binding
             then Inl (cross_error invalid_config ''cross-rate endpoints must use different rate domains'')
             else (case duplicate_channel earlier c of
                     Some d \<Rightarrow> Inl d
                   | None \<Rightarrow> reserve_channel plan slots c totals)
      | _ \<Rightarrow> Inl (cross_error invalid_config ''cross-rate endpoint is not bound exactly once''))"

fun validate_channels ::
  "u32 \<Rightarrow> nat \<Rightarrow> compiled_rate_plan \<Rightarrow> nat option list \<Rightarrow> compiled_device_rate_plan option \<Rightarrow>
     device_buffer_source list \<Rightarrow> nat list \<Rightarrow> cross_rate_channel_spec list \<Rightarrow> cross_rate_channel_spec list \<Rightarrow>
     nat \<times> nat \<times> nat \<Rightarrow> cross_rate_diagnostic + nat \<times> nat \<times> nat" where
  "validate_channels ow n plan table device_plan buffers slot_counts earlier [] totals = Inr totals"
| "validate_channels ow n plan table device_plan buffers slot_counts earlier (c # cs) totals =
     sum_bind (validate_channel ow n plan table device_plan buffers earlier
                 (snapshot_slots slot_counts (length earlier)) c totals)
       (validate_channels ow n plan table device_plan buffers slot_counts (earlier @ [c]) cs)"

section \<open>Selections\<close>

definition releases_of :: "compiled_rate_plan \<Rightarrow> phase_handle \<Rightarrow> nat list" where
  "releases_of plan phase = filter (\<lambda>i. rr_phase (plan_releases plan ! i) = phase) [0..<length (plan_releases plan)]"

definition lower_bound :: "nat list \<Rightarrow> nat \<Rightarrow> nat" where
  "lower_bound xs v = length (takeWhile (\<lambda>x. x < v) xs)"

definition make_selection ::
  "u32 \<Rightarrow> compiled_rate_plan \<Rightarrow> nat \<Rightarrow> cross_rate_channel_spec \<Rightarrow> compiled_rate_binding \<Rightarrow> compiled_rate_binding \<Rightarrow>
     nat list \<Rightarrow> nat \<Rightarrow> bool \<Rightarrow> cross_rate_selection" where
  "make_selection graph_owner plan chan c producer_binding consumer_binding producer_releases
       consumer_reference_index steady =
     (let consumer_release = plan_releases plan ! consumer_reference_index;
          producer_position = lower_bound producer_releases consumer_reference_index;
          has_in_cycle = (producer_position \<noteq> 0);
          source_reference = (if has_in_cycle then producer_releases ! (producer_position - 1)
                              else last producer_releases);
          source = plan_releases plan ! source_reference;
          use_initial = (\<not> steady \<and> \<not> has_in_cycle);
          age = checked_age (plan_supercycle_ns plan) (rr_release_time_ns source)
                  (rr_release_time_ns consumer_release) (\<not> has_in_cycle);
          age_ns = (if use_initial then rr_release_time_ns consumer_release
                    else case age of None \<Rightarrow> 0 | Some a \<Rightarrow> a)
      in \<lparr>cs_channel = channel_handle_of graph_owner (word_of_nat chan),
          cs_channel_registration_index = chan,
          cs_producer = ch_producer c,
          cs_consumer = ch_consumer c,
          cs_producer_domain = cb_domain producer_binding,
          cs_consumer_domain = cb_domain consumer_binding,
          cs_horizon = (if steady then repeating_supercycle else first_supercycle),
          cs_consumer_reference_index = consumer_reference_index,
          cs_consumer_release_sequence = rr_domain_release_sequence consumer_release,
          cs_consumer_substep_ordinal = rr_substep_ordinal consumer_release,
          cs_producer_reference_index =
            (if use_initial then None else case age of None \<Rightarrow> None | Some _ \<Rightarrow> Some source_reference),
          cs_producer_release_sequence =
            (if use_initial then invalid_cross_rate_sequence else rr_domain_release_sequence source),
          cs_producer_substep_ordinal =
            (if use_initial then invalid_cross_rate_substep else rr_substep_ordinal source),
          cs_source_cycle_offset = (if use_initial then 0 else if has_in_cycle then 0 else - 1),
          cs_age_ns = age_ns,
          cs_provenance = (if use_initial then initial_sample else produced),
          cs_held = False,
          cs_freshness =
            (if ch_maximum_age_ns c = u64_max \<or> age_ns \<le> ch_maximum_age_ns c then fresh else stale)\<rparr>)"

fun select_releases ::
  "(nat \<Rightarrow> bool \<Rightarrow> cross_rate_selection) \<Rightarrow> nat list \<Rightarrow> nat list \<Rightarrow>
     cross_rate_diagnostic + cross_rate_selection list \<times> cross_rate_selection list" where
  "select_releases selection_for producer_releases [] = Inr ([], [])"
| "select_releases selection_for producer_releases (i # is) =
     (let has_in_cycle = (lower_bound producer_releases i \<noteq> 0);
          first_selection = selection_for i False;
          repeating_selection = selection_for i True
      in if (\<not> has_in_cycle \<and> cs_producer_reference_index repeating_selection = None) \<or>
            (has_in_cycle \<and> cs_producer_reference_index first_selection = None)
         then Inl (cross_error capacity_exceeded ''cross-rate freshness age is not representable'')
         else sum_bind (select_releases selection_for producer_releases is)
                (\<lambda>(firsts, repeats). Inr (first_selection # firsts, repeating_selection # repeats)))"

definition hold_first :: "cross_rate_selection list \<Rightarrow> cross_rate_selection list" where
  "hold_first xs =
     map (\<lambda>i. if i = 0 then xs ! i
              else (xs ! i)\<lparr>cs_held := (source_key_of (xs ! i) 0 = source_key_of (xs ! (i - 1)) 0)\<rparr>)
       [0..<length xs]"

definition hold_repeating :: "cross_rate_selection list \<Rightarrow> cross_rate_selection list" where
  "hold_repeating xs =
     map (\<lambda>i. (xs ! i)\<lparr>cs_held :=
            (source_key_of (xs ! i) 0 =
               (if i = 0 then source_key_of (last xs) (- 1) else source_key_of (xs ! (i - 1)) 0))\<rparr>)
       [0..<length xs]"

fun interleave :: "'a list \<Rightarrow> 'a list \<Rightarrow> 'a list" where
  "interleave (x # xs) (y # ys) = x # y # interleave xs ys"
| "interleave _ _ = []"

definition select_channel ::
  "u32 \<Rightarrow> compiled_rate_plan \<Rightarrow> nat \<Rightarrow> cross_rate_channel_spec \<Rightarrow> compiled_rate_binding \<Rightarrow> compiled_rate_binding \<Rightarrow>
     cross_rate_diagnostic + cross_rate_selection list \<times> cross_rate_selection list" where
  "select_channel graph_owner plan chan c producer_binding consumer_binding =
     (let producer_releases = releases_of plan (ch_producer c);
          consumer_releases = releases_of plan (ch_consumer c)
      in if producer_releases = [] \<or> consumer_releases = []
         then Inl (cross_error invalid_config ''cross-rate endpoint has no reference release'')
         else sum_bind
           (select_releases
              (make_selection graph_owner plan chan c producer_binding consumer_binding producer_releases)
              producer_releases consumer_releases)
           (\<lambda>(firsts, repeats). Inr (hold_first firsts, hold_repeating repeats)))"

section \<open>Placement of device endpoints\<close>

fun envelope_overlap :: "cross_rate_device_endpoint \<Rightarrow> u64 \<Rightarrow> cross_rate_device_endpoint list \<Rightarrow> bool" where
  "envelope_overlap endpoint endpoint_end [] = False"
| "envelope_overlap endpoint endpoint_end (prior # rest) =
     (if de_buffer prior \<noteq> de_buffer endpoint then envelope_overlap endpoint endpoint_end rest
      else case checked_add (de_envelope_offset prior) (de_envelope_bytes prior) of
             None \<Rightarrow> True
           | Some prior_end \<Rightarrow>
               if de_envelope_offset endpoint < prior_end \<and> de_envelope_offset prior < endpoint_end
               then True else envelope_overlap endpoint endpoint_end rest)"

definition place_endpoint ::
  "compiled_device_rate_plan option \<Rightarrow> device_buffer_source list \<Rightarrow> nat \<Rightarrow> cross_rate_channel_spec \<Rightarrow> bool \<Rightarrow>
     cross_rate_device_endpoint list \<Rightarrow> cross_rate_diagnostic + cross_rate_device_endpoint" where
  "place_endpoint device_plan device_buffers chan c producer placed =
     (case compile_device_endpoint device_plan device_buffers c producer of
        None \<Rightarrow> Inl (cross_error invalid_config ''cross-rate device endpoint compilation failed'')
      | Some compiled \<Rightarrow>
          let endpoint = compiled\<lparr>de_channel_index := chan\<rparr> in
          (case checked_add (de_envelope_offset endpoint) (de_envelope_bytes endpoint) of
             None \<Rightarrow> Inl (cross_error capacity_exceeded ''cross-rate device endpoint envelope overflowed'')
           | Some endpoint_end \<Rightarrow>
               if envelope_overlap endpoint endpoint_end placed
               then Inl (cross_error invalid_config ''cross-rate device endpoint envelopes overlap'')
               else Inr endpoint))"

section \<open>Channels\<close>

definition endpoint_side ::
  "bool \<Rightarrow> cross_rate_device_endpoint option \<Rightarrow> (cross_rate_device_endpoint \<Rightarrow> 'a) \<Rightarrow> 'a \<Rightarrow> 'a" where
  "endpoint_side producer endpoint field initial =
     (case endpoint of
        None \<Rightarrow> initial
      | Some e \<Rightarrow> if de_producer e = producer then field e else initial)"

definition describe_channel ::
  "u32 \<Rightarrow> nat \<Rightarrow> cross_rate_channel_spec \<Rightarrow> compiled_rate_binding \<Rightarrow> compiled_rate_binding \<Rightarrow> nat \<Rightarrow> nat \<Rightarrow> nat \<Rightarrow>
     nat \<Rightarrow> cross_rate_device_endpoint option \<Rightarrow> compiled_cross_rate_channel" where
  "describe_channel graph_owner chan c producer_binding consumer_binding first_index selections slots
       snapshot_bytes endpoint =
     \<lparr>cx_channel = channel_handle_of graph_owner (word_of_nat chan),
      cx_name = ch_name c @ replicate (cross_rate_channel_name_capacity - length (ch_name c)) (char_of (0 :: nat)),
      cx_registration_index = chan,
      cx_producer = ch_producer c,
      cx_consumer = ch_consumer c,
      cx_producer_domain = cb_domain producer_binding,
      cx_consumer_domain = cb_domain consumer_binding,
      cx_producer_compiled_phase_index = cb_compiled_phase_index producer_binding,
      cx_consumer_compiled_phase_index = cb_compiled_phase_index consumer_binding,
      cx_payload_size = ch_payload_size c,
      cx_mode = ch_mode c,
      cx_maximum_age_ns = ch_maximum_age_ns c,
      cx_first_selection_index = first_index,
      cx_selection_count = selections,
      cx_snapshot_slot_count = slots,
      cx_snapshot_bytes = snapshot_bytes,
      cx_producer_device = ch_producer_device c,
      cx_consumer_device = ch_consumer_device c,
      cx_producer_device_backend = endpoint_side True endpoint de_backend (DeviceBackendHandle invalid_device_handle),
      cx_consumer_device_backend = endpoint_side False endpoint de_backend (DeviceBackendHandle invalid_device_handle),
      cx_producer_device_buffer = endpoint_side True endpoint de_buffer (DeviceBufferHandle invalid_device_handle),
      cx_consumer_device_buffer = endpoint_side False endpoint de_buffer (DeviceBufferHandle invalid_device_handle),
      cx_producer_device_base_offset = endpoint_side True endpoint de_envelope_offset 0,
      cx_consumer_device_base_offset = endpoint_side False endpoint de_envelope_offset 0,
      cx_producer_device_slot_count = endpoint_side True endpoint de_slot_count 0,
      cx_consumer_device_slot_count = endpoint_side False endpoint de_slot_count 0,
      cx_producer_timestamp_domain_identity =
        endpoint_side True endpoint de_timestamp_domain_identity runtime_timestamp_domain_identity\<rparr>"

definition add_channel ::
  "u32 \<Rightarrow> compiled_rate_plan \<Rightarrow> nat option list \<Rightarrow> compiled_device_rate_plan option \<Rightarrow>
     device_buffer_source list \<Rightarrow> nat list \<Rightarrow> nat \<Rightarrow> cross_rate_channel_spec \<Rightarrow> compiled_cross_rate_plan \<Rightarrow>
     cross_rate_diagnostic + compiled_cross_rate_plan" where
  "add_channel graph_owner plan binding_by_phase device_plan device_buffers slot_counts chan c candidate =
     (let producer_binding = plan_bindings plan ! the (binding_by_phase ! phase_number (ch_producer c));
          consumer_binding = plan_bindings plan ! the (binding_by_phase ! phase_number (ch_consumer c));
          has_device_endpoint = (cb_phase_kind producer_binding = kind_device \<or>
                                 cb_phase_kind consumer_binding = kind_device);
          slots = snapshot_slots slot_counts chan
      in sum_bind
           (if has_device_endpoint
            then sum_bind (place_endpoint device_plan device_buffers chan c
                   (cb_phase_kind producer_binding = kind_device) (xp_device_endpoints candidate)) (\<lambda>e. Inr (Some e))
            else Inr None)
           (\<lambda>endpoint.
         sum_bind (select_channel graph_owner plan chan c producer_binding consumer_binding)
           (\<lambda>(firsts, repeats).
         case checked_multiply_size (ch_payload_size c) slots of
           None \<Rightarrow> Inl (cross_error capacity_exceeded ''cross-rate snapshot size is not representable'')
         | Some snapshot_bytes \<Rightarrow>
             (case create_store (ch_payload_size c) slots empty_store of
                (store_status, store) \<Rightarrow>
                  if store_status \<noteq> ok
                  then Inl (cross_error store_status ''cross-rate snapshot store construction failed'')
                  else Inr
                    \<lparr>xp_channels = xp_channels candidate @
                       [describe_channel graph_owner chan c producer_binding consumer_binding
                          (length (xp_selections candidate)) (length firsts * 2) slots snapshot_bytes endpoint],
                     xp_selections = xp_selections candidate @ interleave firsts repeats,
                     xp_stores = xp_stores candidate @ [store],
                     xp_device_endpoints =
                       (case endpoint of None \<Rightarrow> xp_device_endpoints candidate
                        | Some e \<Rightarrow> xp_device_endpoints candidate @ [e]),
                     xp_device_endpoint_index_by_channel =
                       (case endpoint of None \<Rightarrow> xp_device_endpoint_index_by_channel candidate
                        | Some e \<Rightarrow> (xp_device_endpoint_index_by_channel candidate)
                            [chan := Some (length (xp_device_endpoints candidate))])\<rparr>))))"

fun add_channels ::
  "u32 \<Rightarrow> compiled_rate_plan \<Rightarrow> nat option list \<Rightarrow> compiled_device_rate_plan option \<Rightarrow>
     device_buffer_source list \<Rightarrow> nat list \<Rightarrow> nat \<Rightarrow> cross_rate_channel_spec list \<Rightarrow> compiled_cross_rate_plan \<Rightarrow>
     cross_rate_diagnostic + compiled_cross_rate_plan" where
  "add_channels ow plan table device_plan buffers slot_counts index [] candidate = Inr candidate"
| "add_channels ow plan table device_plan buffers slot_counts index (c # cs) candidate =
     sum_bind (add_channel ow plan table device_plan buffers slot_counts index c candidate)
       (add_channels ow plan table device_plan buffers slot_counts (Suc index) cs)"

section \<open>The compiler\<close>

definition endpoint_index_table :: "cross_rate_channel_spec list \<Rightarrow> nat option list" where
  "endpoint_index_table channels =
     (if list_ex (\<lambda>c. selector_valid (ch_producer_device c) \<or> selector_valid (ch_consumer_device c)) channels
      then replicate (length channels) None else [])"

definition compile_cross_rate_channels ::
  "u32 \<Rightarrow> nat \<Rightarrow> compiled_rate_plan \<Rightarrow> cross_rate_channel_spec list \<Rightarrow> compiled_device_rate_plan option \<Rightarrow>
     device_buffer_source list \<Rightarrow> nat list \<Rightarrow> cross_rate_diagnostic + compiled_cross_rate_plan" where
  "compile_cross_rate_channels graph_owner phase_count plan channels device_plan device_buffers slot_counts =
     sum_bind (index_bindings graph_owner phase_count (length (plan_domains plan)) 0 (plan_bindings plan)
                 (replicate phase_count None)) (\<lambda>binding_by_phase.
     sum_bind (validate_channels graph_owner phase_count plan binding_by_phase device_plan device_buffers slot_counts
                 [] channels (0, 0, 0)) (\<lambda>_.
     add_channels graph_owner plan binding_by_phase device_plan device_buffers slot_counts 0 channels
       (empty_cross_rate_plan\<lparr>xp_device_endpoint_index_by_channel := endpoint_index_table channels\<rparr>)))"

definition compile_cross_rate_checked ::
  "u32 \<Rightarrow> nat \<Rightarrow> compiled_rate_plan \<Rightarrow> cross_rate_channel_spec list \<Rightarrow> compiled_device_rate_plan option \<Rightarrow>
     device_buffer_source list \<Rightarrow> nat list \<Rightarrow> cross_rate_diagnostic + compiled_cross_rate_plan" where
  "compile_cross_rate_checked graph_owner phase_count plan channels device_plan device_buffers slot_counts =
     (if (slot_counts \<noteq> [] \<and> length slot_counts \<noteq> length channels) \<or>
         list_ex (\<lambda>count. count \<noteq> 2 \<and> count \<noteq> 4) slot_counts
      then Inl (cross_error invalid_argument ''cross-rate snapshot slot counts are invalid'')
      else if channels = [] then Inr empty_cross_rate_plan
      else if plan_domains plan = []
      then Inl (cross_error invalid_config ''cross-rate channels require an explicit rate model'')
      else if length channels > cross_rate_channel_capacity \<or> length (plan_bindings plan) \<noteq> phase_count
      then Inl (cross_error capacity_exceeded ''cross-rate channel or binding capacity exceeded'')
      else compile_cross_rate_channels graph_owner phase_count plan channels device_plan device_buffers slot_counts)"

definition compile_cross_rate_data ::
  "u32 \<Rightarrow> nat \<Rightarrow> compiled_rate_plan \<Rightarrow> cross_rate_channel_spec list \<Rightarrow> compiled_device_rate_plan option \<Rightarrow>
     device_buffer_source list \<Rightarrow> nat list \<Rightarrow> compiled_cross_rate_plan \<Rightarrow>
     status \<times> compiled_cross_rate_plan \<times> cross_rate_diagnostic" where
  "compile_cross_rate_data graph_owner phase_count plan channels device_plan device_buffers slot_counts output =
     (case compile_cross_rate_checked graph_owner phase_count plan channels device_plan device_buffers slot_counts of
        Inl d \<Rightarrow> (cr_status d, output, d)
      | Inr candidate \<Rightarrow> (ok, candidate, \<lparr>cr_status = ok, cr_message = None\<rparr>))"

end
