(* ===== verification/Cross_Rate_Selections.thy ===== *)
theory Cross_Rate_Selections
  imports Cross_Rate_Data
begin

text \<open>
  Which producer release a consumer release reads.  The compiler searches the ascending list of
  producer releases with a lower bound; the lemmas here turn that search into the greatest
  earlier reference index.
\<close>

section \<open>The most recent earlier release\<close>

definition earlier_releases :: "compiled_rate_plan \<Rightarrow> phase_handle \<Rightarrow> nat \<Rightarrow> nat set" where
  "earlier_releases plan phase j =
     {i. i < j \<and> i < length (plan_releases plan) \<and> rr_phase (plan_releases plan ! i) = phase}"

lemma finite_earlier [simp]: "finite (earlier_releases plan phase j)"
  by (simp add: earlier_releases_def)

lemma filter_upt_split:
  "j \<le> n \<Longrightarrow> filter P [0..<n] = filter P [0..<j] @ filter P [j..<n]"
  using upt_add_eq_append [of 0 j "n - j"] by (simp flip: filter_append)

lemma lower_bound_filter:
  assumes "j \<le> n"
  shows "lower_bound (filter P [0..<n]) j = length (filter P [0..<j])"
proof -
  have "takeWhile (\<lambda>x. x < j) (filter P [j..<n]) = []"
    using hd_in_set [of "filter P [j..<n]"] by (auto simp: takeWhile_eq_Nil_iff)
  moreover have "takeWhile (\<lambda>x. x < j) (filter P [0..<j] @ ys) = filter P [0..<j] @ takeWhile (\<lambda>x. x < j) ys" for ys
    by (rule takeWhile_append2) simp
  ultimately show ?thesis unfolding lower_bound_def filter_upt_split [OF assms] by simp
qed

lemma last_filter_upt:
  "filter P [0..<j] \<noteq> [] \<Longrightarrow> last (filter P [0..<j]) = Max {i. i < j \<and> P i}"
proof (induction j)
  case 0
  then show ?case by simp
next
  case (Suc j)
  have set: "{i. i < Suc j \<and> P i} = (if P j then insert j {i. i < j \<and> P i} else {i. i < j \<and> P i})"
    by (auto simp: less_Suc_eq)
  show ?case
  proof (cases "P j")
    case True
    have "Max (insert j {i. i < j \<and> P i}) = j" by (intro Max_eqI) auto
    then show ?thesis using True set by simp
  next
    case False
    then show ?thesis using Suc set by simp
  qed
qed

lemma releases_of_nonempty: "releases_of plan phase = [] \<longleftrightarrow> earlier_releases plan phase (length (plan_releases plan)) = {}"
  by (auto simp: releases_of_def earlier_releases_def filter_empty_conv)

lemma last_release_of:
  "releases_of plan phase \<noteq> [] \<Longrightarrow>
     last (releases_of plan phase) = Max (earlier_releases plan phase (length (plan_releases plan)))"
  unfolding releases_of_def by (subst last_filter_upt) (simp_all add: earlier_releases_def conj_commute)

lemma releases_before:
  assumes "j \<le> length (plan_releases plan)"
  shows "lower_bound (releases_of plan phase) j \<noteq> 0 \<longleftrightarrow> earlier_releases plan phase j \<noteq> {}"
    and "lower_bound (releases_of plan phase) j \<noteq> 0 \<Longrightarrow>
      releases_of plan phase ! (lower_bound (releases_of plan phase) j - 1) = Max (earlier_releases plan phase j)"
proof -
  let ?P = "\<lambda>i. rr_phase (plan_releases plan ! i) = phase"
  have lb: "lower_bound (releases_of plan phase) j = length (filter ?P [0..<j])"
    unfolding releases_of_def by (rule lower_bound_filter [OF assms])
  have set: "earlier_releases plan phase j = {i. i < j \<and> ?P i}"
    using assms by (auto simp: earlier_releases_def)
  then show "lower_bound (releases_of plan phase) j \<noteq> 0 \<longleftrightarrow> earlier_releases plan phase j \<noteq> {}"
    unfolding lb by (auto simp: filter_empty_conv)
  assume "lower_bound (releases_of plan phase) j \<noteq> 0"
  then have ne: "filter ?P [0..<j] \<noteq> []" unfolding lb by simp
  have "releases_of plan phase ! (length (filter ?P [0..<j]) - 1) = last (filter ?P [0..<j])"
    unfolding releases_of_def filter_upt_split [OF assms] using ne
    by (simp add: nth_append last_conv_nth)
  then show "releases_of plan phase ! (lower_bound (releases_of plan phase) j - 1) = Max (earlier_releases plan phase j)"
    unfolding lb set last_filter_upt [OF ne] .
qed

section \<open>One selection\<close>

text \<open>
  What a selection must say for a consumer record: the latest producer record before it, or in
  the first supercycle the initial sample and later the last record of the previous supercycle.
\<close>

definition reads_latest :: "compiled_rate_plan \<Rightarrow> cross_rate_channel_spec \<Rightarrow> nat \<Rightarrow> bool \<Rightarrow> cross_rate_selection \<Rightarrow> bool" where
  "reads_latest plan c j steady s \<longleftrightarrow>
     (let before = earlier_releases plan (ch_producer c) j;
          newest = (if before \<noteq> {} then Max before
                    else Max (earlier_releases plan (ch_producer c) (length (plan_releases plan))));
          read_time = rr_release_time_ns (plan_releases plan ! j);
          source_time = rr_release_time_ns (plan_releases plan ! newest)
      in cs_consumer_reference_index s = j \<and>
         cs_horizon s = (if steady then repeating_supercycle else first_supercycle) \<and>
         (if before = {} \<and> \<not> steady
          then cs_provenance s = initial_sample \<and> cs_producer_reference_index s = None \<and>
            cs_source_cycle_offset s = 0 \<and> cs_age_ns s = read_time
          else cs_provenance s = produced \<and> cs_producer_reference_index s = Some newest \<and>
            (if before \<noteq> {}
             then cs_source_cycle_offset s = 0 \<and> source_time \<le> read_time \<and>
               unat (cs_age_ns s) = unat read_time - unat source_time
             else cs_source_cycle_offset s = - 1 \<and>
               unat (cs_age_ns s) = unat (plan_supercycle_ns plan - source_time) + unat read_time)) \<and>
         (cs_freshness s = fresh \<longleftrightarrow> ch_maximum_age_ns c = u64_max \<or> cs_age_ns s \<le> ch_maximum_age_ns c))"

lemma checked_age_current:
  "checked_age sc p t False = Some a \<longleftrightarrow> p \<le> t \<and> unat a = unat t - unat p"
  by (auto simp: checked_age_def not_less word_unat_eq_iff unat_sub)

lemma checked_age_prior:
  "checked_age sc p t True = Some a \<longleftrightarrow> unat (sc - p) + unat t < 18446744073709551616 \<and>
     unat a = unat (sc - p) + unat t"
proof -
  have "checked_age sc p t True = checked_add t (sc - p)"
    by (simp add: checked_age_def checked_add_def Let_def add.commute)
  then show ?thesis by (auto simp: checked_add_Some add.commute)
qed

lemma make_selection_source:
  assumes "j < length (plan_releases plan)" and "releases_of plan (ch_producer c) \<noteq> []"
  defines "before \<equiv> earlier_releases plan (ch_producer c) j"
  defines "newest \<equiv> (if before \<noteq> {} then Max before
      else Max (earlier_releases plan (ch_producer c) (length (plan_releases plan))))"
  defines "age \<equiv> checked_age (plan_supercycle_ns plan) (rr_release_time_ns (plan_releases plan ! newest))
      (rr_release_time_ns (plan_releases plan ! j)) (before = {})"
  assumes s_eq: "s = make_selection ow plan k c pb cb (releases_of plan (ch_producer c)) j steady"
  shows "cs_consumer_reference_index s = j"
    and "cs_horizon s = (if steady then repeating_supercycle else first_supercycle)"
    and "cs_provenance s = (if \<not> steady \<and> before = {} then initial_sample else produced)"
    and "cs_producer_reference_index s =
      (if \<not> steady \<and> before = {} then None else map_option (\<lambda>_. newest) age)"
    and "cs_source_cycle_offset s = (if steady \<and> before = {} then - 1 else 0)"
    and "cs_age_ns s = (if \<not> steady \<and> before = {} then rr_release_time_ns (plan_releases plan ! j)
      else case age of None \<Rightarrow> 0 | Some a \<Rightarrow> a)"
    and "cs_freshness s = fresh \<longleftrightarrow> ch_maximum_age_ns c = u64_max \<or> cs_age_ns s \<le> ch_maximum_age_ns c"
    and "cs_held s = False"
proof -
  let ?rel = "releases_of plan (ch_producer c)"
  note rb = releases_before [of j plan "ch_producer c", OF less_imp_le [OF assms(1)], folded before_def]
  have newest: "(if lower_bound ?rel j \<noteq> 0 then ?rel ! (lower_bound ?rel j - 1) else last ?rel) = newest"
    using rb last_release_of [OF assms(2)] by (simp add: newest_def)
  have none: "(\<not> lower_bound ?rel j \<noteq> 0) = (before = {})" using rb(1) by simp
  note s = s_eq [unfolded make_selection_def Let_def newest, unfolded none, folded age_def]
  show "cs_consumer_reference_index s = j"
    and "cs_horizon s = (if steady then repeating_supercycle else first_supercycle)"
    and "cs_provenance s = (if \<not> steady \<and> before = {} then initial_sample else produced)"
    and "cs_producer_reference_index s =
      (if \<not> steady \<and> before = {} then None else map_option (\<lambda>_. newest) age)"
    and "cs_source_cycle_offset s = (if steady \<and> before = {} then - 1 else 0)"
    and "cs_age_ns s = (if \<not> steady \<and> before = {} then rr_release_time_ns (plan_releases plan ! j)
      else case age of None \<Rightarrow> 0 | Some a \<Rightarrow> a)"
    and "cs_freshness s = fresh \<longleftrightarrow> ch_maximum_age_ns c = u64_max \<or> cs_age_ns s \<le> ch_maximum_age_ns c"
    and "cs_held s = False"
    using rb(1) unfolding s by (simp_all split: option.split)
qed

lemma make_selection_reads:
  assumes "j < length (plan_releases plan)" and "releases_of plan (ch_producer c) \<noteq> []"
    and "s = make_selection ow plan k c pb cb (releases_of plan (ch_producer c)) j steady"
    and "earlier_releases plan (ch_producer c) j \<noteq> {} \<or> steady \<Longrightarrow> cs_producer_reference_index s \<noteq> None"
  shows "reads_latest plan c j steady s"
proof -
  note m = make_selection_source [OF assms(1-3)]
  let ?before = "earlier_releases plan (ch_producer c) j"
  let ?all = "earlier_releases plan (ch_producer c) (length (plan_releases plan))"
  let ?time = "\<lambda>i. rr_release_time_ns (plan_releases plan ! i)"
  consider "?before = {}" "\<not> steady" | "?before = {}" steady | "?before \<noteq> {}" by blast
  then show ?thesis
  proof cases
    case 1
    then show ?thesis using m by (simp add: reads_latest_def)
  next
    case 2
    then obtain a where a: "checked_age (plan_supercycle_ns plan) (?time (Max ?all)) (?time j) True = Some a"
      using m(4) assms(4) by auto
    then have "unat a = unat (plan_supercycle_ns plan - ?time (Max ?all)) + unat (?time j)"
      unfolding checked_age_prior by simp
    then show ?thesis using 2 m(1-7) a unfolding reads_latest_def Let_def by simp
  next
    case 3
    then obtain a where a: "checked_age (plan_supercycle_ns plan) (?time (Max ?before)) (?time j) False = Some a"
      using m(4) assms(4) by auto
    then have "?time (Max ?before) \<le> ?time j \<and> unat a = unat (?time j) - unat (?time (Max ?before))"
      unfolding checked_age_current .
    then show ?thesis using 3 m(1-7) a unfolding reads_latest_def Let_def by simp
  qed
qed

end
