(* ===== verification/Cross_Rate_Channels.thy ===== *)
theory Cross_Rate_Channels
  imports Cross_Rate_Selections
begin

text \<open>
  The selections of one channel, and how the compiler lays the channels out one behind the other.
\<close>

section \<open>All selections of a channel\<close>

lemma select_releases_spec:
  assumes "select_releases f prs is = Inr (firsts, repeats)"
  shows "length firsts = length is \<and> length repeats = length is \<and>
    (\<forall>m < length is. firsts ! m = f (is ! m) False \<and> repeats ! m = f (is ! m) True \<and>
       (lower_bound prs (is ! m) \<noteq> 0 \<longrightarrow> cs_producer_reference_index (f (is ! m) False) \<noteq> None) \<and>
       (lower_bound prs (is ! m) = 0 \<longrightarrow> cs_producer_reference_index (f (is ! m) True) \<noteq> None))"
  using assms
proof (induction "is" arbitrary: firsts repeats)
  case Nil
  then show ?case by simp
next
  case (Cons i "is")
  obtain fs rs where rest: "select_releases f prs is = Inr (fs, rs)"
    and eqs: "firsts = f i False # fs" "repeats = f i True # rs"
    and ok: "lower_bound prs i \<noteq> 0 \<longrightarrow> cs_producer_reference_index (f i False) \<noteq> None"
      "lower_bound prs i = 0 \<longrightarrow> cs_producer_reference_index (f i True) \<noteq> None"
    using Cons.prems by (auto simp: Let_def sum_bind_Inr split: if_splits)
  show ?case using Cons.IH [OF rest] ok unfolding eqs by (auto simp: nth_Cons split: nat.splits)
qed

lemma length_hold [simp]: "length (hold_first xs) = length xs" "length (hold_repeating xs) = length xs"
  by (simp_all add: hold_first_def hold_repeating_def)

definition same_source :: "cross_rate_selection \<Rightarrow> cross_rate_selection \<Rightarrow> int \<Rightarrow> bool" where
  "same_source s t cycles \<longleftrightarrow>
     cs_provenance s = cs_provenance t \<and> cs_producer_reference_index s = cs_producer_reference_index t \<and>
     cs_source_cycle_offset s = cycles + cs_source_cycle_offset t"

lemma source_key_eq: "source_key_of s 0 = source_key_of t cycles \<longleftrightarrow> same_source s t cycles"
  by (simp add: source_key_of_def same_source_def)

lemma hold_first_nth:
  "m < length xs \<Longrightarrow> hold_first xs ! m =
     (xs ! m)\<lparr>cs_held := (if m = 0 then cs_held (xs ! m) else same_source (xs ! m) (xs ! (m - 1)) 0)\<rparr>"
  by (cases m) (simp_all add: hold_first_def source_key_eq)

lemma hold_repeating_nth:
  "m < length xs \<Longrightarrow> hold_repeating xs ! m =
     (xs ! m)\<lparr>cs_held := (if m = 0 then same_source (xs ! m) (last xs) (- 1)
                          else same_source (xs ! m) (xs ! (m - 1)) 0)\<rparr>"
  by (cases m) (simp_all add: hold_repeating_def source_key_eq)

lemma reads_latest_held [simp]: "reads_latest plan c j steady (s\<lparr>cs_held := h\<rparr>) \<longleftrightarrow> reads_latest plan c j steady s"
  by (simp add: reads_latest_def)

lemma same_source_held [simp]:
  "same_source (s\<lparr>cs_held := h\<rparr>) t n \<longleftrightarrow> same_source s t n"
  "same_source s (t\<lparr>cs_held := h\<rparr>) n \<longleftrightarrow> same_source s t n"
  by (simp_all add: same_source_def)

text \<open>
  The two lists of selections of a channel: every consumer record reads the latest producer
  record, and a selection is held when it reads the same sample as the one before it.
\<close>

definition selections_ok ::
  "compiled_rate_plan \<Rightarrow> cross_rate_channel_spec \<Rightarrow> cross_rate_selection list \<Rightarrow> cross_rate_selection list \<Rightarrow> bool" where
  "selections_ok plan c firsts repeats \<longleftrightarrow>
     (let js = releases_of plan (ch_consumer c) in
      js \<noteq> [] \<and> length firsts = length js \<and> length repeats = length js \<and>
      (\<forall>m < length js.
         reads_latest plan c (js ! m) False (firsts ! m) \<and> reads_latest plan c (js ! m) True (repeats ! m) \<and>
         (cs_held (firsts ! m) \<longleftrightarrow> m \<noteq> 0 \<and> same_source (firsts ! m) (firsts ! (m - 1)) 0) \<and>
         (cs_held (repeats ! m) \<longleftrightarrow>
            (if m = 0 then same_source (repeats ! m) (last repeats) (- 1)
             else same_source (repeats ! m) (repeats ! (m - 1)) 0))))"

lemma selections_okD:
  assumes "selections_ok plan c firsts repeats"
  shows "length firsts = length (releases_of plan (ch_consumer c))"
    and "length repeats = length (releases_of plan (ch_consumer c))"
    and "m < length (releases_of plan (ch_consumer c)) \<Longrightarrow>
      reads_latest plan c (releases_of plan (ch_consumer c) ! m) False (firsts ! m)"
    and "m < length (releases_of plan (ch_consumer c)) \<Longrightarrow>
      reads_latest plan c (releases_of plan (ch_consumer c) ! m) True (repeats ! m)"
  using assms by (simp_all add: selections_ok_def Let_def)

lemma select_channel_spec:
  assumes "select_channel ow plan k c pb cb = Inr (firsts, repeats)"
  shows "selections_ok plan c firsts repeats"
proof -
  let ?prs = "releases_of plan (ch_producer c)" and ?js = "releases_of plan (ch_consumer c)"
  let ?f = "make_selection ow plan k c pb cb ?prs"
  obtain fs rs where sel: "select_releases ?f ?prs ?js = Inr (fs, rs)"
    and held: "firsts = hold_first fs" "repeats = hold_repeating rs" and ne: "?prs \<noteq> []" "?js \<noteq> []"
    using assms by (auto simp: select_channel_def Let_def sum_bind_Inr split: if_splits)
  note spec = select_releases_spec [OF sel]
  have len: "length fs = length ?js" "length rs = length ?js" using spec by simp_all
  have one: "reads_latest plan c (?js ! m) False (fs ! m) \<and> reads_latest plan c (?js ! m) True (rs ! m) \<and>
      \<not> cs_held (fs ! m)" if m: "m < length ?js" for m
  proof -
    let ?j = "?js ! m"
    have j: "?j < length (plan_releases plan)" using nth_mem [OF m] by (simp add: releases_of_def)
    have fs: "fs ! m = ?f ?j False" and rs: "rs ! m = ?f ?j True"
      and first: "lower_bound ?prs ?j \<noteq> 0 \<longrightarrow> cs_producer_reference_index (?f ?j False) \<noteq> None"
      and later: "lower_bound ?prs ?j = 0 \<longrightarrow> cs_producer_reference_index (?f ?j True) \<noteq> None"
      using spec m by blast+
    note before = releases_before(1) [OF less_imp_le [OF j], of "ch_producer c"]
    note f = make_selection_source [OF j ne(1) fs] and r = make_selection_source [OF j ne(1) rs]
    have "reads_latest plan c ?j False (fs ! m)"
      by (rule make_selection_reads [OF j ne(1) fs]) (use first before fs in auto)
    moreover have "reads_latest plan c ?j True (rs ! m)"
    proof (rule make_selection_reads [OF j ne(1) rs])
      show "cs_producer_reference_index (rs ! m) \<noteq> None"
      proof (cases "lower_bound ?prs ?j = 0")
        case True
        then show ?thesis using later rs by simp
      next
        case False
        then have "earlier_releases plan (ch_producer c) ?j \<noteq> {}" using before by simp
        then have "cs_producer_reference_index (rs ! m) = cs_producer_reference_index (fs ! m)"
          unfolding f(4) r(4) by simp
        then show ?thesis using first False fs by simp
      qed
    qed
    ultimately show ?thesis using f(8) by blast
  qed
  have lasts: "last repeats = (last rs)\<lparr>cs_held := cs_held (last repeats)\<rparr>"
    using ne(2) len unfolding held
    by (simp add: last_conv_nth hold_repeating_nth length_greater_0_conv [symmetric] del: length_greater_0_conv)
  show ?thesis
    unfolding selections_ok_def Let_def
  proof (intro conjI allI impI)
    show "?js \<noteq> []" by (rule ne(2))
    show "length firsts = length ?js" "length repeats = length ?js" using len by (simp_all add: held)
    fix m
    assume m: "m < length ?js"
    show "reads_latest plan c (?js ! m) False (firsts ! m)" "reads_latest plan c (?js ! m) True (repeats ! m)"
      using one [OF m] m len by (simp_all add: held hold_first_nth hold_repeating_nth)
    show "cs_held (firsts ! m) \<longleftrightarrow> m \<noteq> 0 \<and> same_source (firsts ! m) (firsts ! (m - 1)) 0"
      using one [OF m] m len by (cases m) (simp_all add: held hold_first_nth)
    show "cs_held (repeats ! m) \<longleftrightarrow>
        (if m = 0 then same_source (repeats ! m) (last repeats) (- 1)
         else same_source (repeats ! m) (repeats ! (m - 1)) 0)"
      using m len by (subst lasts) (cases m, simp_all add: held hold_repeating_nth)
  qed
qed

section \<open>Layout\<close>

lemma length_interleave: "length xs = length ys \<Longrightarrow> length (interleave xs ys) = 2 * length xs"
  by (induction xs ys rule: interleave.induct) auto

lemma set_interleave: "length xs = length ys \<Longrightarrow> set (interleave xs ys) = set xs \<union> set ys"
  by (induction xs ys rule: interleave.induct) auto

definition channel_slice :: "compiled_cross_rate_plan \<Rightarrow> nat \<Rightarrow> cross_rate_selection list" where
  "channel_slice xp k =
     take (cx_selection_count (xp_channels xp ! k)) (drop (cx_first_selection_index (xp_channels xp ! k)) (xp_selections xp))"

definition channel_compiled :: "compiled_rate_plan \<Rightarrow> cross_rate_channel_spec \<Rightarrow> nat \<Rightarrow> compiled_cross_rate_plan \<Rightarrow> bool" where
  "channel_compiled plan c k xp \<longleftrightarrow>
     cx_registration_index (xp_channels xp ! k) = k \<and>
     cx_producer (xp_channels xp ! k) = ch_producer c \<and> cx_consumer (xp_channels xp ! k) = ch_consumer c \<and>
     cx_first_selection_index (xp_channels xp ! k) + cx_selection_count (xp_channels xp ! k) \<le> length (xp_selections xp) \<and>
     create_store (ch_payload_size c) (cx_snapshot_slot_count (xp_channels xp ! k)) empty_store = (ok, xp_stores xp ! k) \<and>
     (\<exists>firsts repeats. selections_ok plan c firsts repeats \<and> channel_slice xp k = interleave firsts repeats)"

lemma channel_compiled_extend:
  assumes "channel_compiled plan c k xp" and "k < length (xp_channels xp)" and "k < length (xp_stores xp)"
    and "xp_channels xp' = xp_channels xp @ chs" and "xp_selections xp' = xp_selections xp @ sels"
    and "xp_stores xp' = xp_stores xp @ sts"
  shows "channel_compiled plan c k xp'"
  using assms unfolding channel_compiled_def channel_slice_def by (auto simp: nth_append)

lemma add_channel_parts:
  assumes "add_channel ow plan table dv bufs sc k c xp = Inr xp'"
  defines "pb \<equiv> plan_bindings plan ! the (table ! phase_number (ch_producer c))"
  defines "cb \<equiv> plan_bindings plan ! the (table ! phase_number (ch_consumer c))"
  obtains endpoint firsts repeats store bytes where
    "(if cb_phase_kind pb = kind_device \<or> cb_phase_kind cb = kind_device
      then sum_bind (place_endpoint dv bufs k c (cb_phase_kind pb = kind_device) (xp_device_endpoints xp))
             (\<lambda>e. Inr (Some e))
      else Inr None) = Inr endpoint"
    "selections_ok plan c firsts repeats"
    "create_store (ch_payload_size c) (snapshot_slots sc k) empty_store = (ok, store)"
    "xp' = \<lparr>xp_channels = xp_channels xp @
         [describe_channel ow k c pb cb (length (xp_selections xp)) (length firsts * 2) (snapshot_slots sc k) bytes endpoint],
       xp_selections = xp_selections xp @ interleave firsts repeats,
       xp_stores = xp_stores xp @ [store],
       xp_device_endpoints =
         (case endpoint of None \<Rightarrow> xp_device_endpoints xp | Some e \<Rightarrow> xp_device_endpoints xp @ [e]),
       xp_device_endpoint_index_by_channel =
         (case endpoint of None \<Rightarrow> xp_device_endpoint_index_by_channel xp
          | Some e \<Rightarrow> (xp_device_endpoint_index_by_channel xp)[k := Some (length (xp_device_endpoints xp))])\<rparr>"
proof -
  note parts = assms(1) [unfolded add_channel_def Let_def sum_bind_Inr, folded pb_def cb_def]
  then obtain endpoint sel where e: "(if cb_phase_kind pb = kind_device \<or> cb_phase_kind cb = kind_device
      then sum_bind (place_endpoint dv bufs k c (cb_phase_kind pb = kind_device) (xp_device_endpoints xp))
             (\<lambda>e. Inr (Some e))
      else Inr None) = Inr endpoint"
    and s: "select_channel ow plan k c pb cb = Inr sel"
    and r: "(case sel of (firsts, repeats) \<Rightarrow>
         case checked_multiply_size (ch_payload_size c) (snapshot_slots sc k) of
           None \<Rightarrow> Inl (cross_error capacity_exceeded ''cross-rate snapshot size is not representable'')
         | Some snapshot_bytes \<Rightarrow>
             (case create_store (ch_payload_size c) (snapshot_slots sc k) empty_store of
                (store_status, store) \<Rightarrow>
                  if store_status \<noteq> ok
                  then Inl (cross_error store_status ''cross-rate snapshot store construction failed'')
                  else Inr
                    \<lparr>xp_channels = xp_channels xp @
                       [describe_channel ow k c pb cb
                          (length (xp_selections xp)) (length firsts * 2) (snapshot_slots sc k) snapshot_bytes endpoint],
                     xp_selections = xp_selections xp @ interleave firsts repeats,
                     xp_stores = xp_stores xp @ [store],
                     xp_device_endpoints =
                       (case endpoint of None \<Rightarrow> xp_device_endpoints xp
                        | Some e \<Rightarrow> xp_device_endpoints xp @ [e]),
                     xp_device_endpoint_index_by_channel =
                       (case endpoint of None \<Rightarrow> xp_device_endpoint_index_by_channel xp
                        | Some e \<Rightarrow> (xp_device_endpoint_index_by_channel xp)
                            [k := Some (length (xp_device_endpoints xp))])\<rparr>)) = Inr xp'"
    by blast
  obtain firsts repeats where sel: "sel = (firsts, repeats)" by (cases sel)
  have sok: "selections_ok plan c firsts repeats" using s unfolding sel by (rule select_channel_spec)
  obtain bytes where bytes: "checked_multiply_size (ch_payload_size c) (snapshot_slots sc k) = Some bytes"
    using r unfolding sel by (cases "checked_multiply_size (ch_payload_size c) (snapshot_slots sc k)") simp_all
  obtain store where st: "create_store (ch_payload_size c) (snapshot_slots sc k) empty_store = (ok, store)"
    using r unfolding sel by (cases "create_store (ch_payload_size c) (snapshot_slots sc k) empty_store")
      (simp add: bytes split: if_splits)
  show thesis by (rule that [OF e sok st, of bytes]) (use r in \<open>simp add: sel bytes st\<close>)
qed

lemma add_channels_spec:
  assumes "add_channels ow plan table dv bufs sc (length done) cs xp = Inr xp'"
    and "length (xp_channels xp) = length done" and "length (xp_stores xp) = length done"
    and "\<forall>k < length done. channel_compiled plan (done ! k) k xp"
  shows "length (xp_channels xp') = length (done @ cs) \<and> length (xp_stores xp') = length (done @ cs) \<and>
    (\<forall>k < length (done @ cs). channel_compiled plan ((done @ cs) ! k) k xp')"
  using assms
proof (induction cs arbitrary: "done" xp)
  case Nil
  then show ?case by simp
next
  case (Cons c cs)
  obtain xp1 where step: "add_channel ow plan table dv bufs sc (length done) c xp = Inr xp1"
    and rest: "add_channels ow plan table dv bufs sc (length (done @ [c])) cs xp1 = Inr xp'"
    using Cons.prems(1) by (auto simp: sum_bind_Inr)
  obtain d firsts repeats store where p: "xp_channels xp1 = xp_channels xp @ [d]"
    "xp_selections xp1 = xp_selections xp @ interleave firsts repeats"
    "xp_stores xp1 = xp_stores xp @ [store]" "selections_ok plan c firsts repeats"
    "cx_registration_index d = length done" "cx_producer d = ch_producer c" "cx_consumer d = ch_consumer c"
    "cx_first_selection_index d = length (xp_selections xp)" "cx_selection_count d = length firsts * 2"
    "create_store (ch_payload_size c) (cx_snapshot_slot_count d) empty_store = (ok, store)"
    by (rule add_channel_parts [OF step]) (simp add: describe_channel_def)
  have len: "length (interleave firsts repeats) = length firsts * 2"
    using selections_okD(1,2) [OF p(4)] length_interleave [of firsts repeats] by simp
  have "channel_compiled plan ((done @ [c]) ! k) k xp1" if "k < length (done @ [c])" for k
  proof (cases "k < length done")
    case True
    then show ?thesis
      using channel_compiled_extend [OF _ _ _ p(1,2,3), of plan "done ! k" k] Cons.prems(2,3,4)
      by (simp add: nth_append)
  next
    case False
    then have "k = length done" using that by simp
    then show ?thesis
      using p len Cons.prems(2,3) unfolding channel_compiled_def channel_slice_def
      by (auto simp: nth_append)
  qed
  then show ?case
    using Cons.IH [OF rest] p(1,3) Cons.prems(2,3) by simp
qed

text \<open>The selections and the stores of all channels follow each other in channel order.\<close>

lemma add_channels_layout:
  assumes "add_channels ow plan table dv bufs sc k cs xp = Inr xp'"
  shows "\<exists>sels. xp_selections xp' = xp_selections xp @ concat (map (\<lambda>(f, r). interleave f r) sels) \<and>
      list_all2 (\<lambda>c (f, r). selections_ok plan c f r) cs sels"
    and "\<exists>sts. xp_stores xp' = xp_stores xp @ sts \<and>
      list_all2 (\<lambda>(i, c) st. create_store (ch_payload_size c) (snapshot_slots sc i) empty_store = (ok, st))
        (enumerate k cs) sts"
  using assms
proof (induction cs arbitrary: k xp)
  case Nil
  {
    case 1
    then show ?case by simp
  next
    case 2
    then show ?case by simp
  }
next
  case (Cons c cs)
  {
    case (1 k xp)
    then obtain xp1 where step: "add_channel ow plan table dv bufs sc k c xp = Inr xp1"
      and rest: "add_channels ow plan table dv bufs sc (Suc k) cs xp1 = Inr xp'"
      by (auto simp: sum_bind_Inr)
    obtain f r where "xp_selections xp1 = xp_selections xp @ interleave f r" "selections_ok plan c f r"
      by (rule add_channel_parts [OF step]) simp
    moreover obtain sels where "xp_selections xp' = xp_selections xp1 @ concat (map (\<lambda>(f, r). interleave f r) sels)"
      "list_all2 (\<lambda>c (f, r). selections_ok plan c f r) cs sels"
      using Cons.IH(1) [OF rest] by blast
    ultimately show ?case by (intro exI [of _ "(f, r) # sels"]) simp
  next
    case (2 k xp)
    then obtain xp1 where step: "add_channel ow plan table dv bufs sc k c xp = Inr xp1"
      and rest: "add_channels ow plan table dv bufs sc (Suc k) cs xp1 = Inr xp'"
      by (auto simp: sum_bind_Inr)
    obtain st where "xp_stores xp1 = xp_stores xp @ [st]"
      "create_store (ch_payload_size c) (snapshot_slots sc k) empty_store = (ok, st)"
      by (rule add_channel_parts [OF step]) simp
    moreover obtain sts where "xp_stores xp' = xp_stores xp1 @ sts"
      "list_all2 (\<lambda>(i, c) st. create_store (ch_payload_size c) (snapshot_slots sc i) empty_store = (ok, st))
        (enumerate (Suc k) cs) sts"
      using Cons.IH(2) [OF rest] by blast
    ultimately show ?case by (intro exI [of _ "st # sts"]) simp
  }
qed

end
