(* ===== verification/Cross_Rate_Validation.thy ===== *)
theory Cross_Rate_Validation
  imports Cross_Rate_Channels
begin

text \<open>
  What the checks of the cross-rate compiler amount to: the binding table is total and holds the
  one binding of every phase, and the three running totals stay within their capacities exactly
  when their sums do.
\<close>

section \<open>The binding table\<close>

abbreviation bound_phase :: "compiled_rate_binding \<Rightarrow> nat" where
  "bound_phase b \<equiv> phase_number (cb_phase b)"

definition binding_well_formed :: "u32 \<Rightarrow> nat \<Rightarrow> nat \<Rightarrow> compiled_rate_binding \<Rightarrow> bool" where
  "binding_well_formed ow n m b \<longleftrightarrow>
     phase_valid (cb_phase b) \<and> phase_owner (cb_phase b) = ow \<and> bound_phase b < n \<and>
     rate_domain_valid (cb_domain b) \<and> rate_domain_owner (cb_domain b) = ow \<and>
     rate_domain_number (cb_domain b) < m \<and> cb_compiled_phase_index b < n"

definition bindings_total :: "u32 \<Rightarrow> nat \<Rightarrow> compiled_rate_plan \<Rightarrow> bool" where
  "bindings_total ow n plan \<longleftrightarrow>
     length (plan_bindings plan) = n \<and>
     list_all (binding_well_formed ow n (length (plan_domains plan))) (plan_bindings plan) \<and>
     distinct (map bound_phase (plan_bindings plan))"

definition binding_of :: "compiled_rate_plan \<Rightarrow> phase_handle \<Rightarrow> compiled_rate_binding" where
  "binding_of plan p = hd (filter (\<lambda>b. bound_phase b = phase_number p) (plan_bindings plan))"

lemma index_bindings_Inr:
  assumes "length table = n"
  shows "(\<exists>t. index_bindings ow n m k bs table = Inr t) \<longleftrightarrow>
    list_all (binding_well_formed ow n m) bs \<and> distinct (map bound_phase bs) \<and>
    (\<forall>b \<in> set bs. table ! bound_phase b = None)"
  using assms
proof (induction bs arbitrary: k table)
  case Nil
  then show ?case by simp
next
  case (Cons b bs)
  let ?table = "table[bound_phase b := Some k]"
  have rejected: "endpoint_binding_rejected ow n m b table \<longleftrightarrow>
      \<not> (binding_well_formed ow n m b \<and> table ! bound_phase b = None)"
    by (auto simp: endpoint_binding_rejected_def binding_well_formed_def)
  show ?case
  proof (cases "binding_well_formed ow n m b \<and> table ! bound_phase b = None")
    case True
    then have "bound_phase b < length table" using Cons.prems by (simp add: binding_well_formed_def)
    then have "?table ! bound_phase x = None \<longleftrightarrow> bound_phase x \<noteq> bound_phase b \<and> table ! bound_phase x = None" for x
      by (auto simp: nth_list_update)
    then have "(\<forall>x \<in> set bs. ?table ! bound_phase x = None) \<longleftrightarrow>
        bound_phase b \<notin> bound_phase ` set bs \<and> (\<forall>x \<in> set bs. table ! bound_phase x = None)"
      by (auto simp: image_iff)
    then show ?thesis using Cons.IH [of ?table "Suc k"] True Cons.prems rejected by simp blast
  next
    case False
    then show ?thesis by (auto simp: rejected)
  qed
qed

lemma index_bindings_length:
  "index_bindings ow n m k bs table = Inr t \<Longrightarrow> length t = length table"
  by (induction bs arbitrary: k table) (force split: if_splits)+

lemma index_bindings_other:
  "index_bindings ow n m k bs table = Inr t \<Longrightarrow> p \<notin> bound_phase ` set bs \<Longrightarrow> t ! p = table ! p"
  by (induction bs arbitrary: k table) (force split: if_splits)+

lemma index_bindings_nth:
  assumes "index_bindings ow n m k bs table = Inr t" and "length table = n" and "i < length bs"
  shows "t ! bound_phase (bs ! i) = Some (k + i)"
  using assms
proof (induction bs arbitrary: k table i)
  case Nil
  then show ?case by simp
next
  case (Cons b bs)
  let ?table = "table[bound_phase b := Some k]"
  have rest: "index_bindings ow n m (Suc k) bs ?table = Inr t"
    and fits: "bound_phase b < n"
    using Cons.prems(1) by (simp_all add: endpoint_binding_rejected_def split: if_splits)
  show ?case
  proof (cases i)
    case 0
    have "distinct (map bound_phase (b # bs))"
      using index_bindings_Inr [OF Cons.prems(2), of ow m k "b # bs"] Cons.prems(1) by blast
    then show ?thesis using 0 index_bindings_other [OF rest, of "bound_phase b"] fits Cons.prems(2) by simp
  next
    case (Suc j)
    then show ?thesis using Cons.IH [OF rest, of j] Cons.prems(2,3) by simp
  qed
qed

lemma filter_single:
  assumes "distinct (map f xs)" and "i < length xs"
  shows "filter (\<lambda>x. f x = f (xs ! i)) xs = [xs ! i]"
  using assms
proof (induction xs arbitrary: i)
  case Nil
  then show ?case by simp
next
  case (Cons x xs)
  show ?case
  proof (cases i)
    case 0
    have "filter (\<lambda>y. f y = f x) xs = []"
      using Cons.prems(1) by (auto simp: filter_empty_conv image_iff)
    then show ?thesis using 0 by simp
  next
    case (Suc j)
    then have "f x \<noteq> f (xs ! j)" using Cons.prems by (auto simp: image_iff dest: nth_mem)
    then show ?thesis using Cons Suc by simp
  qed
qed

text \<open>As many bindings as phases, none twice: every phase is bound, so the table has no gap.\<close>

lemma binding_table:
  assumes total: "bindings_total ow n plan"
    and table: "index_bindings ow n m 0 (plan_bindings plan) (replicate n None) = Inr t"
    and p: "phase_number p < n"
  shows "\<exists>i. t ! phase_number p = Some i \<and> i < n \<and> plan_bindings plan ! i = binding_of plan p"
proof -
  let ?bs = "plan_bindings plan"
  have "bound_phase ` set ?bs \<subseteq> {..<n}"
    using total by (auto simp: bindings_total_def binding_well_formed_def list_all_iff)
  moreover have "card (bound_phase ` set ?bs) = n"
    using total distinct_card [of "map bound_phase ?bs"] by (simp add: bindings_total_def)
  ultimately have "bound_phase ` set ?bs = {..<n}" by (intro card_subset_eq) simp_all
  then have "phase_number p \<in> bound_phase ` set ?bs" using p by simp
  then obtain i where i: "i < length ?bs" "phase_number p = bound_phase (?bs ! i)"
    by (auto simp: in_set_conv_nth)
  have "filter (\<lambda>b. bound_phase b = bound_phase (?bs ! i)) ?bs = [?bs ! i]"
    using total i(1) by (intro filter_single) (simp_all add: bindings_total_def)
  then have "binding_of plan p = ?bs ! i" using i(2) by (simp add: binding_of_def)
  moreover have "t ! phase_number p = Some i"
    using index_bindings_nth [OF table _ i(1)] i(2) by simp
  ultimately show ?thesis using i(1) total by (auto simp: bindings_total_def)
qed

section \<open>Capacities\<close>

lemma checked_multiply_size_eq:
  "checked_multiply_size a b = (if a * b \<le> size_max then Some (a * b) else None)"
proof (cases "a = 0")
  case False
  then have "size_max div a < b \<longleftrightarrow> \<not> a * b \<le> size_max"
    using less_eq_div_iff_mult_less_eq [of a b size_max] by (auto simp: mult.commute not_le)
  then show ?thesis using False by (simp add: checked_multiply_size_def)
qed (simp add: checked_multiply_size_def)

lemma grow_eq:
  assumes "capacity \<le> size_max"
  shows "grow amount (Some k) capacity = (if amount + k \<le> capacity then Some (amount + k) else None)"
  using assms by (auto simp: grow_def checked_add_size_def)

lemma grow_product:
  assumes "capacity \<le> size_max"
  shows "grow amount (checked_multiply_size a b) capacity =
    (if amount + a * b \<le> capacity then Some (amount + a * b) else None)"
proof (cases "a * b \<le> size_max")
  case True
  then show ?thesis using grow_eq [OF assms] by (simp add: checked_multiply_size_eq)
next
  case False
  then show ?thesis using assms by (simp add: checked_multiply_size_eq grow_def)
qed

lemmas cross_capacities =
  cross_rate_initial_bytes_capacity_def cross_rate_snapshot_bytes_capacity_def
  cross_rate_selection_capacity_def size_max_def

definition within_capacity :: "nat \<times> nat \<times> nat \<Rightarrow> bool" where
  "within_capacity = (\<lambda>(initial_bytes, snapshot_bytes, selection_count).
     initial_bytes \<le> cross_rate_initial_bytes_capacity \<and> snapshot_bytes \<le> cross_rate_snapshot_bytes_capacity \<and>
     selection_count \<le> cross_rate_selection_capacity)"

definition channel_load :: "compiled_rate_plan \<Rightarrow> nat \<Rightarrow> cross_rate_channel_spec \<Rightarrow> nat \<times> nat \<times> nat" where
  "channel_load plan slots c =
     (length (ch_initial_sample c), ch_payload_size c * slots, consumer_release_count plan (ch_consumer c) * 2)"

definition add_load :: "nat \<times> nat \<times> nat \<Rightarrow> nat \<times> nat \<times> nat \<Rightarrow> nat \<times> nat \<times> nat" where
  "add_load = (\<lambda>(a, b, c) (a', b', c'). (a + a', b + b', c + c'))"

lemma reserve_channel_Inr:
  "reserve_channel plan slots c load = Inr load' \<longleftrightarrow>
     consumer_release_count plan (ch_consumer c) \<noteq> 0 \<and>
     load' = add_load load (channel_load plan slots c) \<and> within_capacity load'"
  by (cases load)
    (auto simp: reserve_channel_def grow_product grow_eq cross_capacities within_capacity_def channel_load_def
      add_load_def Let_def)

fun total_load :: "compiled_rate_plan \<Rightarrow> nat list \<Rightarrow> nat \<Rightarrow> cross_rate_channel_spec list \<Rightarrow> nat \<times> nat \<times> nat" where
  "total_load plan slot_counts k [] = (0, 0, 0)"
| "total_load plan slot_counts k (c # cs) =
     add_load (channel_load plan (snapshot_slots slot_counts k) c) (total_load plan slot_counts (Suc k) cs)"

lemma add_load_assoc: "add_load (add_load a b) c = add_load a (add_load b c)"
  by (simp add: add_load_def split: prod.splits)

lemma add_load_zero [simp]: "add_load a (0, 0, 0) = a" "add_load (0, 0, 0) a = a"
  by (simp_all add: add_load_def split: prod.splits)

lemma within_capacity_add: "within_capacity (add_load a b) \<Longrightarrow> within_capacity a"
  by (auto simp: within_capacity_def add_load_def split: prod.splits)

section \<open>Validation\<close>

lemma duplicate_channel_None:
  "duplicate_channel earlier c = None \<longleftrightarrow>
     ch_name c \<notin> ch_name ` set earlier \<and>
     (ch_producer c, ch_consumer c) \<notin> (\<lambda>e. (ch_producer e, ch_consumer e)) ` set earlier"
  by (induction earlier) auto

definition uses_device :: "compiled_rate_plan \<Rightarrow> phase_handle \<Rightarrow> bool" where
  "uses_device plan p \<longleftrightarrow> cb_phase_kind (binding_of plan p) = kind_device"

definition channel_well_formed ::
  "u32 \<Rightarrow> nat \<Rightarrow> compiled_rate_plan \<Rightarrow> compiled_device_rate_plan option \<Rightarrow> device_buffer_source list \<Rightarrow>
     cross_rate_channel_spec \<Rightarrow> bool" where
  "channel_well_formed ow n plan dv bufs c \<longleftrightarrow>
     \<not> channel_malformed c \<and> \<not> channel_foreign ow n c \<and> ch_producer c \<noteq> ch_consumer c \<and>
     \<not> selectors_mismatch c (uses_device plan (ch_producer c)) (uses_device plan (ch_consumer c)) \<and>
     (uses_device plan (ch_producer c) \<or> uses_device plan (ch_consumer c) \<longrightarrow>
        compile_device_endpoint dv bufs c (uses_device plan (ch_producer c)) \<noteq> None) \<and>
     cb_domain (binding_of plan (ch_producer c)) \<noteq> cb_domain (binding_of plan (ch_consumer c)) \<and>
     releases_of plan (ch_consumer c) \<noteq> []"

lemma consumer_release_count_eq: "consumer_release_count plan p = length (releases_of plan p)"
proof -
  have "filter (\<lambda>r. rr_phase r = p) (map ((!) (plan_releases plan)) [0..<length (plan_releases plan)]) =
      map ((!) (plan_releases plan)) (releases_of plan p)"
    by (simp add: filter_map releases_of_def o_def)
  then show ?thesis by (simp add: consumer_release_count_def map_nth)
qed

lemma validate_channel_Inr:
  assumes total: "bindings_total ow n plan"
    and table: "index_bindings ow n m 0 (plan_bindings plan) (replicate n None) = Inr t"
  shows "validate_channel ow n plan t dv bufs earlier slots c load = Inr load' \<longleftrightarrow>
    channel_well_formed ow n plan dv bufs c \<and> duplicate_channel earlier c = None \<and>
    load' = add_load load (channel_load plan slots c) \<and> within_capacity load'"
proof (cases "channel_malformed c \<or> channel_foreign ow n c \<or> ch_producer c = ch_consumer c")
  case True
  then show ?thesis by (auto simp: validate_channel_def channel_well_formed_def)
next
  case False
  then have "phase_number (ch_producer c) < n" "phase_number (ch_consumer c) < n"
    by (simp_all add: channel_foreign_def)
  then obtain i j where ij: "t ! phase_number (ch_producer c) = Some i" "t ! phase_number (ch_consumer c) = Some j"
    "plan_bindings plan ! i = binding_of plan (ch_producer c)"
    "plan_bindings plan ! j = binding_of plan (ch_consumer c)"
    using binding_table [OF total table] by meson
  show ?thesis
    using False unfolding validate_channel_def
    by (auto simp: ij Let_def uses_device_def [symmetric] channel_well_formed_def reserve_channel_Inr
        consumer_release_count_eq split: option.splits)
qed

lemma validate_channels_Inr:
  assumes "bindings_total ow n plan"
    and "index_bindings ow n m 0 (plan_bindings plan) (replicate n None) = Inr t"
    and "within_capacity load"
  shows "(\<exists>load'. validate_channels ow n plan t dv bufs sc earlier cs load = Inr load') \<longleftrightarrow>
    list_all (channel_well_formed ow n plan dv bufs) cs \<and>
    distinct (map ch_name cs) \<and> ch_name ` set earlier \<inter> ch_name ` set cs = {} \<and>
    distinct (map (\<lambda>c. (ch_producer c, ch_consumer c)) cs) \<and>
    (\<lambda>c. (ch_producer c, ch_consumer c)) ` set earlier \<inter> (\<lambda>c. (ch_producer c, ch_consumer c)) ` set cs = {} \<and>
    within_capacity (add_load load (total_load plan sc (length earlier) cs))"
  using assms(3)
proof (induction cs arbitrary: earlier load)
  case Nil
  then show ?case by (cases load) simp
next
  case (Cons c cs)
  let ?load = "add_load load (channel_load plan (snapshot_slots sc (length earlier)) c)"
  let ?edge = "\<lambda>c. (ch_producer c, ch_consumer c)"
  have step: "(\<exists>load'. validate_channels ow n plan t dv bufs sc earlier (c # cs) load = Inr load') \<longleftrightarrow>
      channel_well_formed ow n plan dv bufs c \<and> duplicate_channel earlier c = None \<and> within_capacity ?load \<and>
      (\<exists>load'. validate_channels ow n plan t dv bufs sc (earlier @ [c]) cs ?load = Inr load')"
    by (auto simp: sum_bind_Inr validate_channel_Inr [OF assms(1,2)])
  have total: "add_load ?load (total_load plan sc (Suc (length earlier)) cs) =
      add_load load (total_load plan sc (length earlier) (c # cs))"
    by (simp add: add_load_assoc)
  show ?case
  proof (cases "within_capacity ?load")
    case True
    show ?thesis unfolding step Cons.IH [OF True] duplicate_channel_None length_append_singleton total
      using True by auto
  next
    case False
    then have "\<not> within_capacity (add_load load (total_load plan sc (length earlier) (c # cs)))"
      unfolding total [symmetric] using within_capacity_add by blast
    then show ?thesis unfolding step using False by blast
  qed
qed

end
