(* ===== verification/Cross_Rate_Plans.thy ===== *)
theory Cross_Rate_Plans
  imports Cross_Rate_Validation
begin

text \<open>
  When the second pass of the cross-rate compiler succeeds, and what it has then placed where.
\<close>

section \<open>Ages\<close>

text \<open>
  The age of what the consumer record \<open>j\<close> reads fits into 64 bits: time does not run backwards
  between the producer record and \<open>j\<close>, or the age across the supercycle boundary does not wrap.
\<close>

definition age_representable :: "compiled_rate_plan \<Rightarrow> phase_handle \<Rightarrow> nat \<Rightarrow> bool" where
  "age_representable plan producer j \<longleftrightarrow>
     (let before = earlier_releases plan producer j;
          newest = (if before \<noteq> {} then Max before
                    else Max (earlier_releases plan producer (length (plan_releases plan))));
          read_time = rr_release_time_ns (plan_releases plan ! j);
          source_time = rr_release_time_ns (plan_releases plan ! newest)
      in if before \<noteq> {} then source_time \<le> read_time
         else unat (plan_supercycle_ns plan - source_time) + unat read_time < 18446744073709551616)"

definition channel_readable :: "compiled_rate_plan \<Rightarrow> cross_rate_channel_spec \<Rightarrow> bool" where
  "channel_readable plan c \<longleftrightarrow>
     releases_of plan (ch_producer c) \<noteq> [] \<and>
     list_all (age_representable plan (ch_producer c)) (releases_of plan (ch_consumer c))"

lemma checked_age_defined:
  "checked_age sc p t prior \<noteq> None \<longleftrightarrow> (if prior then unat (sc - p) + unat t < 18446744073709551616 else p \<le> t)"
proof -
  have "checked_age sc p t True = checked_add t (sc - p)"
    by (simp add: checked_age_def checked_add_def Let_def add.commute)
  then show ?thesis by (cases prior) (auto simp: checked_add_None checked_age_def add.commute)
qed

lemma select_releases_defined:
  "(\<exists>x. select_releases f prs is = Inr x) \<longleftrightarrow>
     list_all (\<lambda>i. cs_producer_reference_index (f i (lower_bound prs i = 0)) \<noteq> None) is"
proof (induction "is")
  case Nil
  then show ?case by simp
next
  case (Cons i "is")
  then show ?case by (cases "lower_bound prs i = 0") (auto simp: sum_bind_Inr Let_def)
qed

lemma select_channel_defined:
  "(\<exists>x. select_channel ow plan k c pb cb = Inr x) \<longleftrightarrow>
     releases_of plan (ch_consumer c) \<noteq> [] \<and> channel_readable plan c"
proof (cases "releases_of plan (ch_producer c) = [] \<or> releases_of plan (ch_consumer c) = []")
  case True
  then show ?thesis by (auto simp: select_channel_def channel_readable_def)
next
  case False
  let ?prs = "releases_of plan (ch_producer c)"
  let ?f = "make_selection ow plan k c pb cb ?prs"
  have "(\<exists>x. select_channel ow plan k c pb cb = Inr x) \<longleftrightarrow>
      (\<exists>x. select_releases ?f ?prs (releases_of plan (ch_consumer c)) = Inr x)"
    using False by (auto simp: select_channel_def Let_def sum_bind_Inr split: prod.splits)
  also have "\<dots> \<longleftrightarrow> list_all (age_representable plan (ch_producer c)) (releases_of plan (ch_consumer c))"
    unfolding select_releases_defined
  proof (rule list_all_cong [OF refl])
    fix j
    assume "j \<in> set (releases_of plan (ch_consumer c))"
    then have j: "j < length (plan_releases plan)" by (simp add: releases_of_def)
    have ne: "?prs \<noteq> []" using False by blast
    have lb: "lower_bound ?prs j = 0 \<longleftrightarrow> earlier_releases plan (ch_producer c) j = {}"
      using releases_before(1) [OF less_imp_le [OF j], of "ch_producer c"] by blast
    show "cs_producer_reference_index (?f j (lower_bound ?prs j = 0)) \<noteq> None \<longleftrightarrow>
        age_representable plan (ch_producer c) j"
      unfolding make_selection_source(4) [OF j ne refl] lb
      by (simp add: checked_age_defined age_representable_def Let_def del: not_None_eq)
  qed
  finally show ?thesis using False by (simp add: channel_readable_def)
qed

section \<open>Device endpoints\<close>

text \<open>Every slot of an endpoint lies in its envelope and in the host storage.\<close>

definition endpoint_fits :: "nat \<Rightarrow> cross_rate_device_endpoint \<Rightarrow> bool" where
  "endpoint_fits bytes_per_sample e \<longleftrightarrow>
     bytes_per_sample \<le> unat (de_slot_stride_bytes e) \<and> de_slot_count e \<noteq> 0 \<and>
     unat (de_envelope_offset e) + unat (de_envelope_bytes e) < 18446744073709551616 \<and>
     (\<forall>s < unat (de_slot_count e).
        s * unat (de_slot_stride_bytes e) + bytes_per_sample \<le> unat (de_envelope_bytes e) \<and>
        unat (de_envelope_offset e) + s * unat (de_slot_stride_bytes e) + bytes_per_sample
          \<le> length (de_host_storage e))"

definition apart :: "cross_rate_device_endpoint \<Rightarrow> cross_rate_device_endpoint \<Rightarrow> bool" where
  "apart e f \<longleftrightarrow> de_buffer e = de_buffer f \<longrightarrow>
     unat (de_envelope_offset e) + unat (de_envelope_bytes e) \<le> unat (de_envelope_offset f) \<or>
     unat (de_envelope_offset f) + unat (de_envelope_bytes f) \<le> unat (de_envelope_offset e)"

lemma envelope_holds_iff:
  assumes "in_flight \<noteq> 0" and "bytes_per_sample \<le> 65536"
  shows "envelope_holds bytes_per_sample stride in_flight reference buffer \<longleftrightarrow>
    unat (pr_offset reference) + unat (pr_bytes reference) < 18446744073709551616 \<and>
    unat (pr_offset reference) + (unat in_flight - 1) * unat stride + bytes_per_sample \<le>
      min (unat (pr_offset reference) + unat (pr_bytes reference)) (min (unat (bf_bytes buffer)) (length (bf_storage buffer)))"
    (is "?holds \<longleftrightarrow> ?fits")
proof -
  have bs: "unat (word_of_nat bytes_per_sample :: u64) = bytes_per_sample"
    using assms(2) by (intro unat_of_nat_u64) simp
  have count: "unat (in_flight - 1) = unat in_flight - 1" using assms(1) by (rule unat_minus_one)
  let ?off = "unat (pr_offset reference)" and ?delta = "(unat in_flight - 1) * unat stride"
  show ?thesis
  proof
    assume ?holds
    then obtain delta final final_end stop where
      "checked_multiply (ucast (in_flight - 1)) stride = Some delta" "checked_add (pr_offset reference) delta = Some final"
      "checked_add final (word_of_nat bytes_per_sample) = Some final_end"
      "checked_add (pr_offset reference) (pr_bytes reference) = Some stop"
      and fits: "final_end \<le> stop" "final_end \<le> bf_bytes buffer" "unat final_end \<le> length (bf_storage buffer)"
      unfolding envelope_holds_def by (auto split: option.splits simp: not_less)
    then show ?fits by (simp add: checked_simps bs count word_le_nat_alt)
  next
    assume fits: ?fits
    then have less: "?off + ?delta + bytes_per_sample < 18446744073709551616" by linarith
    obtain delta where delta: "checked_multiply (ucast (in_flight - 1)) stride = Some delta" "unat delta = ?delta"
      using less by (cases "checked_multiply (ucast (in_flight - 1)) stride")
        (auto simp: checked_multiply_None checked_multiply_Some count)
    obtain final where final: "checked_add (pr_offset reference) delta = Some final" "unat final = ?off + ?delta"
      using less delta(2) by (cases "checked_add (pr_offset reference) delta") (auto simp: checked_add_None checked_add_Some)
    obtain final_end where final_end: "checked_add final (word_of_nat bytes_per_sample) = Some final_end"
      "unat final_end = ?off + ?delta + bytes_per_sample"
      using less final(2) by (cases "checked_add final (word_of_nat bytes_per_sample)")
        (auto simp: checked_add_None checked_add_Some bs)
    obtain stop where stop: "checked_add (pr_offset reference) (pr_bytes reference) = Some stop"
      "unat stop = ?off + unat (pr_bytes reference)"
      using fits by (cases "checked_add (pr_offset reference) (pr_bytes reference)")
        (auto simp: checked_add_None checked_add_Some)
    show ?holds
      using fits by (simp add: envelope_holds_def delta(1) final(1) final_end stop word_less_nat_alt not_less)
  qed
qed

lemma envelope_holds_slots:
  assumes "envelope_holds sample_size stride in_flight reference buffer" and "in_flight \<noteq> 0" and "sample_size \<le> 65536"
  shows "unat (pr_offset reference) + unat (pr_bytes reference) < 18446744073709551616"
    and "s < unat in_flight \<Longrightarrow> s * unat stride + sample_size \<le> unat (pr_bytes reference) \<and>
      unat (pr_offset reference) + s * unat stride + sample_size \<le> length (bf_storage buffer)"
proof -
  note fits = assms(1) [unfolded envelope_holds_iff [OF assms(2,3)]]
  then show "unat (pr_offset reference) + unat (pr_bytes reference) < 18446744073709551616" by blast
  assume "s < unat in_flight"
  then have "s * unat stride \<le> (unat in_flight - 1) * unat stride" by (intro mult_right_mono) simp_all
  then show "s * unat stride + sample_size \<le> unat (pr_bytes reference) \<and>
      unat (pr_offset reference) + s * unat stride + sample_size \<le> length (bf_storage buffer)"
    using fits by linarith
qed

lemma compile_device_endpoint_fits:
  assumes "compile_device_endpoint dv bufs c producer = Some e" and "ch_payload_size c \<le> 65536"
  shows "endpoint_fits (ch_payload_size c) e"
proof -
  let ?sel = "if producer then ch_producer_device c else ch_consumer_device c"
  let ?phase = "if producer then ch_producer c else ch_consumer c"
  obtain ph reference where reference: "endpoint_reference dv ?phase ?sel = Some (ph, reference)"
    using assms(1) by (auto simp: compile_device_endpoint_def Let_def split: option.splits)
  then obtain buffer where
    unusable: "\<not> buffer_unusable producer (ch_payload_size c) (sel_slot_stride_bytes ?sel) reference buffer"
    and holds: "envelope_holds (ch_payload_size c) (sel_slot_stride_bytes ?sel) (dv_maximum_in_flight ph) reference buffer"
    and e: "de_slot_stride_bytes e = sel_slot_stride_bytes ?sel" "de_slot_count e = dv_maximum_in_flight ph"
      "de_envelope_offset e = pr_offset reference" "de_envelope_bytes e = pr_bytes reference"
      "de_host_storage e = bf_storage buffer"
    using assms(1) by (auto simp: compile_device_endpoint_def Let_def split: option.splits if_splits)
  have slots: "dv_maximum_in_flight ph \<noteq> 0"
    using reference by (auto simp: endpoint_reference_def Let_def split: option.splits if_splits)
  have "ch_payload_size c \<le> unat (sel_slot_stride_bytes ?sel)"
    using unusable by (simp add: buffer_unusable_def not_less)
  then show ?thesis
    unfolding endpoint_fits_def e using envelope_holds_slots [OF holds slots assms(2)] slots by blast
qed

lemma envelope_overlap_iff:
  assumes "unat (de_envelope_offset e) + unat (de_envelope_bytes e) = unat stop"
    and "\<forall>p \<in> set placed. unat (de_envelope_offset p) + unat (de_envelope_bytes p) < 18446744073709551616"
  shows "envelope_overlap e stop placed \<longleftrightarrow> (\<exists>p \<in> set placed. \<not> apart p e)"
  using assms(2)
proof (induction placed)
  case Nil
  then show ?case by simp
next
  case (Cons p placed)
  then obtain q where q: "checked_add (de_envelope_offset p) (de_envelope_bytes p) = Some q"
    "unat q = unat (de_envelope_offset p) + unat (de_envelope_bytes p)"
    using checked_add_None [of "de_envelope_offset p" "de_envelope_bytes p"]
    by (cases "checked_add (de_envelope_offset p) (de_envelope_bytes p)") (auto simp: checked_add_Some)
  have "apart p e \<longleftrightarrow> de_buffer p \<noteq> de_buffer e \<or> \<not> (de_envelope_offset e < q \<and> de_envelope_offset p < stop)"
    using assms(1) q(2) by (auto simp: apart_def word_less_nat_alt)
  then show ?case using Cons q(1) by auto
qed

definition channel_endpoint ::
  "compiled_rate_plan \<Rightarrow> compiled_device_rate_plan option \<Rightarrow> device_buffer_source list \<Rightarrow> nat \<Rightarrow>
     cross_rate_channel_spec \<Rightarrow> cross_rate_device_endpoint option" where
  "channel_endpoint plan dv bufs k c =
     (if uses_device plan (ch_producer c) \<or> uses_device plan (ch_consumer c)
      then map_option (\<lambda>e. e\<lparr>de_channel_index := k\<rparr>) (compile_device_endpoint dv bufs c (uses_device plan (ch_producer c)))
      else None)"

definition endpoint_list :: "'a option \<Rightarrow> 'a list" where
  "endpoint_list e = (case e of None \<Rightarrow> [] | Some x \<Rightarrow> [x])"

fun channel_endpoints ::
  "compiled_rate_plan \<Rightarrow> compiled_device_rate_plan option \<Rightarrow> device_buffer_source list \<Rightarrow> nat \<Rightarrow>
     cross_rate_channel_spec list \<Rightarrow> cross_rate_device_endpoint list" where
  "channel_endpoints plan dv bufs k [] = []"
| "channel_endpoints plan dv bufs k (c # cs) =
     endpoint_list (channel_endpoint plan dv bufs k c) @ channel_endpoints plan dv bufs (Suc k) cs"

lemma channel_endpoint_fits:
  assumes "channel_endpoint plan dv bufs k c = Some e" and "ch_payload_size c \<le> 65536"
  shows "endpoint_fits (ch_payload_size c) e" and "de_channel_index e = k"
  using assms compile_device_endpoint_fits
  by (auto simp: channel_endpoint_def endpoint_fits_def split: if_splits)

lemma place_endpoint_Inr:
  assumes "ch_payload_size c \<le> 65536"
    and "\<forall>p \<in> set placed. unat (de_envelope_offset p) + unat (de_envelope_bytes p) < 18446744073709551616"
  shows "place_endpoint dv bufs k c producer placed = Inr e \<longleftrightarrow>
    map_option (\<lambda>e. e\<lparr>de_channel_index := k\<rparr>) (compile_device_endpoint dv bufs c producer) = Some e \<and>
    (\<forall>p \<in> set placed. apart p e)"
proof (cases "compile_device_endpoint dv bufs c producer")
  case None
  then show ?thesis by (simp add: place_endpoint_def)
next
  case (Some e0)
  have "unat (de_envelope_offset e0) + unat (de_envelope_bytes e0) < 18446744073709551616"
    using compile_device_endpoint_fits [OF Some assms(1)] by (simp add: endpoint_fits_def)
  then obtain stop where stop: "checked_add (de_envelope_offset e0) (de_envelope_bytes e0) = Some stop"
    "unat (de_envelope_offset e0) + unat (de_envelope_bytes e0) = unat stop"
    using checked_add_None [of "de_envelope_offset e0" "de_envelope_bytes e0"]
    by (cases "checked_add (de_envelope_offset e0) (de_envelope_bytes e0)") (auto simp: checked_add_Some)
  let ?e = "e0\<lparr>de_channel_index := k\<rparr>"
  have "envelope_overlap ?e stop placed \<longleftrightarrow> (\<exists>p \<in> set placed. \<not> apart p ?e)"
    using stop(2) assms(2) by (intro envelope_overlap_iff) simp_all
  then show ?thesis using Some stop(1) by (auto simp: place_endpoint_def Let_def)
qed

section \<open>The second pass\<close>

definition table_ok :: "compiled_rate_plan \<Rightarrow> nat \<Rightarrow> nat option list \<Rightarrow> bool" where
  "table_ok plan n t \<longleftrightarrow>
     (\<forall>p. phase_number p < n \<longrightarrow> plan_bindings plan ! the (t ! phase_number p) = binding_of plan p)"

lemma table_okI:
  assumes "bindings_total ow n plan"
    and "index_bindings ow n m 0 (plan_bindings plan) (replicate n None) = Inr t"
  shows "table_ok plan n t"
  unfolding table_ok_def using binding_table [OF assms] by (metis option.sel)

definition slots_ok :: "nat list \<Rightarrow> nat \<Rightarrow> bool" where
  "slots_ok slot_counts n \<longleftrightarrow>
     (slot_counts \<noteq> [] \<longrightarrow> length slot_counts = n) \<and> list_all (\<lambda>count. count = 2 \<or> count = 4) slot_counts"

lemma snapshot_slots_cases: "slots_ok sc n \<Longrightarrow> k < n \<Longrightarrow> snapshot_slots sc k = 2 \<or> snapshot_slots sc k = 4"
  by (auto simp: slots_ok_def snapshot_slots_def cross_rate_snapshot_slot_count_def list_all_length)

abbreviation placed_ok :: "cross_rate_device_endpoint list \<Rightarrow> bool" where
  "placed_ok placed \<equiv> sorted_wrt apart placed \<and>
     (\<forall>p \<in> set placed. unat (de_envelope_offset p) + unat (de_envelope_bytes p) < 18446744073709551616)"

lemma endpoint_step:
  assumes "channel_well_formed ow n plan dv bufs c" and "placed_ok placed"
  shows "(if uses_device plan (ch_producer c) \<or> uses_device plan (ch_consumer c)
      then sum_bind (place_endpoint dv bufs k c (uses_device plan (ch_producer c)) placed) (\<lambda>e. Inr (Some e))
      else Inr None) = Inr x \<longleftrightarrow>
    x = channel_endpoint plan dv bufs k c \<and> sorted_wrt apart (placed @ endpoint_list x)"
proof -
  have "ch_payload_size c \<le> 65536"
    using assms(1) by (simp add: channel_well_formed_def channel_malformed_def cross_rate_payload_capacity_def)
  note place = place_endpoint_Inr [OF this, of placed]
  show ?thesis
    using assms by (auto simp: place sum_bind_Inr channel_endpoint_def endpoint_list_def sorted_wrt_append
        channel_well_formed_def split: option.splits)
qed

lemma store_created:
  assumes "0 < sz" and "sz \<le> 65536" and "sl = 2 \<or> sl = 4"
  shows "checked_multiply_size sz sl = Some (sz * sl)" and "\<exists>st. create_store sz sl empty_store = (ok, st)"
proof -
  show *: "checked_multiply_size sz sl = Some (sz * sl)"
    using assms by (auto simp: checked_multiply_size_eq size_max_def)
  show "\<exists>st. create_store sz sl empty_store = (ok, st)" using assms by (auto simp: create_store_def *)
qed

lemma add_channel_defined:
  assumes wf: "channel_well_formed ow n plan dv bufs c" and table: "table_ok plan n t"
    and slots: "snapshot_slots sc k = 2 \<or> snapshot_slots sc k = 4" and placed: "placed_ok (xp_device_endpoints xp)"
  shows "(\<exists>xp'. add_channel ow' plan t dv bufs sc k c xp = Inr xp') \<longleftrightarrow>
      channel_readable plan c \<and>
      sorted_wrt apart (xp_device_endpoints xp @ endpoint_list (channel_endpoint plan dv bufs k c))"
    and "add_channel ow' plan t dv bufs sc k c xp = Inr xp' \<Longrightarrow>
      xp_device_endpoints xp' = xp_device_endpoints xp @ endpoint_list (channel_endpoint plan dv bufs k c)"
proof -
  have bound: "plan_bindings plan ! the (t ! phase_number (ch_producer c)) = binding_of plan (ch_producer c)"
    "plan_bindings plan ! the (t ! phase_number (ch_consumer c)) = binding_of plan (ch_consumer c)"
    using wf table by (simp_all add: channel_well_formed_def channel_foreign_def table_ok_def)
  note step = endpoint_step [OF wf placed, of k]
  have "0 < ch_payload_size c" "ch_payload_size c \<le> 65536"
    using wf by (simp_all add: channel_well_formed_def channel_malformed_def cross_rate_payload_capacity_def)
  note store = store_created [OF this slots]
  then obtain st where st: "create_store (ch_payload_size c) (snapshot_slots sc k) empty_store = (ok, st)" by blast
  have sel: "(\<exists>x. select_channel ow' plan k c pb cb = Inr x) \<longleftrightarrow> channel_readable plan c" for pb cb
    unfolding select_channel_defined using wf by (simp add: channel_well_formed_def)
  have "(\<exists>xp'. add_channel ow' plan t dv bufs sc k c xp = Inr xp') \<longleftrightarrow>
      sorted_wrt apart (xp_device_endpoints xp @ endpoint_list (channel_endpoint plan dv bufs k c)) \<and>
      (\<exists>x. select_channel ow' plan k c (binding_of plan (ch_producer c)) (binding_of plan (ch_consumer c)) = Inr x)"
    unfolding add_channel_def Let_def bound uses_device_def [symmetric] sum_bind_Inr step store(1) st
    by (simp add: case_prod_beta)
  then show "(\<exists>xp'. add_channel ow' plan t dv bufs sc k c xp = Inr xp') \<longleftrightarrow>
      channel_readable plan c \<and>
      sorted_wrt apart (xp_device_endpoints xp @ endpoint_list (channel_endpoint plan dv bufs k c))"
    unfolding sel by blast
  assume added: "add_channel ow' plan t dv bufs sc k c xp = Inr xp'"
  show "xp_device_endpoints xp' = xp_device_endpoints xp @ endpoint_list (channel_endpoint plan dv bufs k c)"
  proof (rule add_channel_parts [OF added, unfolded bound, folded uses_device_def, unfolded step])
    fix endpoint firsts repeats store bytes
    assume "endpoint = channel_endpoint plan dv bufs k c \<and>
        sorted_wrt apart (xp_device_endpoints xp @ endpoint_list endpoint)"
      and "xp' = \<lparr>xp_channels = xp_channels xp @
         [describe_channel ow' k c (binding_of plan (ch_producer c)) (binding_of plan (ch_consumer c))
            (length (xp_selections xp)) (length firsts * 2) (snapshot_slots sc k) bytes endpoint],
       xp_selections = xp_selections xp @ interleave firsts repeats,
       xp_stores = xp_stores xp @ [store],
       xp_device_endpoints =
         (case endpoint of None \<Rightarrow> xp_device_endpoints xp | Some e \<Rightarrow> xp_device_endpoints xp @ [e]),
       xp_device_endpoint_index_by_channel =
         (case endpoint of None \<Rightarrow> xp_device_endpoint_index_by_channel xp
          | Some e \<Rightarrow> (xp_device_endpoint_index_by_channel xp)[k := Some (length (xp_device_endpoints xp))])\<rparr>"
    then show ?thesis by (simp add: endpoint_list_def split: option.splits)
  qed
qed

lemma channel_endpoint_placed:
  assumes "channel_well_formed ow n plan dv bufs c"
  shows "\<forall>e \<in> set (endpoint_list (channel_endpoint plan dv bufs k c)).
    unat (de_envelope_offset e) + unat (de_envelope_bytes e) < 18446744073709551616"
proof -
  have "ch_payload_size c \<le> 65536"
    using assms by (simp add: channel_well_formed_def channel_malformed_def cross_rate_payload_capacity_def)
  then show ?thesis
    using channel_endpoint_fits(1) [of plan dv bufs k c]
    by (auto simp: endpoint_list_def endpoint_fits_def split: option.splits)
qed

lemma add_channels_defined:
  assumes "list_all (channel_well_formed ow n plan dv bufs) cs" and "table_ok plan n t"
    and "\<forall>i < length cs. snapshot_slots sc (k + i) = 2 \<or> snapshot_slots sc (k + i) = 4"
    and "placed_ok (xp_device_endpoints xp)"
  shows "(\<exists>xp'. add_channels ow' plan t dv bufs sc k cs xp = Inr xp') \<longleftrightarrow>
      list_all (channel_readable plan) cs \<and>
      sorted_wrt apart (xp_device_endpoints xp @ channel_endpoints plan dv bufs k cs)"
    and "add_channels ow' plan t dv bufs sc k cs xp = Inr xp' \<Longrightarrow>
      xp_device_endpoints xp' = xp_device_endpoints xp @ channel_endpoints plan dv bufs k cs"
  using assms
proof (induction cs arbitrary: k xp)
  case Nil
  {
    case 1
    then show ?case by simp
  next
    case 2
    then show ?case by simp
  }
next
  case (Cons c cs)
  {
    case (1 k xp)
    let ?e = "endpoint_list (channel_endpoint plan dv bufs k c)"
    have wf: "channel_well_formed ow n plan dv bufs c" using 1 by simp
    have sl: "snapshot_slots sc k = 2 \<or> snapshot_slots sc k = 4" using 1(3) by fastforce
    have rest: "\<forall>i < length cs. snapshot_slots sc (Suc k + i) = 2 \<or> snapshot_slots sc (Suc k + i) = 4"
      using 1(3) by fastforce
    note first = add_channel_defined [OF wf 1(2) sl 1(4), of ow']
    show ?case
    proof (cases "\<exists>xp1. add_channel ow' plan t dv bufs sc k c xp = Inr xp1")
      case True
      then obtain xp1 where xp1: "add_channel ow' plan t dv bufs sc k c xp = Inr xp1" by blast
      have placed: "placed_ok (xp_device_endpoints xp1)"
        using first(1) True first(2) [OF xp1] 1(4) channel_endpoint_placed [OF wf, of k] by auto
      have "(\<exists>xp'. add_channels ow' plan t dv bufs sc (Suc k) cs xp1 = Inr xp') \<longleftrightarrow>
          list_all (channel_readable plan) cs \<and>
          sorted_wrt apart (xp_device_endpoints xp1 @ channel_endpoints plan dv bufs (Suc k) cs)"
        using 1 rest placed by (intro Cons.IH(1)) simp_all
      then show ?thesis using xp1 first(1) True first(2) [OF xp1] by simp
    next
      case False
      then have "\<not> (channel_readable plan c \<and> sorted_wrt apart (xp_device_endpoints xp @ ?e))"
        using first(1) by blast
      then show ?thesis using False by (auto simp: sum_bind_Inr sorted_wrt_append)
    qed
  next
    case (2 k xp)
    have wf: "channel_well_formed ow n plan dv bufs c" using 2 by simp
    have sl: "snapshot_slots sc k = 2 \<or> snapshot_slots sc k = 4" using 2(4) by fastforce
    have rest: "\<forall>i < length cs. snapshot_slots sc (Suc k + i) = 2 \<or> snapshot_slots sc (Suc k + i) = 4"
      using 2(4) by fastforce
    note first = add_channel_defined [OF wf 2(3) sl 2(5), of ow']
    obtain xp1 where xp1: "add_channel ow' plan t dv bufs sc k c xp = Inr xp1"
      and more_channels: "add_channels ow' plan t dv bufs sc (Suc k) cs xp1 = Inr xp'"
      using 2(1) by (auto simp: sum_bind_Inr)
    have placed: "placed_ok (xp_device_endpoints xp1)"
      using first(1) xp1 first(2) [OF xp1] 2(5) channel_endpoint_placed [OF wf, of k] by auto
    have "xp_device_endpoints xp' = xp_device_endpoints xp1 @ channel_endpoints plan dv bufs (Suc k) cs"
      using 2 rest placed by (intro Cons.IH(2) [OF more_channels]) simp_all
    then show ?case using first(2) [OF xp1] by simp
  }
qed

section \<open>Acceptance\<close>

definition channels_ok ::
  "u32 \<Rightarrow> nat \<Rightarrow> compiled_rate_plan \<Rightarrow> cross_rate_channel_spec list \<Rightarrow> compiled_device_rate_plan option \<Rightarrow>
     device_buffer_source list \<Rightarrow> nat list \<Rightarrow> bool" where
  "channels_ok ow n plan cs dv bufs sc \<longleftrightarrow>
     bindings_total ow n plan \<and> list_all (channel_well_formed ow n plan dv bufs) cs \<and>
     distinct (map ch_name cs) \<and> distinct (map (\<lambda>c. (ch_producer c, ch_consumer c)) cs) \<and>
     within_capacity (total_load plan sc 0 cs) \<and> list_all (channel_readable plan) cs \<and>
     sorted_wrt apart (channel_endpoints plan dv bufs 0 cs)"

lemma compile_channels_parts:
  assumes slots: "slots_ok sc (length cs)" and n: "length (plan_bindings plan) = n"
  shows "(\<exists>xp. compile_cross_rate_channels ow n plan cs dv bufs sc = Inr xp) \<longleftrightarrow> channels_ok ow n plan cs dv bufs sc"
    and "compile_cross_rate_channels ow n plan cs dv bufs sc = Inr xp \<Longrightarrow>
      xp_device_endpoints xp = channel_endpoints plan dv bufs 0 cs"
proof -
  let ?m = "length (plan_domains plan)"
  let ?index = "index_bindings ow n ?m 0 (plan_bindings plan) (replicate n None)"
  let ?start = "empty_cross_rate_plan\<lparr>xp_device_endpoint_index_by_channel := endpoint_index_table cs\<rparr>"
  have start: "xp_device_endpoints ?start = []" by (simp add: empty_cross_rate_plan_def)
  have sl: "\<forall>i < length cs. snapshot_slots sc (0 + i) = 2 \<or> snapshot_slots sc (0 + i) = 4"
    using snapshot_slots_cases [OF slots] by simp
  have total: "(\<exists>t. ?index = Inr t) \<longleftrightarrow> bindings_total ow n plan"
    using index_bindings_Inr [of "replicate n None" n ow ?m 0 "plan_bindings plan"] n
    by (auto simp: bindings_total_def list_all_iff binding_well_formed_def)
  have valid: "(\<exists>load. validate_channels ow n plan t dv bufs sc [] cs (0, 0, 0) = Inr load) \<longleftrightarrow>
      list_all (channel_well_formed ow n plan dv bufs) cs \<and> distinct (map ch_name cs) \<and>
      distinct (map (\<lambda>c. (ch_producer c, ch_consumer c)) cs) \<and> within_capacity (total_load plan sc 0 cs)"
    if "?index = Inr t" for t
    using validate_channels_Inr [of ow n plan ?m t "(0, 0, 0)" dv bufs sc "[]" cs] that total
    by (simp add: within_capacity_def)
  have add: "list_all (channel_well_formed ow n plan dv bufs) cs \<Longrightarrow>
      (\<exists>xp. add_channels ow plan t dv bufs sc 0 cs ?start = Inr xp) \<longleftrightarrow>
      list_all (channel_readable plan) cs \<and> sorted_wrt apart (channel_endpoints plan dv bufs 0 cs)"
    "list_all (channel_well_formed ow n plan dv bufs) cs \<Longrightarrow>
      add_channels ow plan t dv bufs sc 0 cs ?start = Inr xp \<Longrightarrow>
      xp_device_endpoints xp = channel_endpoints plan dv bufs 0 cs"
    if "?index = Inr t" for t xp
    using add_channels_defined [of ow n plan dv bufs cs t sc 0 ?start ow] table_okI [OF _ that] total that sl start
    by auto
  show "(\<exists>xp. compile_cross_rate_channels ow n plan cs dv bufs sc = Inr xp) \<longleftrightarrow> channels_ok ow n plan cs dv bufs sc"
  proof (cases "bindings_total ow n plan")
    case True
    then obtain t where t: "?index = Inr t" using total by blast
    have "(\<exists>xp. compile_cross_rate_channels ow n plan cs dv bufs sc = Inr xp) \<longleftrightarrow>
        (\<exists>load. validate_channels ow n plan t dv bufs sc [] cs (0, 0, 0) = Inr load) \<and>
        (\<exists>xp. add_channels ow plan t dv bufs sc 0 cs ?start = Inr xp)"
      unfolding compile_cross_rate_channels_def t sum_bind_simps sum_bind_Inr by blast
    then show ?thesis unfolding valid [OF t] channels_ok_def using add(1) [OF t] True by blast
  next
    case False
    then show ?thesis using total by (auto simp: compile_cross_rate_channels_def sum_bind_Inr channels_ok_def)
  qed
  assume "compile_cross_rate_channels ow n plan cs dv bufs sc = Inr xp"
  then obtain t load where t: "?index = Inr t"
    and load: "validate_channels ow n plan t dv bufs sc [] cs (0, 0, 0) = Inr load"
    and xp: "add_channels ow plan t dv bufs sc 0 cs ?start = Inr xp"
    unfolding compile_cross_rate_channels_def sum_bind_Inr by blast
  show "xp_device_endpoints xp = channel_endpoints plan dv bufs 0 cs"
    using valid [OF t] load add(2) [OF t _ xp] by blast
qed

end
