(* ===== verification/Cross_Rate_Properties.thy ===== *)
theory Cross_Rate_Properties
  imports Cross_Rate_Plans Dispatch_Plans
begin

text \<open>
  The properties of the cross-rate compiler.
\<close>

section \<open>Rejections\<close>

lemma index_bindings_error: "index_bindings ow n m k bs t = Inl e \<Longrightarrow> cr_status e \<noteq> ok"
  by (induction bs arbitrary: k t) (auto split: if_splits)

lemma duplicate_channel_error: "duplicate_channel earlier c = Some e \<Longrightarrow> cr_status e \<noteq> ok"
  by (induction earlier) (auto split: if_splits)

lemma reserve_channel_error: "reserve_channel plan slots c load = Inl e \<Longrightarrow> cr_status e \<noteq> ok"
  by (auto simp: reserve_channel_def Let_def split: option.splits if_splits prod.splits)

lemma validate_channel_error:
  "validate_channel ow n plan t dv bufs earlier slots c load = Inl e \<Longrightarrow> cr_status e \<noteq> ok"
  by (auto simp: validate_channel_def Let_def dest: duplicate_channel_error reserve_channel_error
      split: option.splits if_splits)

lemma validate_channels_error:
  "validate_channels ow n plan t dv bufs sc earlier cs load = Inl e \<Longrightarrow> cr_status e \<noteq> ok"
proof (induction cs arbitrary: earlier load)
  case Nil
  then show ?case by (cases load) simp
next
  case (Cons c cs)
  then show ?case by (auto simp: sum_bind_Inl dest: validate_channel_error)
qed

lemma select_releases_error: "select_releases f prs is = Inl e \<Longrightarrow> cr_status e \<noteq> ok"
  by (induction "is") (auto simp: Let_def sum_bind_Inl split: if_splits)

lemma select_channel_error: "select_channel ow plan k c pb cb = Inl e \<Longrightarrow> cr_status e \<noteq> ok"
  by (auto simp: select_channel_def Let_def sum_bind_Inl dest: select_releases_error split: if_splits)

lemma place_endpoint_error: "place_endpoint dv bufs k c producer placed = Inl e \<Longrightarrow> cr_status e \<noteq> ok"
  by (auto simp: place_endpoint_def Let_def split: option.splits if_splits)

lemma add_channel_error: "add_channel ow plan t dv bufs sc k c xp = Inl e \<Longrightarrow> cr_status e \<noteq> ok"
  by (cases "create_store (ch_payload_size c) (snapshot_slots sc k) empty_store")
    (auto simp: add_channel_def Let_def sum_bind_Inl split: option.splits if_splits
      dest: select_channel_error place_endpoint_error)

lemma add_channels_error: "add_channels ow plan t dv bufs sc k cs xp = Inl e \<Longrightarrow> cr_status e \<noteq> ok"
  by (induction cs arbitrary: k xp) (auto simp: sum_bind_Inl dest: add_channel_error)

lemma compile_cross_rate_error:
  "compile_cross_rate_checked ow n plan cs dv bufs sc = Inl e \<Longrightarrow> cr_status e \<noteq> ok"
  by (auto simp: compile_cross_rate_checked_def compile_cross_rate_channels_def sum_bind_Inl split: if_splits
      dest: index_bindings_error validate_channels_error add_channels_error)

section \<open>Acceptance\<close>

definition cross_rate_accepts ::
  "u32 \<Rightarrow> nat \<Rightarrow> compiled_rate_plan \<Rightarrow> cross_rate_channel_spec list \<Rightarrow> compiled_device_rate_plan option \<Rightarrow>
     device_buffer_source list \<Rightarrow> nat list \<Rightarrow> bool" where
  "cross_rate_accepts ow n plan cs dv bufs sc \<longleftrightarrow>
     slots_ok sc (length cs) \<and>
     (cs = [] \<or> (plan_domains plan \<noteq> [] \<and> length cs \<le> 256 \<and> channels_ok ow n plan cs dv bufs sc))"

lemma slots_checked:
  "(sc \<noteq> [] \<and> length sc \<noteq> n) \<or> list_ex (\<lambda>count. count \<noteq> 2 \<and> count \<noteq> 4) sc \<longleftrightarrow> \<not> slots_ok sc n"
  by (auto simp: slots_ok_def list_ex_iff list_all_iff)

lemma cross_rate_accepted:
  "(\<exists>xp. compile_cross_rate_checked ow n plan cs dv bufs sc = Inr xp) \<longleftrightarrow> cross_rate_accepts ow n plan cs dv bufs sc"
proof (cases "slots_ok sc (length cs) \<and> length (plan_bindings plan) = n")
  case True
  then show ?thesis
    using compile_channels_parts(1) [of sc cs plan n ow dv bufs]
    unfolding compile_cross_rate_checked_def slots_checked cross_rate_accepts_def
    by (simp add: cross_rate_channel_capacity_def)
next
  case False
  then show ?thesis
    unfolding compile_cross_rate_checked_def slots_checked cross_rate_accepts_def
    by (auto simp: channels_ok_def bindings_total_def)
qed

lemma cross_rate_ok:
  "compile_cross_rate_data ow n plan cs dv bufs sc out = (ok, xp, diag) \<longleftrightarrow>
     compile_cross_rate_checked ow n plan cs dv bufs sc = Inr xp \<and> diag = \<lparr>cr_status = ok, cr_message = None\<rparr>"
  by (auto simp: compile_cross_rate_data_def dest: compile_cross_rate_error split: sum.splits)

lemma cross_rate_okE:
  assumes "compile_cross_rate_data ow n plan cs dv bufs sc out = (ok, xp, diag)" and "cs \<noteq> []"
  obtains t start where "channels_ok ow n plan cs dv bufs sc" and "slots_ok sc (length cs)" and "length cs \<le> 256"
    and "add_channels ow plan t dv bufs sc 0 cs start = Inr xp"
    and "xp_channels start = []" and "xp_selections start = []" and "xp_stores start = []"
    and "xp_device_endpoints xp = channel_endpoints plan dv bufs 0 cs"
proof -
  have checked: "compile_cross_rate_checked ow n plan cs dv bufs sc = Inr xp"
    using assms(1) by (simp add: cross_rate_ok)
  then have ok: "slots_ok sc (length cs)" "length cs \<le> 256" "channels_ok ow n plan cs dv bufs sc"
    using cross_rate_accepted [of ow n plan cs dv bufs sc] assms(2) by (auto simp: cross_rate_accepts_def)
  have n: "length (plan_bindings plan) = n" using ok(3) by (simp add: channels_ok_def bindings_total_def)
  have compiled: "compile_cross_rate_channels ow n plan cs dv bufs sc = Inr xp"
    using checked assms(2) by (simp add: compile_cross_rate_checked_def split: if_splits)
  then obtain t where "add_channels ow plan t dv bufs sc 0 cs
      (empty_cross_rate_plan\<lparr>xp_device_endpoint_index_by_channel := endpoint_index_table cs\<rparr>) = Inr xp"
    unfolding compile_cross_rate_channels_def sum_bind_Inr by blast
  then show thesis
    using that ok compile_channels_parts(2) [OF ok(1) n compiled] by (simp add: empty_cross_rate_plan_def)
qed

lemma cross_rate_empty:
  assumes "compile_cross_rate_data ow n plan cs dv bufs sc out = (ok, xp, diag)" and "cs = []"
  shows "xp = empty_cross_rate_plan"
  using assms by (simp add: cross_rate_ok compile_cross_rate_checked_def split: if_splits)

section \<open>A sample\<close>

text \<open>
  On the sample plan a CPU phase of the fast domain feeds a device phase, and the optional slow
  domain feeds the fast one.
\<close>

definition sample_reference :: device_payload_reference where
  "sample_reference = \<lparr>pr_phase = phase_handle_of 7 1, pr_backend = DeviceBackendHandle 0,
     pr_buffer = DeviceBufferHandle 0, pr_command_index = 0, pr_command_reference_index = 0,
     pr_kind = dispatch_buffer, pr_role = role_input, pr_access = device_access_read, pr_offset = 0, pr_bytes = 1\<rparr>"

definition sample_buffer :: device_buffer_source where
  "sample_buffer = \<lparr>bf_buffer = DeviceBufferHandle 0, bf_backend = DeviceBackendHandle 0, bf_storage = [0],
     bf_bytes = 1, bf_access = device_buffer_host_write, bf_coherency = host_coherent, bf_synchronization = 0,
     bf_byte_granularity = 1, bf_offset_granularity = 1\<rparr>"

definition sample_payloads :: "compiled_device_rate_plan option" where
  "sample_payloads = Some \<lparr>dr_phases = [sample_device_phase 1, sample_device_phase 2],
     dr_payload_references = [sample_reference]\<rparr>"

definition sample_feedback :: cross_rate_channel_spec where
  "sample_feedback = \<lparr>ch_name = ''d'', ch_producer = phase_handle_of 7 3, ch_consumer = phase_handle_of 7 0,
     ch_payload_size = 1, ch_initial_sample = [0], ch_mode = sample_and_hold, ch_maximum_age_ns = u64_max,
     ch_producer_device = no_selector, ch_consumer_device = no_selector\<rparr>"

lemmas cross_sample_defs =
  sample_reference_def sample_buffer_def sample_payloads_def sample_feedback_def sample_channel_def
  sample_device_phase_def

lemma sample_binding_of:
  "binding_of sample_plan (phase_handle_of 7 0) = sample_bound 0 0 kind_cpu"
  "binding_of sample_plan (phase_handle_of 7 1) = sample_bound 1 1 kind_device"
  "binding_of sample_plan (phase_handle_of 7 3) = sample_bound 3 2 kind_cpu"
  by (simp_all add: binding_of_def sample_plan_def sample_bound_def sample_handles)

lemma sample_releases_of:
  "releases_of sample_plan (phase_handle_of 7 0) = [0, 4]"
  "releases_of sample_plan (phase_handle_of 7 1) = [1]"
  "releases_of sample_plan (phase_handle_of 7 3) = [3]"
  by (simp_all add: releases_of_def sample_plan_def sample_record_def sample_handles upt_rec)

lemma earlier_releases_set:
  "earlier_releases plan p j = set (filter (\<lambda>i. i < j) (releases_of plan p))"
  by (auto simp: earlier_releases_def releases_of_def)

lemma sample_plan_times:
  "length (plan_releases sample_plan) = 5" "plan_supercycle_ns sample_plan = 10"
  "rr_release_time_ns (plan_releases sample_plan ! 0) = 0" "rr_release_time_ns (plan_releases sample_plan ! Suc 0) = 0"
  "rr_release_time_ns (plan_releases sample_plan ! 3) = 0" "rr_release_time_ns (plan_releases sample_plan ! 4) = 5"
  by (simp_all add: sample_plan_def sample_record_def)

lemma sample_channel_parts:
  "ch_name sample_channel = ''c''" "ch_producer sample_channel = phase_handle_of 7 0"
  "ch_consumer sample_channel = phase_handle_of 7 1" "ch_payload_size sample_channel = 1"
  "ch_initial_sample sample_channel = [0]" "ch_mode sample_channel = sample_and_hold"
  "ch_producer_device sample_channel = no_selector"
  "ch_consumer_device sample_channel = \<lparr>sel_payload_reference_ordinal = Some 0, sel_slot_stride_bytes = 1\<rparr>"
  by (simp_all add: sample_channel_def)

lemma sample_endpoint:
  "compile_device_endpoint sample_payloads [sample_buffer] sample_channel False = Some
     \<lparr>de_channel_index = 0, de_producer = False, de_phase = phase_handle_of 7 1,
      de_backend = DeviceBackendHandle 0, de_buffer = DeviceBufferHandle 0, de_reference_kind = dispatch_buffer,
      de_command_index = 0, de_command_reference_index = 0, de_envelope_offset = 0, de_envelope_bytes = 1,
      de_slot_stride_bytes = 1, de_slot_count = 1, de_timestamp_domain_identity = 1, de_host_storage = [0]\<rparr>"
  by (simp add: compile_device_endpoint_def endpoint_reference_def selector_valid_def role_fits_def access_fits_def
      buffer_unusable_def envelope_holds_def cross_sample_defs sample_handles checked_multiply_def checked_add_def
      u64_max_def device_buffer_host_write_def runtime_timestamp_domain_identity_def)

lemma sample_cross_rate_accepts:
  "cross_rate_accepts 7 4 sample_plan [sample_channel, sample_feedback] sample_payloads [sample_buffer] []"
proof -
  let ?cs = "[sample_channel, sample_feedback]"
  have "bindings_total 7 4 sample_plan"
    by (simp add: bindings_total_def binding_well_formed_def sample_plan_def sample_bound_def sample_handles)
  moreover have "channel_well_formed 7 4 sample_plan sample_payloads [sample_buffer] sample_channel"
    unfolding channel_well_formed_def
    by (simp add: uses_device_def sample_channel_parts sample_binding_of sample_releases_of sample_bound_def
        sample_endpoint channel_malformed_def channel_foreign_def valid_channel_name_def selectors_mismatch_def
        selector_partial_def selector_valid_def no_selector_def sample_handles cross_rate_channel_name_capacity_def
        cross_rate_payload_capacity_def name_character_def)
  moreover have "channel_well_formed 7 4 sample_plan sample_payloads [sample_buffer] sample_feedback"
    unfolding channel_well_formed_def
    by (simp add: uses_device_def sample_feedback_def sample_binding_of sample_releases_of sample_bound_def
        channel_malformed_def channel_foreign_def valid_channel_name_def selectors_mismatch_def
        selector_partial_def selector_valid_def no_selector_def sample_handles cross_rate_channel_name_capacity_def
        cross_rate_payload_capacity_def name_character_def)
  moreover have "within_capacity (total_load sample_plan [] 0 ?cs)"
    by (simp add: within_capacity_def channel_load_def add_load_def consumer_release_count_eq sample_channel_def
        sample_feedback_def sample_releases_of snapshot_slots_def cross_capacities cross_rate_snapshot_slot_count_def)
  moreover have "list_all (channel_readable sample_plan) ?cs"
    by (simp add: channel_readable_def age_representable_def earlier_releases_set sample_channel_def
        sample_feedback_def sample_releases_of sample_plan_times)
  moreover have "sorted_wrt apart (channel_endpoints sample_plan sample_payloads [sample_buffer] 0 ?cs)"
    by (simp add: channel_endpoint_def endpoint_list_def uses_device_def sample_channel_def sample_feedback_def
        sample_binding_of sample_bound_def split: option.splits)
  ultimately show ?thesis
    unfolding cross_rate_accepts_def channels_ok_def
    by (simp add: slots_ok_def) (simp add: sample_plan_def sample_channel_def sample_feedback_def sample_handles)
qed

lemma sample_cross_rate:
  "\<exists>xp. compile_cross_rate_data 7 4 sample_plan [sample_channel, sample_feedback] sample_payloads [sample_buffer] []
     out = (ok, xp, \<lparr>cr_status = ok, cr_message = None\<rparr>)"
  using sample_cross_rate_accepts cross_rate_accepted by (simp add: cross_rate_ok)

section \<open>What compilation asks of the channels\<close>












lemma total_load_eq:
  "total_load plan sc k cs =
     (\<Sum>c\<leftarrow>cs. length (ch_initial_sample c), \<Sum>(i, c)\<leftarrow>enumerate k cs. ch_payload_size c * snapshot_slots sc i,
      \<Sum>c\<leftarrow>cs. 2 * length (releases_of plan (ch_consumer c)))"
  by (induction cs arbitrary: k) (simp_all add: add_load_def channel_load_def consumer_release_count_eq)


section \<open>What a compiled plan holds\<close>


lemma channels_compiled:
  assumes "compile_cross_rate_data ow n plan cs dv bufs sc out = (ok, xp, diag)"
  shows "length (xp_channels xp) = length cs \<and> length (xp_stores xp) = length cs \<and>
    (\<forall>k < length cs. channel_compiled plan (cs ! k) k xp)"
proof (cases "cs = []")
  case True
  then show ?thesis using cross_rate_empty [OF assms True] by (simp add: empty_cross_rate_plan_def)
next
  case False
  obtain t start where add: "add_channels ow plan t dv bufs sc 0 cs start = Inr xp"
    and start: "xp_channels start = []" "xp_stores start = []"
    by (rule cross_rate_okE [OF assms False]) simp
  show ?thesis using add_channels_spec [of ow plan t dv bufs sc "[]" cs start xp] add start by simp
qed

text \<open>
  C35. In a compiled cross-rate plan the selections of every channel are a slice of the selection
  table, in which the selections of the first supercycle and of the later ones alternate, one pair
  for every release of the consumer in reference order.  Each selection names the latest release of
  the producer before the consumer's, or where there is none the initial sample in the first
  supercycle and the producer's last release of the previous one later; its age is the exact time
  between the two, it is fresh exactly within the declared maximum age, and it is held exactly when
  it reads the same sample as the selection before it.  The channel has a snapshot store of its
  own payload size and slot count.
\<close>

theorem compile_cross_rate_selections:
  assumes "compile_cross_rate_data ow n plan cs dv bufs sc out = (ok, xp, diag)" and "k < length cs"
  shows "\<exists>firsts repeats. selections_ok plan (cs ! k) firsts repeats \<and> channel_slice xp k = interleave firsts repeats \<and>
    cx_first_selection_index (xp_channels xp ! k) + cx_selection_count (xp_channels xp ! k) \<le> length (xp_selections xp) \<and>
    cx_producer (xp_channels xp ! k) = ch_producer (cs ! k) \<and> cx_consumer (xp_channels xp ! k) = ch_consumer (cs ! k) \<and>
    create_store (ch_payload_size (cs ! k)) (cx_snapshot_slot_count (xp_channels xp ! k)) empty_store =
      (ok, xp_stores xp ! k)"
  using channels_compiled [OF assms(1)] assms(2) unfolding channel_compiled_def by blast

theorem compile_cross_rate_selections_witness:
  "\<exists>xp firsts repeats. compile_cross_rate_data 7 4 sample_plan [sample_channel, sample_feedback] sample_payloads
       [sample_buffer] [] empty_cross_rate_plan = (ok, xp, \<lparr>cr_status = ok, cr_message = None\<rparr>) \<and>
     channel_slice xp 1 = interleave firsts repeats \<and>
     cs_provenance (firsts ! 0) = initial_sample \<and> cs_producer_reference_index (repeats ! 0) = Some 3 \<and>
     cs_source_cycle_offset (repeats ! 0) = - 1 \<and> unat (cs_age_ns (repeats ! 0)) = 10"
proof -
  obtain xp where xp: "compile_cross_rate_data 7 4 sample_plan [sample_channel, sample_feedback] sample_payloads
      [sample_buffer] [] empty_cross_rate_plan = (ok, xp, \<lparr>cr_status = ok, cr_message = None\<rparr>)"
    using sample_cross_rate by blast
  obtain firsts repeats where sel: "selections_ok sample_plan sample_feedback firsts repeats"
    and interleaved: "channel_slice xp 1 = interleave firsts repeats"
    using compile_cross_rate_selections [OF xp, of 1] by auto
  have "releases_of sample_plan (ch_consumer sample_feedback) = [0, 4]"
    "ch_producer sample_feedback = phase_handle_of 7 3" by (simp_all add: sample_feedback_def sample_releases_of)
  then have "reads_latest sample_plan sample_feedback 0 False (firsts ! 0)"
    "reads_latest sample_plan sample_feedback 0 True (repeats ! 0)" "ch_producer sample_feedback = phase_handle_of 7 3"
    using selections_okD(3,4) [OF sel, of 0] by simp_all
  then show ?thesis
    using xp interleaved
    by (intro exI [of _ xp] exI [of _ firsts] exI [of _ repeats])
      (simp add: reads_latest_def earlier_releases_set sample_releases_of sample_plan_times)
qed

lemma channel_endpoints_indices:
  assumes "list_all (channel_well_formed ow n plan dv bufs) cs"
  shows "map de_channel_index (channel_endpoints plan dv bufs k cs) =
    map fst (filter (\<lambda>(i, c). uses_device plan (ch_producer c) \<or> uses_device plan (ch_consumer c)) (enumerate k cs))"
  using assms
  by (induction cs arbitrary: k)
    (auto simp: channel_endpoint_def endpoint_list_def channel_well_formed_def split: option.splits)

lemma channel_endpoints_fit:
  assumes "list_all (channel_well_formed ow n plan dv bufs) cs" and "e \<in> set (channel_endpoints plan dv bufs k cs)"
  shows "\<exists>i < length cs. de_channel_index e = k + i \<and> endpoint_fits (ch_payload_size (cs ! i)) e"
  using assms
proof (induction cs arbitrary: k)
  case Nil
  then show ?case by simp
next
  case (Cons c cs)
  show ?case
  proof (cases "channel_endpoint plan dv bufs k c = Some e")
    case True
    have "ch_payload_size c \<le> 65536"
      using Cons.prems(1) by (simp add: channel_well_formed_def channel_malformed_def cross_rate_payload_capacity_def)
    then show ?thesis using channel_endpoint_fits [OF True] by (intro exI [of _ 0]) simp
  next
    case False
    then have "e \<in> set (channel_endpoints plan dv bufs (Suc k) cs)"
      using Cons.prems(2) by (auto simp: endpoint_list_def split: option.splits)
    then obtain i where "i < length cs" "de_channel_index e = Suc k + i" "endpoint_fits (ch_payload_size (cs ! i)) e"
      using Cons.IH [of "Suc k"] Cons.prems(1) by auto
    then show ?thesis by (intro exI [of _ "Suc i"]) simp
  qed
qed

text \<open>
  C36. Device memory is never shared or overrun: a compiled cross-rate plan has one device endpoint for
  every channel that touches a device phase, in channel order; every sample slot of an endpoint
  lies within its envelope and within the host storage of its buffer, slots are a payload or more
  apart, and the envelopes of two endpoints on one buffer do not overlap.
\<close>

theorem compile_cross_rate_endpoints:
  assumes "compile_cross_rate_data ow n plan cs dv bufs sc out = (ok, xp, diag)"
  shows "map de_channel_index (xp_device_endpoints xp) =
      map fst (filter (\<lambda>(i, c). uses_device plan (ch_producer c) \<or> uses_device plan (ch_consumer c)) (enumerate 0 cs)) \<and>
    (\<forall>e \<in> set (xp_device_endpoints xp). endpoint_fits (ch_payload_size (cs ! de_channel_index e)) e) \<and>
    sorted_wrt apart (xp_device_endpoints xp)"
proof (cases "cs = []")
  case True
  then show ?thesis using cross_rate_empty [OF assms True] by (simp add: empty_cross_rate_plan_def)
next
  case False
  show ?thesis
  proof (rule cross_rate_okE [OF assms False])
    assume "channels_ok ow n plan cs dv bufs sc" and eq: "xp_device_endpoints xp = channel_endpoints plan dv bufs 0 cs"
    then have ok: "list_all (channel_well_formed ow n plan dv bufs) cs"
      "sorted_wrt apart (channel_endpoints plan dv bufs 0 cs)"
      by (simp_all add: channels_ok_def)
    then show ?thesis
      unfolding eq using channel_endpoints_indices [OF ok(1), of 0] channel_endpoints_fit [OF ok(1), of _ 0] by auto
  qed
qed

theorem compile_cross_rate_endpoints_witness:
  "\<exists>xp. compile_cross_rate_data 7 4 sample_plan [sample_channel, sample_feedback] sample_payloads [sample_buffer] []
       empty_cross_rate_plan = (ok, xp, \<lparr>cr_status = ok, cr_message = None\<rparr>) \<and>
     map de_channel_index (xp_device_endpoints xp) = [0]"
proof -
  obtain xp where xp: "compile_cross_rate_data 7 4 sample_plan [sample_channel, sample_feedback] sample_payloads
      [sample_buffer] [] empty_cross_rate_plan = (ok, xp, \<lparr>cr_status = ok, cr_message = None\<rparr>)"
    using sample_cross_rate by blast
  show ?thesis
    using xp compile_cross_rate_endpoints [OF xp]
    by (intro exI [of _ xp])
      (simp add: uses_device_def sample_channel_parts sample_feedback_def sample_binding_of sample_bound_def)
qed

lemma store_bytes:
  assumes "create_store slot_bytes slots out = (ok, st)"
  shows "payload_storage_bytes st = slot_bytes * slots"
  using assms by (auto simp: create_store_def checked_multiply_size_eq split: if_splits)

lemma total_load_selections:
  assumes "list_all2 (\<lambda>c (f, r). selections_ok plan c f r) cs sels"
  shows "length (concat (map (\<lambda>(f, r). interleave f r) sels)) = snd (snd (total_load plan sc k cs))"
  using assms
proof (induction cs sels arbitrary: k rule: list_all2_induct)
  case Nil
  then show ?case by simp
next
  case (Cons c cs s sels)
  obtain f r where s: "s = (f, r)" by (cases s)
  have "length (interleave f r) = consumer_release_count plan (ch_consumer c) * 2"
    using Cons.hyps selections_okD(1,2) [of plan c f r] length_interleave [of f r]
    by (simp add: s consumer_release_count_eq)
  then show ?case using Cons.IH [of "Suc k"] by (simp add: s add_load_def channel_load_def case_prod_beta)
qed

lemma total_load_stores:
  assumes "list_all2 (\<lambda>(i, c) st. create_store (ch_payload_size c) (snapshot_slots sc i) empty_store = (ok, st))
      (enumerate k cs) sts"
  shows "sum_list (map payload_storage_bytes sts) = fst (snd (total_load plan sc k cs))"
  using assms
proof (induction cs arbitrary: k sts)
  case Nil
  then show ?case by simp
next
  case (Cons c cs)
  then obtain st rest where sts: "sts = st # rest"
    and st: "create_store (ch_payload_size c) (snapshot_slots sc k) empty_store = (ok, st)"
    and rest: "list_all2 (\<lambda>(i, c) st. create_store (ch_payload_size c) (snapshot_slots sc i) empty_store = (ok, st))
      (enumerate (Suc k) cs) rest"
    by (auto simp: list_all2_Cons1)
  show ?case
    using Cons.IH [OF rest] store_bytes [OF st] by (simp add: sts add_load_def channel_load_def case_prod_beta)
qed

text \<open>
  C37. A compiled cross-rate plan stays within the declared capacities whatever the channels ask for: at
  most 256 channels, 262144 selections, 1 MiB of initial samples and 2 MiB of snapshot storage, and
  it has one descriptor and one store for every channel.
\<close>

theorem compile_cross_rate_bounds:
  assumes "compile_cross_rate_data ow n plan cs dv bufs sc out = (ok, xp, diag)"
  shows "length (xp_channels xp) = length cs \<and> length (xp_stores xp) = length cs \<and> length cs \<le> 256 \<and>
    length (xp_selections xp) \<le> 262144 \<and>
    sum_list (map (\<lambda>c. length (ch_initial_sample c)) cs) \<le> 1048576 \<and>
    sum_list (map payload_storage_bytes (xp_stores xp)) \<le> 2097152"
proof (cases "cs = []")
  case True
  then show ?thesis using cross_rate_empty [OF assms True] by (simp add: empty_cross_rate_plan_def)
next
  case False
  show ?thesis
  proof (rule cross_rate_okE [OF assms False])
    fix t start
    assume ok: "channels_ok ow n plan cs dv bufs sc" and count: "length cs \<le> 256"
      and add: "add_channels ow plan t dv bufs sc 0 cs start = Inr xp"
      and start: "xp_selections start = []" "xp_stores start = []"
    have load: "within_capacity (total_load plan sc 0 cs)" using ok by (simp add: channels_ok_def)
    have "length (xp_selections xp) = snd (snd (total_load plan sc 0 cs))"
      using add_channels_layout(1) [OF add] total_load_selections start(1) by auto
    moreover have "sum_list (map payload_storage_bytes (xp_stores xp)) = fst (snd (total_load plan sc 0 cs))"
      using add_channels_layout(2) [OF add] total_load_stores start(2) by auto
    ultimately show ?thesis
      using load count channels_compiled [OF assms] total_load_eq [of plan sc 0 cs]
      by (simp add: within_capacity_def cross_capacities case_prod_beta)
  qed
qed

theorem compile_cross_rate_bounds_witness:
  "\<exists>xp. compile_cross_rate_data 7 4 sample_plan [sample_channel, sample_feedback] sample_payloads [sample_buffer] []
       empty_cross_rate_plan = (ok, xp, \<lparr>cr_status = ok, cr_message = None\<rparr>) \<and>
     length (xp_stores xp) = 2 \<and> sum_list (map payload_storage_bytes (xp_stores xp)) \<le> 2097152"
proof -
  obtain xp where xp: "compile_cross_rate_data 7 4 sample_plan [sample_channel, sample_feedback] sample_payloads
      [sample_buffer] [] empty_cross_rate_plan = (ok, xp, \<lparr>cr_status = ok, cr_message = None\<rparr>)"
    using sample_cross_rate by blast
  show ?thesis using xp compile_cross_rate_bounds [OF xp] by (intro exI [of _ xp]) simp
qed

end
