(* ===== verification/Rate_Ages.thy ===== *)
theory Rate_Ages
  imports Cross_Rate_Properties Rate_Schedule
begin

text \<open>
  Cross-rate channels over a plan of the rate timeline compiler: the releases are in order of time
  and within the supercycle, so ages are always representable and no sample that is read is older
  than one supercycle.
\<close>

section \<open>Times of a compiled plan\<close>

definition timed :: "compiled_rate_plan \<Rightarrow> bool" where
  "timed plan \<longleftrightarrow>
     (\<forall>i j. i \<le> j \<longrightarrow> j < length (plan_releases plan) \<longrightarrow>
        unat (rr_release_time_ns (plan_releases plan ! i)) \<le> unat (rr_release_time_ns (plan_releases plan ! j))) \<and>
     (\<forall>i < length (plan_releases plan).
        unat (rr_release_time_ns (plan_releases plan ! i)) < unat (plan_supercycle_ns plan))"

lemma timedD:
  assumes "timed plan"
  shows "i \<le> j \<Longrightarrow> j < length (plan_releases plan) \<Longrightarrow>
      unat (rr_release_time_ns (plan_releases plan ! i)) \<le> unat (rr_release_time_ns (plan_releases plan ! j))"
    and "i < length (plan_releases plan) \<Longrightarrow>
      unat (rr_release_time_ns (plan_releases plan ! i)) < unat (plan_supercycle_ns plan)"
  using assms unfolding timed_def by blast+

lemma compiled_timed:
  assumes "compile_rate_timeline ow n order ds bs out = (ok, plan, diag)" and "ds \<noteq> []"
  shows "timed plan"
proof -
  obtain bbp where len: "length order = n" "length bs = n" and adm: "rate_admissible ow n order ds bs"
    and bbp: "\<forall>j < n. bbp ! binding_phase (bs ! j) = Some j" and plan: "plan = plan_for ow order ds bs bbp"
    by (rule compile_rate_timeline_okE [OF assms])
  note parts = plan_for_parts [OF adm len bbp, folded plan] and d = rate_admissibleD [OF adm]
  have "unat (rr_release_time_ns r) < unat (plan_supercycle_ns plan)" if "r \<in> set (plan_releases plan)" for r
    using that release_time_bounds [OF _ d(1) d(3) d(6)] parts(1) unfolding parts(4) by simp
  moreover have "unat (rr_release_time_ns (plan_releases plan ! i)) \<le> unat (rr_release_time_ns (plan_releases plan ! j))"
    if "i \<le> j" "j < length (plan_releases plan)" for i j
  proof (cases "i = j")
    case False
    then have "release_key (plan_releases plan ! i) < release_key (plan_releases plan ! j)"
      using parts(2) that by (simp add: sorted_wrt_iff_nth_less)
    then show ?thesis by (auto simp: release_key_def less_prod_def word_le_nat_alt word_less_nat_alt)
  qed simp
  ultimately show ?thesis unfolding timed_def by (blast intro: nth_mem)
qed

lemma newest_wraps:
  assumes "earlier_releases plan p j = {}" and "releases_of plan p \<noteq> []"
  shows "j \<le> Max (earlier_releases plan p (length (plan_releases plan)))"
    and "Max (earlier_releases plan p (length (plan_releases plan))) < length (plan_releases plan)"
proof -
  let ?all = "earlier_releases plan p (length (plan_releases plan))"
  have "?all \<noteq> {}" using assms(2) by (simp add: releases_of_nonempty)
  then have "Max ?all \<in> ?all" by (intro Max_in) simp_all
  then show "j \<le> Max ?all" "Max ?all < length (plan_releases plan)"
    using assms(1) by (auto simp: earlier_releases_def not_less [symmetric])
qed

lemma newest_before:
  assumes "earlier_releases plan p j \<noteq> {}"
  shows "Max (earlier_releases plan p j) \<le> j"
proof -
  have "Max (earlier_releases plan p j) \<in> earlier_releases plan p j" using assms by (intro Max_in) simp_all
  then show ?thesis by (simp add: earlier_releases_def)
qed

text \<open>The age across the supercycle boundary: what is left of the previous supercycle, plus the time in this one.\<close>

lemma wrapped_age:
  assumes "timed plan" and "earlier_releases plan p j = {}" and "releases_of plan p \<noteq> []"
  defines "newest \<equiv> Max (earlier_releases plan p (length (plan_releases plan)))"
  shows "unat (plan_supercycle_ns plan - rr_release_time_ns (plan_releases plan ! newest)) +
      unat (rr_release_time_ns (plan_releases plan ! j)) \<le> unat (plan_supercycle_ns plan)"
proof -
  note wrap = newest_wraps [OF assms(2,3), folded newest_def]
  have "unat (plan_supercycle_ns plan - rr_release_time_ns (plan_releases plan ! newest)) =
      unat (plan_supercycle_ns plan) - unat (rr_release_time_ns (plan_releases plan ! newest))"
    using timedD(2) [OF assms(1) wrap(2)] by (intro unat_sub) (simp add: word_le_nat_alt)
  then show ?thesis using timedD(2) [OF assms(1) wrap(2)] timedD(1) [OF assms(1) wrap] by linarith
qed

lemma timed_representable:
  assumes "timed plan" and "releases_of plan p \<noteq> []" and "j < length (plan_releases plan)"
  shows "age_representable plan p j"
proof (cases "earlier_releases plan p j = {}")
  case True
  then show ?thesis
    using wrapped_age [OF assms(1) True assms(2)] unat_u64_less [of "plan_supercycle_ns plan"]
    by (simp add: age_representable_def)
next
  case False
  then show ?thesis
    using timedD(1) [OF assms(1) newest_before [OF False] assms(3)]
    by (simp add: age_representable_def Let_def word_le_nat_alt)
qed

lemma latest_age:
  assumes "timed plan" and "releases_of plan (ch_producer c) \<noteq> []" and "j < length (plan_releases plan)"
    and "reads_latest plan c j steady s"
  shows "unat (cs_age_ns s) \<le> unat (plan_supercycle_ns plan)"
proof (cases "earlier_releases plan (ch_producer c) j = {}")
  case True
  then show ?thesis
    using assms(4) wrapped_age [OF assms(1) True assms(2)] timedD(2) [OF assms(1,3)]
    by (cases steady) (auto simp: reads_latest_def Let_def)
next
  case False
  then have "unat (cs_age_ns s) \<le> unat (rr_release_time_ns (plan_releases plan ! j))"
    using assms(4) by (simp add: reads_latest_def Let_def)
  then show ?thesis using timedD(2) [OF assms(1,3)] by linarith
qed

section \<open>Channels over compiled timelines\<close>

text \<open>
  C38. On a plan that the rate timeline compiler produced, every consumer release of a producer that
  runs at all has a representable age, so no channel is rejected for its ages; and in a compiled
  cross-rate plan no consumer ever reads a sample that is older than one supercycle.
\<close>

theorem compiled_selection_ages:
  assumes "compile_rate_timeline ow n order ds bs out = (ok, plan, diag)" and "ds \<noteq> []"
    and "compile_cross_rate_data ow n plan cs dv bufs sc xout = (ok, xp, xdiag)"
  shows "(\<forall>p. \<forall>j < length (plan_releases plan). releases_of plan p \<noteq> [] \<longrightarrow> age_representable plan p j) \<and>
    (\<forall>s \<in> set (xp_selections xp). unat (cs_age_ns s) \<le> unat (plan_supercycle_ns plan))"
proof -
  note times = compiled_timed [OF assms(1,2)]
  have "unat (cs_age_ns s) \<le> unat (plan_supercycle_ns plan)" if s: "s \<in> set (xp_selections xp)" for s
  proof (cases "cs = []")
    case True
    then show ?thesis using cross_rate_empty [OF assms(3) True] s by (simp add: empty_cross_rate_plan_def)
  next
    case False
    show ?thesis
    proof (rule cross_rate_okE [OF assms(3) False])
      fix t start
      assume ok: "channels_ok ow n plan cs dv bufs sc" and start: "xp_selections start = []"
        and add: "add_channels ow plan t dv bufs sc 0 cs start = Inr xp"
      obtain sels where sels: "xp_selections xp = concat (map (\<lambda>(f, r). interleave f r) sels)"
        "list_all2 (\<lambda>c (f, r). selections_ok plan c f r) cs sels"
        using add_channels_layout(1) [OF add] start by auto
      obtain f r where fr: "(f, r) \<in> set sels" "s \<in> set (interleave f r)" using s sels(1) by auto
      obtain c where c: "c \<in> set cs" "selections_ok plan c f r"
        using fr(1) sels(2) by (fastforce simp: list_all2_conv_all_nth in_set_conv_nth)
      note parts = selections_okD [OF c(2)]
      obtain m steady where m: "m < length (releases_of plan (ch_consumer c))"
        "reads_latest plan c (releases_of plan (ch_consumer c) ! m) steady s"
        using fr(2) parts set_interleave [of f r] by (auto simp: in_set_conv_nth)
      have "releases_of plan (ch_producer c) \<noteq> []"
        using ok c(1) by (simp add: channels_ok_def list_all_iff channel_readable_def)
      moreover have "releases_of plan (ch_consumer c) ! m < length (plan_releases plan)"
        using nth_mem [OF m(1)] by (simp add: releases_of_def)
      ultimately show ?thesis using latest_age [OF times _ _ m(2)] by blast
    qed
  qed
  then show ?thesis using timed_representable [OF times] by blast
qed

text \<open>Two domains of the same period; the phase of the first feeds the phase of the second.\<close>

definition pair_domain :: rate_domain_spec where
  "pair_domain = sample_domain\<lparr>rd_name := ''b''\<rparr>"

definition pair_binding :: rate_binding_spec where
  "pair_binding = \<lparr>rb_phase = phase_handle_of 7 1, rb_domain = rate_domain_handle_of 7 1, rb_phase_kind = kind_cpu\<rparr>"

definition pair_plan :: compiled_rate_plan where
  "pair_plan = plan_for 7 [phase_handle_of 7 0, phase_handle_of 7 1] [sample_domain, pair_domain]
     [sample_binding, pair_binding] [Some 0, Some 1]"

definition pair_channel :: cross_rate_channel_spec where
  "pair_channel = \<lparr>ch_name = ''c'', ch_producer = phase_handle_of 7 0, ch_consumer = phase_handle_of 7 1,
     ch_payload_size = 1, ch_initial_sample = [0], ch_mode = sample_and_hold, ch_maximum_age_ns = u64_max,
     ch_producer_device = no_selector, ch_consumer_device = no_selector\<rparr>"

lemma pair_compiles:
  "compile_rate_timeline 7 2 [phase_handle_of 7 0, phase_handle_of 7 1] [sample_domain, pair_domain]
     [sample_binding, pair_binding] empty_rate_plan = (ok, pair_plan, \<lparr>rc_status = ok, rc_message = None\<rparr>)"
proof -
  have "supercycle_of [sample_domain, pair_domain] = 5"
    by (simp add: supercycle_of_def sample_domain_def pair_domain_def)
  moreover have "replicate 2 None = [None, None :: nat option]" by (simp add: numeral_2_eq_2)
  ultimately show ?thesis
    by (simp add: pair_plan_def plan_for_def expected_releases_def expected_domain_def
        expected_sequence_def compiled_binding_def sample_domain_def pair_domain_def sample_binding_def
        pair_binding_def compile_rate_eval)
qed

lemma pair_plan_parts:
  "plan_bindings pair_plan =
     [\<lparr>cb_phase = phase_handle_of 7 0, cb_domain = rate_domain_handle_of 7 0, cb_phase_kind = kind_cpu, cb_compiled_phase_index = 0\<rparr>,
      \<lparr>cb_phase = phase_handle_of 7 1, cb_domain = rate_domain_handle_of 7 1, cb_phase_kind = kind_cpu, cb_compiled_phase_index = 1\<rparr>]"
  "length (plan_domains pair_plan) = 2"
  "map rr_phase (plan_releases pair_plan) = [phase_handle_of 7 0, phase_handle_of 7 1]"
proof -
  note eval = pair_plan_def plan_for_def Let_def sample_handles compile_domains_def compiled_binding_def
    sample_binding_def pair_binding_def
  show "plan_bindings pair_plan =
     [\<lparr>cb_phase = phase_handle_of 7 0, cb_domain = rate_domain_handle_of 7 0, cb_phase_kind = kind_cpu, cb_compiled_phase_index = 0\<rparr>,
      \<lparr>cb_phase = phase_handle_of 7 1, cb_domain = rate_domain_handle_of 7 1, cb_phase_kind = kind_cpu, cb_compiled_phase_index = 1\<rparr>]"
    by (simp add: eval)
  show "length (plan_domains pair_plan) = 2" by (simp add: eval)
  show "map rr_phase (plan_releases pair_plan) = [phase_handle_of 7 0, phase_handle_of 7 1]"
    by (simp add: eval expected_releases_def expected_domain_def expected_sequence_def release_of_def release_key_def
        supercycle_of_def         sample_domain_def pair_domain_def)
qed

lemma pair_releases_of:
  "releases_of pair_plan (phase_handle_of 7 0) = [0]" "releases_of pair_plan (phase_handle_of 7 1) = [1]"
proof -
  have len: "length (plan_releases pair_plan) = 2" using arg_cong [OF pair_plan_parts(3), of length] by simp
  have nth: "rr_phase (plan_releases pair_plan ! 0) = phase_handle_of 7 0" "rr_phase (plan_releases pair_plan ! 1) = phase_handle_of 7 1"
    using arg_cong [OF pair_plan_parts(3), of "\<lambda>xs. xs ! 0"] arg_cong [OF pair_plan_parts(3), of "\<lambda>xs. xs ! 1"] len
    by simp_all
  show "releases_of pair_plan (phase_handle_of 7 0) = [0]" "releases_of pair_plan (phase_handle_of 7 1) = [1]"
    using nth by (simp_all add: releases_of_def len upt_rec sample_handles)
qed

lemma pair_accepts: "cross_rate_accepts 7 2 pair_plan [pair_channel] None [] []"
proof -
  have "bindings_total 7 2 pair_plan"
    by (simp add: bindings_total_def binding_well_formed_def pair_plan_parts sample_handles)
  moreover have "channel_well_formed 7 2 pair_plan None [] pair_channel"
    by (simp add: channel_well_formed_def uses_device_def binding_of_def pair_channel_def pair_plan_parts pair_releases_of
        channel_malformed_def channel_foreign_def valid_channel_name_def selectors_mismatch_def
        selector_partial_def selector_valid_def no_selector_def sample_handles cross_rate_channel_name_capacity_def
        cross_rate_payload_capacity_def name_character_def)
  moreover have "within_capacity (total_load pair_plan [] 0 [pair_channel])"
    by (simp add: within_capacity_def channel_load_def consumer_release_count_eq pair_channel_def
        pair_releases_of snapshot_slots_def cross_capacities cross_rate_snapshot_slot_count_def)
  moreover have "channel_readable pair_plan pair_channel"
    unfolding channel_readable_def
  proof
    show ne: "releases_of pair_plan (ch_producer pair_channel) \<noteq> []" by (simp add: pair_channel_def pair_releases_of)
    show "list_all (age_representable pair_plan (ch_producer pair_channel)) (releases_of pair_plan (ch_consumer pair_channel))"
      using timed_representable [OF compiled_timed [OF pair_compiles] ne] by (auto simp: list_all_iff releases_of_def)
  qed
  moreover have "channel_endpoints pair_plan None [] 0 [pair_channel] = []"
    by (simp add: channel_endpoint_def endpoint_list_def uses_device_def binding_of_def pair_channel_def pair_plan_parts sample_handles)
  moreover have "plan_domains pair_plan \<noteq> []" using pair_plan_parts(2) by auto
  ultimately show ?thesis by (simp add: cross_rate_accepts_def channels_ok_def slots_ok_def)
qed

theorem compiled_selection_ages_witness:
  "\<exists>xp. compile_rate_timeline 7 2 [phase_handle_of 7 0, phase_handle_of 7 1] [sample_domain, pair_domain]
       [sample_binding, pair_binding] empty_rate_plan = (ok, pair_plan, \<lparr>rc_status = ok, rc_message = None\<rparr>) \<and>
     compile_cross_rate_data 7 2 pair_plan [pair_channel] None [] [] empty_cross_rate_plan =
       (ok, xp, \<lparr>cr_status = ok, cr_message = None\<rparr>) \<and>
     (\<forall>s \<in> set (xp_selections xp). unat (cs_age_ns s) \<le> 5)"
proof -
  obtain xp where xp: "compile_cross_rate_data 7 2 pair_plan [pair_channel] None [] [] empty_cross_rate_plan =
      (ok, xp, \<lparr>cr_status = ok, cr_message = None\<rparr>)"
    using pair_accepts [folded cross_rate_accepted] by (auto simp: cross_rate_ok)
  have "supercycle_of [sample_domain, pair_domain] = 5"
    by (simp add: supercycle_of_def sample_domain_def pair_domain_def)
  then have "unat (plan_supercycle_ns pair_plan) = 5" by (simp add: pair_plan_def plan_for_def Let_def)
  then show ?thesis
    using pair_compiles xp compiled_selection_ages [OF pair_compiles _ xp] by (intro exI [of _ xp]) simp
qed

end
