(* ===== verification/Snapshot_Codec.thy ===== *)
theory Snapshot_Codec
  imports Canonical_Bytes "HOL-Library.Monad_Syntax"
begin

text \<open>
  The checkpoint artifact of \<^verbatim>\<open>rt/src/snapshot_codec.cpp\<close>: identifiers, checksums, the encoder, the
  parser and the record cursor.  Characters are bytes; a view of characters or bytes is the list
  of its bytes; sizes and offsets are natural numbers with the bound of \<^verbatim>\<open>size_t\<close> written out.

  Every rejection of the parser resets the metadata and returns \<open>invalid_artifact\<close>: it is None.
  The callback that supplies the states is a parameter, a function of the pass (0 validates and
  measures, 1 writes) and of the index; None stands for the callback reporting failure.
\<close>

section \<open>Constants and data\<close>

definition replay_identifier_capacity :: nat where "replay_identifier_capacity = 64"
definition checkpoint_schema_version :: u32 where "checkpoint_schema_version = 1"
definition checkpoint_header_size :: nat where "checkpoint_header_size = 256"
definition checkpoint_record_header_size :: nat where "checkpoint_record_header_size = 88"
definition artifact_absolute_max_bytes :: nat where "artifact_absolute_max_bytes = 2 ^ 30"
definition artifact_absolute_max_records :: nat where "artifact_absolute_max_records = 2 ^ 20"
definition kCheckpointChecksumOffset :: nat where "kCheckpointChecksumOffset = 112"
definition kFnvOffset :: u64 where "kFnvOffset = 14695981039346656037"
definition kFnvPrime :: u64 where "kFnvPrime = 1099511628211"

definition kCheckpointMagic :: bytes where
  "kCheckpointMagic = [0x52, 0x54, 0x46, 0x57, 0x43, 0x50, 0x31, 0]"

text \<open>The determinism tier is an enumeration over one byte; the codec checks its range.\<close>

type_synonym determinism_tier = u8

record checkpoint_metadata =
  cm_schema_version :: u32
  cm_runtime_version_major :: u32
  cm_runtime_version_minor :: u32
  cm_runtime_version_patch :: u32
  cm_determinism_tier :: determinism_tier
  cm_config_id :: u64
  cm_replay_id :: u64
  cm_graph_id :: u64
  cm_state_schema_id :: u64
  cm_checkpoint_frame_index :: u64
  cm_state_payload_bytes :: u64
  cm_total_bytes :: u64
  cm_state_hash :: u64
  cm_artifact_checksum :: u64
  cm_state_count :: u32
  cm_build_id :: bytes
  cm_workload_id :: bytes

record artifact_write_result =
  required_bytes :: nat
  bytes_written :: nat
  result_checksum :: u64

definition empty_write_result :: artifact_write_result where
  "empty_write_result = \<lparr>required_bytes = 0, bytes_written = 0, result_checksum = 0\<rparr>"

record state_write_view =
  state_name :: bytes
  state_schema_version :: u32
  state_payload :: bytes

record checkpoint_record_cursor =
  cursor_offset :: nat
  cursor_index :: u32

section \<open>Identifiers\<close>

definition identifier_character :: "u8 \<Rightarrow> bool" where
  "identifier_character c \<longleftrightarrow>
     (0x61 \<le> c \<and> c \<le> 0x7A) \<or> (0x41 \<le> c \<and> c \<le> 0x5A) \<or> (0x30 \<le> c \<and> c \<le> 0x39) \<or>
     c = 0x2E \<or> c = 0x5F \<or> c = 0x3A \<or> c = 0x2F \<or> c = 0x40 \<or> c = 0x2D"

definition valid_identifier :: "bytes \<Rightarrow> bool" where
  "valid_identifier v \<longleftrightarrow>
     v \<noteq> [] \<and> length v < replay_identifier_capacity \<and> list_all identifier_character v"

text \<open>The scanning loop: the number of leading identifier characters before a zero byte or the end.\<close>

fun identifier_length :: "bytes \<Rightarrow> nat option" where
  "identifier_length [] = Some 0"
| "identifier_length (c # cs) =
     (if c = 0 then Some 0
      else if \<not> identifier_character c then None
      else map_option Suc (identifier_length cs))"

definition scan_identifier :: "bytes \<Rightarrow> nat \<Rightarrow> nat option" where
  "scan_identifier bs offset =
     (if offset > length bs \<or> length bs - offset < replay_identifier_capacity then None
      else let field = slice offset replay_identifier_capacity bs in
        case identifier_length field of
          None \<Rightarrow> None
        | Some n \<Rightarrow>
            if n = 0 \<or> n = replay_identifier_capacity \<or> \<not> list_all (\<lambda>c. c = 0) (drop (Suc n) field)
            then None else Some n)"

definition fixed_identifier :: "bytes \<Rightarrow> nat \<Rightarrow> bytes option" where
  "fixed_identifier bs offset =
     map_option (\<lambda>n. slice offset replay_identifier_capacity bs) (scan_identifier bs offset)"

definition fixed_name :: "bytes \<Rightarrow> nat \<Rightarrow> bytes option" where
  "fixed_name bs offset = map_option (\<lambda>n. slice offset n bs) (scan_identifier bs offset)"

definition write_identifier :: "bytes \<Rightarrow> nat \<Rightarrow> bytes \<Rightarrow> bytes" where
  "write_identifier out offset v = put offset v (put offset (replicate replay_identifier_capacity 0) out)"

definition write_identifier_array :: "bytes \<Rightarrow> nat \<Rightarrow> bytes \<Rightarrow> bytes" where
  "write_identifier_array out offset v = put offset v out"

definition identifier_view :: "bytes \<Rightarrow> bytes" where
  "identifier_view v = takeWhile (\<lambda>c. c \<noteq> 0) v"

section \<open>Checksums and checks\<close>

definition fnv_step :: "u64 \<Rightarrow> u8 \<Rightarrow> u64" where
  "fnv_step hash v = (hash XOR ucast v) * kFnvPrime"

definition artifact_checksum :: "bytes \<Rightarrow> u64" where
  "artifact_checksum bs = foldl fnv_step kFnvOffset bs"

definition checksum_excluding :: "bytes \<Rightarrow> nat \<Rightarrow> nat \<Rightarrow> u64" where
  "checksum_excluding bs excluded_offset excluded_size =
     foldl (\<lambda>hash index. fnv_step hash
              (if index \<ge> excluded_offset \<and> index < excluded_offset + excluded_size then 0 else bs ! index))
       kFnvOffset [0..<length bs]"

definition magic_matches :: "bytes \<Rightarrow> bytes \<Rightarrow> bool" where
  "magic_matches bs magic \<longleftrightarrow> length bs \<ge> length magic \<and> take (length magic) bs = magic"

definition bytes_zero :: "bytes \<Rightarrow> nat \<Rightarrow> nat \<Rightarrow> bool" where
  "bytes_zero bs offset n \<longleftrightarrow>
     offset \<le> length bs \<and> n \<le> length bs - offset \<and> list_all (\<lambda>c. c = 0) (slice offset n bs)"

definition valid_tier :: "u32 \<Rightarrow> bool" where
  "valid_tier tier \<longleftrightarrow> tier \<le> 3"

definition checked_artifact_add :: "nat \<Rightarrow> nat \<Rightarrow> nat option" where
  "checked_artifact_add left right =
     (if right > size_max - left then None else Some (left + right))"

definition checked_artifact_multiply :: "nat \<Rightarrow> nat \<Rightarrow> nat option" where
  "checked_artifact_multiply left right =
     (if left \<noteq> 0 \<and> right > size_max div left then None else Some (left * right))"

definition require :: "bool \<Rightarrow> unit option" where
  "require b = (if b then Some () else None)"

text \<open>The encoders ignore the result of a store.\<close>

definition store32 :: "nat \<Rightarrow> u32 \<Rightarrow> bytes \<Rightarrow> bytes" where
  "store32 offset v out = (case store_u32_le out offset v of None \<Rightarrow> out | Some out' \<Rightarrow> out')"

definition store64 :: "nat \<Rightarrow> u64 \<Rightarrow> bytes \<Rightarrow> bytes" where
  "store64 offset v out = (case store_u64_le out offset v of None \<Rightarrow> out | Some out' \<Rightarrow> out')"

section \<open>Encoding a checkpoint\<close>

type_synonym state_write_provider = "nat \<Rightarrow> nat \<Rightarrow> state_write_view option"

definition checkpoint_arguments_invalid ::
  "checkpoint_metadata \<Rightarrow> nat \<Rightarrow> state_write_provider option \<Rightarrow> nat \<Rightarrow> bool" where
  "checkpoint_arguments_invalid metadata state_count provider max_bytes \<longleftrightarrow>
     provider = None \<or> state_count > artifact_absolute_max_records \<or> state_count > 4294967295 \<or>
     max_bytes > artifact_absolute_max_bytes \<or> max_bytes < checkpoint_header_size \<or>
     \<not> valid_tier (ucast (cm_determinism_tier metadata)) \<or>
     \<not> valid_identifier (identifier_view (cm_build_id metadata)) \<or>
     \<not> valid_identifier (identifier_view (cm_workload_id metadata))"

fun checkpoint_payload_bytes :: "state_write_provider \<Rightarrow> nat list \<Rightarrow> nat \<Rightarrow> nat option" where
  "checkpoint_payload_bytes provider [] payload_bytes = Some payload_bytes"
| "checkpoint_payload_bytes provider (index # indices) payload_bytes =
     (case provider 0 index of
        None \<Rightarrow> None
      | Some state \<Rightarrow>
          if \<not> valid_identifier (state_name state) \<or> state_schema_version state = 0 \<or> state_payload state = []
          then None
          else case checked_artifact_add payload_bytes (length (state_payload state)) of
                 None \<Rightarrow> None
               | Some payload_bytes' \<Rightarrow> checkpoint_payload_bytes provider indices payload_bytes')"

definition artifact_required :: "nat \<Rightarrow> nat \<Rightarrow> nat \<Rightarrow> nat \<Rightarrow> nat option" where
  "artifact_required header_size record_size record_count payload_bytes =
     do { record_bytes \<leftarrow> checked_artifact_multiply record_count record_size;
          required \<leftarrow> checked_artifact_add header_size record_bytes;
          checked_artifact_add required payload_bytes }"

definition write_checkpoint_header ::
  "checkpoint_metadata \<Rightarrow> nat \<Rightarrow> nat \<Rightarrow> nat \<Rightarrow> bytes \<Rightarrow> bytes" where
  "write_checkpoint_header metadata state_count payload_bytes required artifact0 =
     (let artifact = put 0 kCheckpointMagic artifact0;
          artifact = store32 8 checkpoint_schema_version artifact;
          artifact = store32 12 (word_of_nat checkpoint_header_size) artifact;
          artifact = store32 16 (cm_runtime_version_major metadata) artifact;
          artifact = store32 20 (cm_runtime_version_minor metadata) artifact;
          artifact = store32 24 (cm_runtime_version_patch metadata) artifact;
          artifact = store32 28 (ucast (cm_determinism_tier metadata)) artifact;
          artifact = store32 36 (word_of_nat state_count) artifact;
          artifact = store32 40 (word_of_nat checkpoint_record_header_size) artifact;
          artifact = store64 48 (cm_config_id metadata) artifact;
          artifact = store64 56 (cm_replay_id metadata) artifact;
          artifact = store64 64 (cm_graph_id metadata) artifact;
          artifact = store64 72 (cm_state_schema_id metadata) artifact;
          artifact = store64 80 (cm_checkpoint_frame_index metadata) artifact;
          artifact = store64 88 (word_of_nat payload_bytes) artifact;
          artifact = store64 96 (word_of_nat required) artifact;
          artifact = write_identifier_array artifact 120 (cm_build_id metadata)
      in write_identifier_array artifact 184 (cm_workload_id metadata))"

definition write_checkpoint_record :: "state_write_view \<Rightarrow> nat \<Rightarrow> bytes \<Rightarrow> bytes" where
  "write_checkpoint_record state offset artifact0 =
     (let artifact = write_identifier artifact0 offset (state_name state);
          artifact = store32 (offset + 64) (state_schema_version state) artifact;
          artifact = store64 (offset + 72) (word_of_nat (length (state_payload state))) artifact;
          artifact = store64 (offset + 80) (artifact_checksum (state_payload state)) artifact
      in put (offset + checkpoint_record_header_size) (state_payload state) artifact)"

fun write_checkpoint_records ::
  "state_write_provider \<Rightarrow> nat list \<Rightarrow> nat \<Rightarrow> bytes \<Rightarrow> bytes + bytes" where
  "write_checkpoint_records provider [] offset artifact = Inr artifact"
| "write_checkpoint_records provider (index # indices) offset artifact =
     (case provider 1 index of
        None \<Rightarrow> Inl artifact
      | Some state \<Rightarrow>
          write_checkpoint_records provider indices
            (offset + checkpoint_record_header_size + length (state_payload state))
            (write_checkpoint_record state offset artifact))"

definition seal_checkpoint :: "bytes \<Rightarrow> bytes \<times> u64" where
  "seal_checkpoint artifact0 =
     (let state_hash = artifact_checksum (drop checkpoint_header_size artifact0);
          artifact = store64 104 state_hash artifact0;
          checksum = checksum_excluding artifact kCheckpointChecksumOffset 8
      in (store64 kCheckpointChecksumOffset checksum artifact, checksum))"

definition encode_checkpoint_artifact ::
  "checkpoint_metadata \<Rightarrow> nat \<Rightarrow> state_write_provider option \<Rightarrow> nat \<Rightarrow> bytes \<Rightarrow>
     status \<times> bytes \<times> artifact_write_result" where
  "encode_checkpoint_artifact metadata state_count provider max_bytes output =
     (if checkpoint_arguments_invalid metadata state_count provider max_bytes
      then (invalid_argument, output, empty_write_result)
      else case checkpoint_payload_bytes (the provider) [0..<state_count] 0 of
             None \<Rightarrow> (invalid_argument, output, empty_write_result)
           | Some payload_bytes \<Rightarrow>
          (case artifact_required checkpoint_header_size checkpoint_record_header_size state_count
                  payload_bytes of
             None \<Rightarrow> (capacity_exceeded, output, empty_write_result)
           | Some required \<Rightarrow>
               if required > max_bytes \<or> length output < required
               then (capacity_exceeded, output, empty_write_result\<lparr>required_bytes := required\<rparr>)
               else case write_checkpoint_records (the provider) [0..<state_count] checkpoint_header_size
                      (write_checkpoint_header metadata state_count payload_bytes required
                         (replicate required 0)) of
                      Inl artifact \<Rightarrow>
                        (internal_error, artifact @ drop required output,
                         empty_write_result\<lparr>required_bytes := required\<rparr>)
                    | Inr artifact \<Rightarrow>
                        (case seal_checkpoint artifact of (sealed, checksum) \<Rightarrow>
                           (ok, sealed @ drop required output,
                            \<lparr>required_bytes = required, bytes_written = required,
                             result_checksum = checksum\<rparr>))))"

section \<open>Parsing a checkpoint\<close>

definition parse_checkpoint_header :: "bytes \<Rightarrow> nat \<Rightarrow> nat \<Rightarrow> checkpoint_metadata option" where
  "parse_checkpoint_header artifact max_bytes max_states =
     do { require (\<not> (max_bytes > artifact_absolute_max_bytes \<or> max_states > artifact_absolute_max_records \<or>
            length artifact < checkpoint_header_size \<or> length artifact > max_bytes \<or>
            \<not> magic_matches artifact kCheckpointMagic));
          schema \<leftarrow> load_u32_le artifact 8;
          header_size \<leftarrow> load_u32_le artifact 12;
          major \<leftarrow> load_u32_le artifact 16;
          minor \<leftarrow> load_u32_le artifact 20;
          patch \<leftarrow> load_u32_le artifact 24;
          tier \<leftarrow> load_u32_le artifact 28;
          flags \<leftarrow> load_u32_le artifact 32;
          state_count \<leftarrow> load_u32_le artifact 36;
          record_size \<leftarrow> load_u32_le artifact 40;
          reserved \<leftarrow> load_u32_le artifact 44;
          config_id \<leftarrow> load_u64_le artifact 48;
          replay_id \<leftarrow> load_u64_le artifact 56;
          graph_id \<leftarrow> load_u64_le artifact 64;
          state_schema_id \<leftarrow> load_u64_le artifact 72;
          frame_index \<leftarrow> load_u64_le artifact 80;
          payload_bytes \<leftarrow> load_u64_le artifact 88;
          total_bytes \<leftarrow> load_u64_le artifact 96;
          state_hash \<leftarrow> load_u64_le artifact 104;
          checksum \<leftarrow> load_u64_le artifact kCheckpointChecksumOffset;
          build_id \<leftarrow> fixed_identifier artifact 120;
          workload_id \<leftarrow> fixed_identifier artifact 184;
          require (\<not> (schema \<noteq> checkpoint_schema_version \<or> unat header_size \<noteq> checkpoint_header_size \<or>
            unat record_size \<noteq> checkpoint_record_header_size \<or> flags \<noteq> 0 \<or> reserved \<noteq> 0 \<or>
            \<not> bytes_zero artifact 248 8 \<or> \<not> valid_tier tier \<or> unat state_count > max_states \<or>
            unat total_bytes \<noteq> length artifact \<or> unat payload_bytes > max_bytes));
          Some \<lparr>cm_schema_version = schema, cm_runtime_version_major = major,
                cm_runtime_version_minor = minor, cm_runtime_version_patch = patch,
                cm_determinism_tier = ucast tier, cm_config_id = config_id, cm_replay_id = replay_id,
                cm_graph_id = graph_id, cm_state_schema_id = state_schema_id,
                cm_checkpoint_frame_index = frame_index, cm_state_payload_bytes = payload_bytes,
                cm_total_bytes = total_bytes, cm_state_hash = state_hash,
                cm_artifact_checksum = checksum, cm_state_count = state_count,
                cm_build_id = build_id, cm_workload_id = workload_id\<rparr> }"

definition parse_checkpoint_record :: "bytes \<Rightarrow> nat \<Rightarrow> nat \<Rightarrow> (nat \<times> nat) option" where
  "parse_checkpoint_record artifact offset payload_total =
     do { require (\<not> (offset > length artifact \<or> length artifact - offset < checkpoint_record_header_size));
          name \<leftarrow> fixed_name artifact offset;
          state_schema \<leftarrow> load_u32_le artifact (offset + 64);
          state_reserved \<leftarrow> load_u32_le artifact (offset + 68);
          payload_size \<leftarrow> load_u64_le artifact (offset + 72);
          payload_checksum \<leftarrow> load_u64_le artifact (offset + 80);
          require (\<not> (state_schema = 0 \<or> state_reserved \<noteq> 0 \<or> payload_size = 0 \<or> unat payload_size > size_max));
          let offset' = offset + checkpoint_record_header_size;
          require (\<not> (unat payload_size > length artifact - offset'));
          payload_total' \<leftarrow> checked_artifact_add payload_total (unat payload_size);
          require (artifact_checksum (slice offset' (unat payload_size) artifact) = payload_checksum);
          Some (offset' + unat payload_size, payload_total') }"

fun parse_checkpoint_records :: "bytes \<Rightarrow> nat \<Rightarrow> nat \<Rightarrow> nat \<Rightarrow> (nat \<times> nat) option" where
  "parse_checkpoint_records artifact 0 offset payload_total = Some (offset, payload_total)"
| "parse_checkpoint_records artifact (Suc remaining) offset payload_total =
     do { (offset', payload_total') \<leftarrow> parse_checkpoint_record artifact offset payload_total;
          parse_checkpoint_records artifact remaining offset' payload_total' }"

definition parse_checkpoint_artifact :: "bytes \<Rightarrow> nat \<Rightarrow> nat \<Rightarrow> checkpoint_metadata option" where
  "parse_checkpoint_artifact artifact max_bytes max_states =
     do { metadata \<leftarrow> parse_checkpoint_header artifact max_bytes max_states;
          require (checksum_excluding artifact kCheckpointChecksumOffset 8 = cm_artifact_checksum metadata);
          (offset, payload_total) \<leftarrow>
            parse_checkpoint_records artifact (unat (cm_state_count metadata)) checkpoint_header_size 0;
          require (\<not> (offset \<noteq> length artifact \<or> payload_total \<noteq> unat (cm_state_payload_bytes metadata) \<or>
            artifact_checksum (drop checkpoint_header_size artifact) \<noteq> cm_state_hash metadata));
          Some metadata }"

definition inspect_checkpoint_artifact :: "bytes \<Rightarrow> checkpoint_metadata option" where
  "inspect_checkpoint_artifact artifact =
     parse_checkpoint_artifact artifact artifact_absolute_max_bytes artifact_absolute_max_records"

section \<open>Reading records\<close>

definition empty_record_view :: state_write_view where
  "empty_record_view = \<lparr>state_name = [], state_schema_version = 0, state_payload = []\<rparr>"

definition next_checkpoint_record ::
  "bytes \<Rightarrow> checkpoint_metadata \<Rightarrow> checkpoint_record_cursor \<Rightarrow>
     bool \<times> checkpoint_record_cursor \<times> state_write_view" where
  "next_checkpoint_record artifact metadata cursor =
     (let offset = cursor_offset cursor in
      if cursor_index cursor \<ge> cm_state_count metadata \<or> offset > length artifact \<or>
         length artifact - offset < checkpoint_record_header_size
      then (False, cursor, empty_record_view)
      else case fixed_name artifact offset of
        None \<Rightarrow> (False, cursor, empty_record_view)
      | Some name \<Rightarrow>
     (case load_u32_le artifact (offset + 64) of
        None \<Rightarrow> (False, cursor, empty_record_view\<lparr>state_name := name\<rparr>)
      | Some schema \<Rightarrow>
        let view = empty_record_view\<lparr>state_name := name, state_schema_version := schema\<rparr> in
        case (load_u32_le artifact (offset + 68), load_u64_le artifact (offset + 72),
              load_u64_le artifact (offset + 80)) of
          (Some reserved, Some payload_size, Some payload_checksum) \<Rightarrow>
            if reserved \<noteq> 0 \<or> unat payload_size > size_max then (False, cursor, view)
            else let offset' = offset + checkpoint_record_header_size; size = unat payload_size in
              if size > length artifact - offset'
              then (False, cursor\<lparr>cursor_offset := offset'\<rparr>, view)
              else let payload = slice offset' size artifact in
                (artifact_checksum payload = payload_checksum,
                 \<lparr>cursor_offset = offset' + size, cursor_index = cursor_index cursor + 1\<rparr>,
                 view\<lparr>state_payload := payload\<rparr>)
        | _ \<Rightarrow> (False, cursor, view)))"

end
