(* ===== verification/Artifact_Streams.thy ===== *)
theory Artifact_Streams
  imports Snapshot_Codec
begin

text \<open>
  What the two replay artifacts share.  Both end their header with a checksum over the rest of the
  artifact, both are followed by a sequence of records that the parser walks with an accumulated
  state, and both hand their records out through a cursor.  Each of these is an interface here: the
  laws one step has to satisfy, and what follows for whole artifacts.
\<close>

section \<open>Checksums\<close>

lemma fnv_prime_inverse: "kFnvPrime * 14886173955864302971 = 1"
  by (simp add: kFnvPrime_def)

lemma xor_cancel: "(x XOR y) XOR y = (x :: 'a :: len word)"
  by (rule bit_word_eqI) (auto simp: bit_xor_iff)

lemma fnv_step_cancel:
  assumes "fnv_step h v = fnv_step h' v'"
  shows "h XOR ucast v = h' XOR ucast v'"
proof -
  have "(h XOR ucast v) * (kFnvPrime * 14886173955864302971) =
      (h' XOR ucast v') * (kFnvPrime * 14886173955864302971)"
    using assms by (simp add: fnv_step_def flip: mult.assoc)
  then show ?thesis unfolding fnv_prime_inverse by simp
qed

lemma fnv_step_inj: "fnv_step h v = fnv_step h' v \<longleftrightarrow> h = h'"
proof
  assume "fnv_step h v = fnv_step h' v"
  then have "h XOR ucast v = h' XOR ucast v" by (rule fnv_step_cancel)
  then have "(h XOR ucast v) XOR ucast v = (h' XOR ucast v) XOR ucast v" by (rule arg_cong)
  then show "h = h'" unfolding xor_cancel .
qed simp

lemma fnv_step_byte_inj: "fnv_step h v = fnv_step h v' \<longleftrightarrow> v = v'"
proof
  assume "fnv_step h v = fnv_step h v'"
  then have eq: "h XOR ucast v = h XOR ucast v'" by (rule fnv_step_cancel)
  have "bit (v :: u8) k \<longleftrightarrow> bit v' k" if "k < 8" for k
  proof -
    have "bit (h XOR ucast v) k \<longleftrightarrow> bit (h XOR ucast v') k" using eq by simp
    then show ?thesis using that by (auto simp: bit_xor_iff bit_ucast_iff)
  qed
  then show "v = v'" by (intro bit_word_eqI) simp
qed simp

lemma foldl_fnv_inj: "foldl fnv_step h bs = foldl fnv_step h' bs \<longleftrightarrow> h = h'"
  by (induction bs arbitrary: h h') (auto simp: fnv_step_inj)

text \<open>Two byte strings that differ in one position have different checksums.\<close>

lemma artifact_checksum_update:
  assumes "i < length bs" and "b \<noteq> bs ! i"
  shows "artifact_checksum (bs[i := b]) \<noteq> artifact_checksum bs"
proof
  let ?h = "foldl fnv_step kFnvOffset (take i bs)"
  assume "artifact_checksum (bs[i := b]) = artifact_checksum bs"
  moreover have "artifact_checksum (bs[i := b]) = foldl fnv_step (fnv_step ?h b) (drop (Suc i) bs)"
    using assms(1) by (simp add: artifact_checksum_def upd_conv_take_nth_drop)
  moreover have "artifact_checksum bs = foldl fnv_step (fnv_step ?h (bs ! i)) (drop (Suc i) bs)"
    using arg_cong [OF id_take_nth_drop [OF assms(1)], of "foldl fnv_step kFnvOffset"]
    by (simp add: artifact_checksum_def)
  ultimately show False using assms(2) by (simp add: foldl_fnv_inj fnv_step_byte_inj)
qed

lemma checksum_excluding_masked:
  assumes "off + n \<le> length bs"
  shows "checksum_excluding bs off n = artifact_checksum (put off (replicate n 0) bs)"
proof -
  have masked: "put off (replicate n 0) bs =
      map (\<lambda>i. if i \<ge> off \<and> i < off + n then 0 else bs ! i) [0..<length bs]"
    using assms by (intro nth_equalityI) (auto simp: nth_put)
  show ?thesis
    unfolding checksum_excluding_def artifact_checksum_def masked foldl_map ..
qed

lemma put_update:
  assumes "off + length bs \<le> length xs" and "i < length xs"
  shows "put off bs (xs[i := b]) =
    (if off \<le> i \<and> i < off + length bs then put off bs xs else (put off bs xs)[i := b])"
  using assms by (intro nth_equalityI) (auto simp: nth_put nth_list_update)

lemma slice_update:
  assumes "off + n \<le> length xs" and "i < length xs"
  shows "slice off n (xs[i := b]) =
    (if off \<le> i \<and> i < off + n then (slice off n xs)[i - off := b] else slice off n xs)"
  using assms by (intro nth_equalityI) (auto simp: nth_slice nth_list_update)

text \<open>A stored checksum over the rest of the buffer cannot match before and after such a change.\<close>

lemma sealed_update:
  assumes bound: "off + 8 \<le> length A" and i: "i < length A" "b \<noteq> A ! i"
    and sealed: "checksum_excluding A off 8 = un64 (slice off 8 A)"
  shows "checksum_excluding (A[i := b]) off 8 \<noteq> un64 (slice off 8 (A[i := b]))"
proof (cases "off \<le> i \<and> i < off + 8")
  case True
  have "slice off 8 A ! (i - off) = A ! i" using True bound by (subst nth_slice) auto
  then have "(slice off 8 A)[i - off := b] \<noteq> slice off 8 A"
    using True bound i(2) by (metis add_less_cancel_left le_add_diff_inverse length_slice nth_list_update_eq)
  then have "un64 (slice off 8 (A[i := b])) \<noteq> un64 (slice off 8 A)"
    using True bound i(1) le_un(2) by (metis length_list_update length_slice slice_update)
  moreover have "checksum_excluding (A[i := b]) off 8 = checksum_excluding A off 8"
    using True bound i(1) by (simp add: checksum_excluding_masked put_update)
  ultimately show ?thesis using sealed by simp
next
  case False
  let ?M = "put off (replicate 8 0) A"
  have "?M ! i = A ! i" using False bound by (auto simp: nth_put)
  then have "artifact_checksum (?M[i := b]) \<noteq> artifact_checksum ?M"
    using i bound by (intro artifact_checksum_update) auto
  moreover have "checksum_excluding (A[i := b]) off 8 = artifact_checksum (?M[i := b])"
    using False bound i(1) by (auto simp: checksum_excluding_masked put_update)
  moreover have "slice off 8 (A[i := b]) = slice off 8 A"
    using False bound i(1) by (auto simp: slice_update)
  ultimately show ?thesis using sealed bound by (simp add: checksum_excluding_masked)
qed

lemma checksum_excluding_put:
  assumes "length bs = n" and "off + n \<le> length xs"
  shows "checksum_excluding (put off bs xs) off n = checksum_excluding xs off n"
proof -
  have "foldl (\<lambda>h i. fnv_step h (if i \<ge> off \<and> i < off + n then 0 else put off bs xs ! i)) a is =
      foldl (\<lambda>h i. fnv_step h (if i \<ge> off \<and> i < off + n then 0 else xs ! i)) a is" for a "is"
    using assms by (intro foldl_cong) (auto simp: nth_put)
  then show ?thesis using assms by (simp add: checksum_excluding_def)
qed

lemma slice_drop: "k = off + n \<Longrightarrow> slice off n A @ drop k A = drop off A"
  unfolding slice_def by (metis append_take_drop_id drop_drop add.commute)

lemma le_slice:
  "off + 4 \<le> length A \<Longrightarrow> v = un32 (slice off 4 A) \<Longrightarrow> le32 v = slice off 4 A"
  "off + 8 \<le> length A \<Longrightarrow> w = un64 (slice off 8 A) \<Longrightarrow> le64 w = slice off 8 A"
  by simp_all

section \<open>Sealed artifacts\<close>

text \<open>A parser, under whatever limits, accepts only artifacts whose stored checksum is right.\<close>

locale sealed_artifact =
  fixes parse :: "'l \<Rightarrow> bytes \<Rightarrow> 'm option" and seal :: nat
  assumes sealed: "parse l A = Some m \<Longrightarrow>
    seal + 8 \<le> length A \<and> checksum_excluding A seal 8 = un64 (slice seal 8 A)"
begin

lemma corruption_rejected:
  assumes "parse l A = Some m" and "i < length A" and "b \<noteq> A ! i"
  shows "parse l' (A[i := b]) = None"
proof (rule ccontr)
  assume "parse l' (A[i := b]) \<noteq> None"
  then obtain m' where m': "parse l' (A[i := b]) = Some m'" by auto
  show False using sealed [OF m'] sealed [OF assms(1)] sealed_update assms(2,3) by fastforce
qed

end

section \<open>Sequences of records\<close>

text \<open>The records are accepted one after the other, each in the state its predecessors left.\<close>

primrec all_accepted :: "('s \<Rightarrow> 'r \<Rightarrow> bool) \<Rightarrow> ('s \<Rightarrow> 'r \<Rightarrow> 's) \<Rightarrow> 's \<Rightarrow> 'r list \<Rightarrow> bool" where
  "all_accepted accepts step s [] \<longleftrightarrow> True"
| "all_accepted accepts step s (r # rs) \<longleftrightarrow> accepts s r \<and> all_accepted accepts step (step s r) rs"

locale record_parser =
  fixes layout :: "'r \<Rightarrow> bytes"
    and accepts :: "'s \<Rightarrow> 'r \<Rightarrow> bool"
    and step :: "'s \<Rightarrow> 'r \<Rightarrow> 's"
    and parse_one :: "bytes \<Rightarrow> nat \<Rightarrow> 's \<Rightarrow> (nat \<times> 's) option"
    and parse_many :: "bytes \<Rightarrow> nat \<Rightarrow> nat \<Rightarrow> 's \<Rightarrow> (nat \<times> 's) option"
  assumes many_0: "parse_many A 0 off s = Some (off, s)"
    and many_Suc: "parse_many A (Suc n) off s =
      Option.bind (parse_one A off s) (\<lambda>(off', s'). parse_many A n off' s')"
    and one_layout: "accepts s r \<Longrightarrow> length (pre @ layout r @ post) \<le> artifact_absolute_max_bytes \<Longrightarrow>
      parse_one (pre @ layout r @ post) (length pre) s = Some (length pre + length (layout r), step s r)"
    and one_Some: "parse_one A off s = Some (off', s') \<Longrightarrow> length A \<le> artifact_absolute_max_bytes \<Longrightarrow>
      \<exists>r. accepts s r \<and> drop off A = layout r @ drop off' A \<and> off' \<le> length A \<and> s' = step s r"
begin

lemma many_layout:
  assumes "all_accepted accepts step s rs" and "A = pre @ concat (map layout rs)"
    and "length A \<le> artifact_absolute_max_bytes"
  shows "parse_many A (length rs) (length pre) s = Some (length A, foldl step s rs)"
  using assms
proof (induction rs arbitrary: pre s)
  case Nil
  then show ?case by (simp add: many_0)
next
  case (Cons r rs)
  have "parse_one A (length pre) s = Some (length (pre @ layout r), step s r)"
    using one_layout [of s r pre "concat (map layout rs)"] Cons.prems by simp
  then show ?case using Cons.IH [of "step s r" "pre @ layout r"] Cons.prems by (simp add: many_Suc)
qed

lemma many_Some:
  assumes "parse_many A n off s = Some (off', s')" and "length A \<le> artifact_absolute_max_bytes"
    and "off \<le> length A"
  shows "\<exists>rs. length rs = n \<and> all_accepted accepts step s rs \<and>
    drop off A = concat (map layout rs) @ drop off' A \<and> s' = foldl step s rs \<and> off' \<le> length A"
  using assms
proof (induction n arbitrary: off s)
  case 0
  then show ?case by (simp add: many_0)
next
  case (Suc n)
  from Suc.prems(1) obtain o1 s1 where one: "parse_one A off s = Some (o1, s1)"
    and many: "parse_many A n o1 s1 = Some (off', s')"
    by (auto simp: many_Suc bind_eq_Some_conv)
  obtain r where r: "accepts s r" "drop off A = layout r @ drop o1 A" "o1 \<le> length A" "s1 = step s r"
    using one_Some [OF one Suc.prems(2)] by blast
  obtain rs where "length rs = n" "all_accepted accepts step s1 rs"
    "drop o1 A = concat (map layout rs) @ drop off' A" "s' = foldl step s1 rs" "off' \<le> length A"
    using Suc.IH [OF many Suc.prems(2) r(3)] by blast
  then show ?case using r by (intro exI [of _ "r # rs"]) simp
qed

end

section \<open>Record cursors\<close>

text \<open>Reading records until the cursor reports that there are no more.\<close>

primrec read_records ::
  "(bytes \<Rightarrow> 'm \<Rightarrow> checkpoint_record_cursor \<Rightarrow> bool \<times> checkpoint_record_cursor \<times> 'r) \<Rightarrow>
     nat \<Rightarrow> bytes \<Rightarrow> 'm \<Rightarrow> checkpoint_record_cursor \<Rightarrow> 'r list" where
  "read_records advance 0 artifact m cursor = []"
| "read_records advance (Suc fuel) artifact m cursor =
     (case advance artifact m cursor of
        (found, cursor', view) \<Rightarrow> if found then view # read_records advance fuel artifact m cursor' else [])"

locale record_cursor =
  fixes layout :: "'r \<Rightarrow> bytes"
    and readable :: "'r \<Rightarrow> bool"
    and view :: "'r \<Rightarrow> 'v"
    and record_count :: "'m \<Rightarrow> u32"
    and advance :: "bytes \<Rightarrow> 'm \<Rightarrow> checkpoint_record_cursor \<Rightarrow> bool \<times> checkpoint_record_cursor \<times> 'v"
  assumes next_layout: "readable r \<Longrightarrow> length (pre @ layout r @ post) \<le> artifact_absolute_max_bytes \<Longrightarrow>
      i < record_count m \<Longrightarrow>
      advance (pre @ layout r @ post) m \<lparr>cursor_offset = length pre, cursor_index = i\<rparr> =
        (True, \<lparr>cursor_offset = length pre + length (layout r), cursor_index = i + 1\<rparr>, view r)"
    and next_end: "i \<ge> record_count m \<Longrightarrow>
      \<not> fst (advance A m \<lparr>cursor_offset = off, cursor_index = i\<rparr>)"
begin

lemma read_layout:
  assumes "\<forall>r \<in> set rs. readable r" and "A = pre @ concat (map layout rs)"
    and "length A \<le> artifact_absolute_max_bytes" and "unat i + length rs = unat (record_count m)"
    and "length rs < fuel"
  shows "read_records advance fuel A m \<lparr>cursor_offset = length pre, cursor_index = i\<rparr> = map view rs"
  using assms
proof (induction rs arbitrary: pre i fuel)
  case Nil
  then obtain k where "fuel = Suc k" by (cases fuel) auto
  moreover have "i \<ge> record_count m" using Nil by (simp add: word_le_nat_alt)
  ultimately show ?case using next_end [of m i A "length pre"] by (auto split: prod.split)
next
  case (Cons r rs)
  obtain k where k: "fuel = Suc k" using Cons.prems(5) by (cases fuel) auto
  have i: "i < record_count m" using Cons.prems(4) by (simp add: word_less_nat_alt)
  then have i': "unat (i + 1) = unat i + 1"
    using unat_u32_less [of "record_count m"] by (simp add: unat_word_ariths word_less_nat_alt)
  have "advance A m \<lparr>cursor_offset = length pre, cursor_index = i\<rparr> =
      (True, \<lparr>cursor_offset = length (pre @ layout r), cursor_index = i + 1\<rparr>, view r)"
    using next_layout [of r pre "concat (map layout rs)" i m] Cons.prems(1-3) i by simp
  moreover have "read_records advance k A m \<lparr>cursor_offset = length (pre @ layout r), cursor_index = i + 1\<rparr> =
      map view rs"
    using Cons.prems i' k by (intro Cons.IH) auto
  ultimately show ?case using k by simp
qed

end

end
