(* ===== verification/Checkpoint_Roundtrip.thy ===== *)
theory Checkpoint_Roundtrip
  imports Artifact_Streams
begin

text \<open>
  The layout of an encoded checkpoint, the round trip through the parser and the record cursor.
\<close>

section \<open>Identifiers\<close>

definition pad_identifier :: "bytes \<Rightarrow> bytes" where
  "pad_identifier v = v @ replicate (64 - length v) 0"

text \<open>An identifier array whose bytes after the terminator are all zero.\<close>

definition padded :: "bytes \<Rightarrow> bool" where
  "padded a \<longleftrightarrow> a = pad_identifier (identifier_view a)"

lemma identifier_not_zero: "\<not> identifier_character 0"
  by (simp add: identifier_character_def)

lemma length_pad [simp]: "valid_identifier v \<Longrightarrow> length (pad_identifier v) = 64"
  by (simp add: pad_identifier_def valid_identifier_def replay_identifier_capacity_def)

lemma identifier_length_Some:
  "identifier_length bs = Some n \<longleftrightarrow>
     n = length (takeWhile (\<lambda>c. c \<noteq> 0) bs) \<and> list_all identifier_character (takeWhile (\<lambda>c. c \<noteq> 0) bs)"
proof (induction bs arbitrary: n)
  case Nil
  then show ?case by auto
next
  case (Cons c cs)
  then show ?case by (cases n) auto
qed

lemma takeWhile_zero_split:
  assumes "n = length (takeWhile (\<lambda>c. c \<noteq> (0 :: u8)) bs)" and "n < length bs"
  shows "bs = take n bs @ 0 # drop (Suc n) bs" and "take n bs = takeWhile (\<lambda>c. c \<noteq> 0) bs"
proof -
  show tk: "take n bs = takeWhile (\<lambda>c. c \<noteq> 0) bs"
    using assms(1) takeWhile_eq_take by metis
  have "bs ! n = 0" using assms nth_length_takeWhile by blast
  then show "bs = take n bs @ 0 # drop (Suc n) bs" using assms(2) by (metis id_take_nth_drop)
qed

lemma scan_identifier_Some:
  assumes "off + 64 \<le> length bs"
  shows "scan_identifier bs off = Some n \<longleftrightarrow>
    (\<exists>v. slice off 64 bs = pad_identifier v \<and> valid_identifier v \<and> n = length v)"
proof -
  let ?f = "slice off 64 bs"
  let ?t = "takeWhile (\<lambda>c. c \<noteq> 0) ?f"
  have len: "length ?f = 64" using assms by simp
  have scan: "scan_identifier bs off = Some n \<longleftrightarrow>
      identifier_length ?f = Some n \<and> n \<noteq> 0 \<and> n \<noteq> 64 \<and> list_all (\<lambda>c. c = 0) (drop (Suc n) ?f)"
    using assms by (auto simp: scan_identifier_def Let_def replay_identifier_capacity_def split: option.splits)
  show ?thesis
  proof
    assume "scan_identifier bs off = Some n"
    then have n: "n = length ?t" "list_all identifier_character ?t" "n \<noteq> 0" "n \<noteq> 64"
      and tail: "list_all (\<lambda>c. c = 0) (drop (Suc n) ?f)"
      unfolding scan identifier_length_Some by auto
    have lt: "n < 64" using n(1,4) length_takeWhile_le [of "\<lambda>c. c \<noteq> 0" ?f] len by simp
    note split = takeWhile_zero_split [OF n(1)]
    have "drop (Suc n) ?f = replicate (64 - Suc n) 0"
      using tail len by (auto simp: list_all_iff intro!: replicate_eqI)
    then have "?f = pad_identifier ?t"
      using split lt len n(1) unfolding pad_identifier_def
      by (metis Suc_diff_Suc replicate_Suc)
    moreover have "valid_identifier ?t"
      using n lt by (auto simp: valid_identifier_def replay_identifier_capacity_def)
    ultimately show "\<exists>v. ?f = pad_identifier v \<and> valid_identifier v \<and> n = length v" using n(1) by blast
  next
    assume "\<exists>v. ?f = pad_identifier v \<and> valid_identifier v \<and> n = length v"
    then obtain v where v: "?f = pad_identifier v" "valid_identifier v" "n = length v" by blast
    have lv: "0 < length v" "length v < 64" "list_all identifier_character v"
      using v(2) by (auto simp: valid_identifier_def replay_identifier_capacity_def)
    have "0 \<notin> set v" using lv(3) identifier_not_zero by (auto simp: list_all_iff)
    then have "takeWhile (\<lambda>c. c \<noteq> 0) (v @ replicate (64 - length v) 0) = v"
      by (subst takeWhile_append2) (auto simp: takeWhile_replicate)
    then have "identifier_length ?f = Some n"
      unfolding identifier_length_Some v(1) pad_identifier_def using v(3) lv(3) by simp
    moreover have "list_all (\<lambda>c. c = 0) (drop (Suc n) ?f)"
      unfolding v(1,3) pad_identifier_def by (simp add: list_all_iff)
    ultimately show "scan_identifier bs off = Some n" unfolding scan using v(3) lv by auto
  qed
qed

lemma fixed_identifier_Some:
  assumes "off + 64 \<le> length bs"
  shows "fixed_identifier bs off = Some a \<longleftrightarrow>
    a = slice off 64 bs \<and> (\<exists>v. a = pad_identifier v \<and> valid_identifier v)"
  using scan_identifier_Some [OF assms]
  by (auto simp: fixed_identifier_def replay_identifier_capacity_def)

lemma fixed_name_Some:
  assumes "off + 64 \<le> length bs"
  shows "fixed_name bs off = Some v \<longleftrightarrow> slice off 64 bs = pad_identifier v \<and> valid_identifier v"
proof -
  have "slice off (length v) bs = v" if "slice off 64 bs = pad_identifier v" "valid_identifier v" for v
  proof -
    have "take (length v) (slice off 64 bs) = v"
      unfolding that(1) by (simp add: pad_identifier_def)
    moreover have "length v \<le> 64"
      using that(2) by (simp add: valid_identifier_def replay_identifier_capacity_def)
    ultimately show ?thesis by (simp add: slice_def min_def split: if_splits)
  qed
  then show ?thesis
    using scan_identifier_Some [OF assms] by (auto simp: fixed_name_def)
qed

lemma identifier_view_pad: "valid_identifier v \<Longrightarrow> identifier_view (pad_identifier v) = v"
proof -
  assume v: "valid_identifier v"
  then have "0 \<notin> set v" using identifier_not_zero by (auto simp: valid_identifier_def list_all_iff)
  then show ?thesis
    unfolding identifier_view_def pad_identifier_def
    by (subst takeWhile_append2) (auto simp: takeWhile_replicate)
qed

section \<open>The layout of a record\<close>

definition record_bytes :: "state_write_view \<Rightarrow> bytes" where
  "record_bytes s =
     pad_identifier (state_name s) @ le32 (state_schema_version s) @ replicate 4 0 @
     le64 (word_of_nat (length (state_payload s))) @ le64 (artifact_checksum (state_payload s)) @
     state_payload s"

definition state_ok :: "state_write_view \<Rightarrow> bool" where
  "state_ok s \<longleftrightarrow> valid_identifier (state_name s) \<and> state_schema_version s \<noteq> 0 \<and> state_payload s \<noteq> []"

lemma length_record_bytes: "state_ok s \<Longrightarrow> length (record_bytes s) = 88 + length (state_payload s)"
  by (simp add: record_bytes_def state_ok_def)

lemma store_put: "off + 4 \<le> length xs \<Longrightarrow> store32 off v xs = put off (le32 v) xs"
  "off + 8 \<le> length xs \<Longrightarrow> store64 off w xs = put off (le64 w) xs"
  by (simp_all add: store32_def store64_def)

lemma write_identifier_zeros:
  assumes "valid_identifier v"
  shows "write_identifier (replicate 64 0 @ r) 0 v = pad_identifier v @ r"
proof -
  have "length v \<le> 64" using assms by (simp add: valid_identifier_def replay_identifier_capacity_def)
  then have zeros: "replicate 64 (0 :: u8) = replicate (length v) 0 @ replicate (64 - length v) 0"
    by (simp flip: replicate_add)
  have "write_identifier (replicate 64 0 @ r) 0 v = put 0 v (replicate 64 0 @ r)"
    by (simp add: write_identifier_def replay_identifier_capacity_def block_simps)
  also have "\<dots> = pad_identifier v @ r"
    unfolding zeros append_assoc by (simp add: pad_identifier_def block_simps)
  finally show ?thesis .
qed

lemma put_shift: "put (length p + k) bs (p @ xs) = p @ put k bs xs"
  by (simp add: put_def)

lemma record_writes_shift:
  assumes "offset = length pre"
  shows "write_identifier (pre @ r) offset v = pre @ write_identifier r 0 v"
  using assms put_shift [of pre 0] by (simp add: write_identifier_def)

lemma replicate_split: "replicate (m + n) x = replicate m x @ replicate n x"
  by (simp add: replicate_add)

lemma write_record_zeros:
  assumes "state_ok s" and "length pre = offset"
  shows "write_checkpoint_record s offset (pre @ replicate (88 + length (state_payload s)) 0 @ post) =
    pre @ record_bytes s @ post"
proof -
  have zeros: "replicate (88 + length (state_payload s)) (0 :: u8) =
      replicate 64 0 @ replicate 4 0 @ replicate 4 0 @ replicate 8 0 @ replicate 8 0 @
      replicate (length (state_payload s)) 0"
    by (simp flip: replicate_add)
  have name: "valid_identifier (state_name s)" using assms(1) by (simp add: state_ok_def)
  then show ?thesis
    unfolding zeros write_checkpoint_record_def Let_def record_bytes_def
    using assms(2) length_pad [OF name]
    by (simp add: record_writes_shift write_identifier_zeros store_put block_simps
        checkpoint_record_header_size_def)
qed

lemma write_records_zeros:
  assumes "\<forall>i \<in> set idx. \<exists>s. provider 1 i = Some s \<and> state_ok s"
    and "length pre = offset"
    and "n = (\<Sum>i\<leftarrow>idx. 88 + length (state_payload (the (provider 1 i))))"
  shows "write_checkpoint_records provider idx offset (pre @ replicate n 0) =
    Inr (pre @ concat (map (\<lambda>i. record_bytes (the (provider 1 i))) idx))"
  using assms
proof (induction idx arbitrary: offset pre n)
  case Nil
  then show ?case by simp
next
  case (Cons i idx)
  obtain s where s: "provider 1 i = Some s" "state_ok s" using Cons.prems(1) by auto
  let ?m = "\<Sum>i\<leftarrow>idx. 88 + length (state_payload (the (provider 1 i)))"
  have n: "replicate n (0 :: u8) = replicate (88 + length (state_payload s)) 0 @ replicate ?m 0"
    using Cons.prems(3) s by (simp add: replicate_split [symmetric])
  have "write_checkpoint_record s offset (pre @ replicate n 0) = (pre @ record_bytes s) @ replicate ?m 0"
    unfolding n using write_record_zeros [OF s(2) Cons.prems(2)] by simp
  moreover have "write_checkpoint_records provider idx (offset + 88 + length (state_payload s))
      ((pre @ record_bytes s) @ replicate ?m 0) =
      Inr ((pre @ record_bytes s) @ concat (map (\<lambda>i. record_bytes (the (provider 1 i))) idx))"
    using Cons.prems(1,2) length_record_bytes [OF s(2)] by (intro Cons.IH) auto
  ultimately show ?case
    using s by (simp add: checkpoint_record_header_size_def)
qed

section \<open>The layout of the header\<close>

definition header_bytes ::
  "checkpoint_metadata \<Rightarrow> nat \<Rightarrow> nat \<Rightarrow> nat \<Rightarrow> bytes \<Rightarrow> bytes \<Rightarrow> bytes" where
  "header_bytes m state_count payload_bytes required hash_field checksum_field =
     kCheckpointMagic @ le32 checkpoint_schema_version @ le32 (word_of_nat checkpoint_header_size) @
     le32 (cm_runtime_version_major m) @ le32 (cm_runtime_version_minor m) @
     le32 (cm_runtime_version_patch m) @ le32 (ucast (cm_determinism_tier m)) @ replicate 4 0 @
     le32 (word_of_nat state_count) @ le32 (word_of_nat checkpoint_record_header_size) @ replicate 4 0 @
     le64 (cm_config_id m) @ le64 (cm_replay_id m) @ le64 (cm_graph_id m) @ le64 (cm_state_schema_id m) @
     le64 (cm_checkpoint_frame_index m) @ le64 (word_of_nat payload_bytes) @ le64 (word_of_nat required) @
     hash_field @ checksum_field @ cm_build_id m @ cm_workload_id m @ replicate 8 0"

lemma length_magic [simp]: "length kCheckpointMagic = 8"
  by (simp add: kCheckpointMagic_def)

lemma write_header_zeros:
  assumes "length (cm_build_id m) = 64" and "length (cm_workload_id m) = 64"
  shows "write_checkpoint_header m n pb req (replicate (256 + k) 0) =
    header_bytes m n pb req (replicate 8 0) (replicate 8 0) @ replicate k 0"
proof -
  have zeros: "replicate (256 + k) (0 :: u8) =
      replicate 8 0 @ replicate 4 0 @ replicate 4 0 @ replicate 4 0 @ replicate 4 0 @ replicate 4 0 @
      replicate 4 0 @ replicate 4 0 @ replicate 4 0 @ replicate 4 0 @ replicate 4 0 @
      replicate 8 0 @ replicate 8 0 @ replicate 8 0 @ replicate 8 0 @ replicate 8 0 @ replicate 8 0 @
      replicate 8 0 @ replicate 8 0 @ replicate 8 0 @ replicate 64 0 @ replicate 64 0 @ replicate 8 0 @
      replicate k 0"
    by (simp flip: replicate_add)
  show ?thesis
    unfolding zeros write_checkpoint_header_def Let_def header_bytes_def write_identifier_array_def
    using assms by (simp add: store_put block_simps)
qed

lemma length_header:
  assumes "length (cm_build_id m) = 64" and "length (cm_workload_id m) = 64"
    and "length h = 8" and "length c = 8"
  shows "length (header_bytes m n pb req h c) = 256"
  using assms by (simp add: header_bytes_def)

section \<open>The layout of the artifact\<close>

lemma checked_artifact_add_Some:
  "checked_artifact_add a b = Some c \<longleftrightarrow> c = a + b \<and> (b = 0 \<or> a + b \<le> size_max)"
  by (auto simp: checked_artifact_add_def)

lemma checked_artifact_multiply_Some:
  "checked_artifact_multiply a b = Some c \<longleftrightarrow> c = a * b \<and> a * b \<le> size_max"
proof (cases "a = 0")
  case True
  then show ?thesis by (auto simp: checked_artifact_multiply_def)
next
  case False
  then have "b \<le> size_max div a \<longleftrightarrow> a * b \<le> size_max"
    by (simp add: less_eq_div_iff_mult_less_eq mult.commute)
  then show ?thesis using False by (auto simp: checked_artifact_multiply_def)
qed

lemma artifact_required_Some:
  "artifact_required h r n p = Some q \<Longrightarrow> q = h + n * r + p"
  by (auto simp: artifact_required_def checked_artifact_add_Some checked_artifact_multiply_Some
      bind_eq_Some_conv)

definition total_payload :: "state_write_view list \<Rightarrow> nat" where
  "total_payload ss = (\<Sum>s\<leftarrow>ss. length (state_payload s))"

lemma checkpoint_payload_Some:
  assumes "checkpoint_payload_bytes provider idx p0 = Some p"
  shows "\<forall>i \<in> set idx. \<exists>s. provider 0 i = Some s \<and> state_ok s"
    and "p = p0 + total_payload (map (\<lambda>i. the (provider 0 i)) idx)"
  using assms
proof (induction idx arbitrary: p0)
  case Nil
  { case 1 show ?case by simp }
  { case 2 then show ?case by (simp add: total_payload_def) }
next
  case (Cons i idx)
  have split: "\<exists>s. provider 0 i = Some s \<and> state_ok s \<and>
      checkpoint_payload_bytes provider idx (p0 + length (state_payload s)) = Some p"
    if "checkpoint_payload_bytes provider (i # idx) p0 = Some p" for p0
    using that by (auto simp: state_ok_def checked_artifact_add_Some split: option.splits if_splits)
  { case 1 show ?case using Cons.IH(1) split [OF 1] by auto }
  { case 2 show ?case using Cons.IH(2) split [OF 2] by (fastforce simp: total_payload_def) }
qed

definition states_of :: "state_write_provider \<Rightarrow> nat \<Rightarrow> state_write_view list" where
  "states_of provider n = map (\<lambda>i. the (provider 0 i)) [0..<n]"

definition records_bytes :: "state_write_view list \<Rightarrow> bytes" where
  "records_bytes ss = concat (map record_bytes ss)"

lemma length_records_bytes:
  "\<forall>s \<in> set ss. state_ok s \<Longrightarrow> length (records_bytes ss) = length ss * 88 + total_payload ss"
  by (induction ss) (auto simp: records_bytes_def total_payload_def length_record_bytes)

definition checkpoint_layout ::
  "checkpoint_metadata \<Rightarrow> state_write_view list \<Rightarrow> bytes \<Rightarrow> bytes" where
  "checkpoint_layout m ss checksum_field =
     header_bytes m (length ss) (total_payload ss) (256 + length ss * 88 + total_payload ss)
       (le64 (artifact_checksum (records_bytes ss))) checksum_field @ records_bytes ss"

definition layout_checksum :: "checkpoint_metadata \<Rightarrow> state_write_view list \<Rightarrow> u64" where
  "layout_checksum m ss = checksum_excluding (checkpoint_layout m ss (replicate 8 0)) 112 8"

definition checkpoint_bytes :: "checkpoint_metadata \<Rightarrow> state_write_view list \<Rightarrow> bytes" where
  "checkpoint_bytes m ss = checkpoint_layout m ss (le64 (layout_checksum m ss))"

lemma put_checksum_field:
  assumes "length (cm_build_id m) = 64" and "length (cm_workload_id m) = 64" and "length c = 8"
    and "length c' = 8"
  shows "put 112 c' (checkpoint_layout m ss c) = checkpoint_layout m ss c'"
  using assms by (simp add: checkpoint_layout_def header_bytes_def block_simps)

lemma seal_layout:
  assumes "length (cm_build_id m) = 64" and "length (cm_workload_id m) = 64"
    and "\<forall>s \<in> set ss. state_ok s"
  shows "seal_checkpoint (header_bytes m (length ss) (total_payload ss)
      (256 + length ss * 88 + total_payload ss) (replicate 8 0) (replicate 8 0) @ records_bytes ss) =
    (checkpoint_bytes m ss, layout_checksum m ss)"
proof -
  let ?h = "header_bytes m (length ss) (total_payload ss) (256 + length ss * 88 + total_payload ss)"
  let ?r = "records_bytes ss"
  have len: "length (?h (replicate 8 0) (replicate 8 0)) = 256" using length_header [OF assms(1,2)] by simp
  have hash: "artifact_checksum (drop 256 (?h (replicate 8 0) (replicate 8 0) @ ?r)) = artifact_checksum ?r"
    using len by simp
  have "store64 104 (artifact_checksum ?r) (?h (replicate 8 0) (replicate 8 0) @ ?r) =
      checkpoint_layout m ss (replicate 8 0)"
    using len assms(1,2)
    by (simp add: store_put checkpoint_layout_def header_bytes_def block_simps)
  moreover have "length (checkpoint_layout m ss (replicate 8 0)) \<ge> 256"
    unfolding checkpoint_layout_def using length_header [OF assms(1,2)] by simp
  ultimately show ?thesis
    using hash put_checksum_field [OF assms(1,2)]
    by (simp add: seal_checkpoint_def Let_def store_put checkpoint_bytes_def layout_checksum_def
        checkpoint_header_size_def kCheckpointChecksumOffset_def)
qed

text \<open>A successful encoding is the layout of its metadata and states.\<close>

lemma encode_checkpoint_layout:
  assumes enc: "encode_checkpoint_artifact m n (Some provider) max_bytes out = (ok, out', res)"
    and agree: "provider 1 = provider 0"
    and ids: "length (cm_build_id m) = 64" "length (cm_workload_id m) = 64"
  defines "ss \<equiv> states_of provider n"
  shows "\<forall>s \<in> set ss. state_ok s" and "length ss = n"
    and "\<not> checkpoint_arguments_invalid m n (Some provider) max_bytes"
    and "256 + n * 88 + total_payload ss \<le> max_bytes"
    and "256 + n * 88 + total_payload ss \<le> length out"
    and "out' = checkpoint_bytes m ss @ drop (256 + n * 88 + total_payload ss) out"
    and "res = \<lparr>required_bytes = 256 + n * 88 + total_payload ss,
           bytes_written = 256 + n * 88 + total_payload ss, result_checksum = layout_checksum m ss\<rparr>"
proof -
  let ?q = "256 + n * 88 + total_payload ss"
  from enc show valid: "\<not> checkpoint_arguments_invalid m n (Some provider) max_bytes"
    by (auto simp: encode_checkpoint_artifact_def split: if_splits)
  from enc valid obtain p where p: "checkpoint_payload_bytes provider [0..<n] 0 = Some p"
    by (auto simp: encode_checkpoint_artifact_def split: option.splits)
  note pay = checkpoint_payload_Some [OF p]
  show ok: "\<forall>s \<in> set ss. state_ok s" using pay(1) by (fastforce simp: ss_def states_of_def)
  show len: "length ss = n" by (simp add: ss_def states_of_def)
  have ps: "p = total_payload ss" using pay(2) by (simp add: ss_def states_of_def)
  from enc valid p obtain q where q: "artifact_required 256 88 n p = Some q"
    by (auto simp: encode_checkpoint_artifact_def checkpoint_header_size_def
        checkpoint_record_header_size_def split: option.splits)
  have qs: "q = ?q" using artifact_required_Some [OF q] ps by simp
  from enc valid p q qs show fits: "?q \<le> max_bytes" "?q \<le> length out"
    by (auto simp: encode_checkpoint_artifact_def checkpoint_header_size_def
        checkpoint_record_header_size_def split: if_splits)
  have sum: "(\<Sum>i\<leftarrow>[0..<n]. 88 + length (state_payload (the (provider 1 i)))) = n * 88 + total_payload ss"
    using agree by (simp add: total_payload_def ss_def states_of_def sum_list_addf comp_def
        sum_list_triv del: upt_conv_Cons)
  have recs: "concat (map (\<lambda>i. record_bytes (the (provider 1 i))) [0..<n]) = records_bytes ss"
    using agree by (simp add: records_bytes_def ss_def states_of_def comp_def)
  let ?h = "header_bytes m n p ?q (replicate 8 0) (replicate 8 0)"
  have "write_checkpoint_records provider [0..<n] 256 (?h @ replicate (n * 88 + total_payload ss) 0) =
      Inr (?h @ records_bytes ss)"
    using pay(1) agree sum unfolding recs [symmetric]
    by (intro write_records_zeros) (auto simp: length_header ids)
  moreover have "write_checkpoint_header m n p ?q (replicate ?q 0) =
      ?h @ replicate (n * 88 + total_payload ss) 0"
    using write_header_zeros [OF ids, of n p ?q "n * 88 + total_payload ss"] by (simp add: add.assoc)
  ultimately have "encode_checkpoint_artifact m n (Some provider) max_bytes out =
      (case seal_checkpoint (?h @ records_bytes ss) of (sealed, c) \<Rightarrow>
         (ok, sealed @ drop ?q out, \<lparr>required_bytes = ?q, bytes_written = ?q, result_checksum = c\<rparr>))"
    using valid p q qs fits
    by (simp add: encode_checkpoint_artifact_def checkpoint_header_size_def
        checkpoint_record_header_size_def)
  also have "seal_checkpoint (?h @ records_bytes ss) = (checkpoint_bytes m ss, layout_checksum m ss)"
    using seal_layout [OF ids ok] len ps by simp
  finally show "out' = checkpoint_bytes m ss @ drop ?q out"
    and "res = \<lparr>required_bytes = ?q, bytes_written = ?q, result_checksum = layout_checksum m ss\<rparr>"
    using enc by simp_all
qed

end
