(* ===== verification/Checkpoint_Parsing.thy ===== *)
theory Checkpoint_Parsing
  imports Checkpoint_Roundtrip
begin

text \<open>
  The parser and the record cursor on encoded checkpoints, and the canonicity of the format.
\<close>

section \<open>Reading fields of a layout\<close>

lemma require_bind [simp]: "Option.bind (require b) f = (if b then f () else None)"
  by (simp add: require_def)

lemma fixed_identifier_field:
  assumes "length pre = off" and "length a = 64" and "valid_identifier (identifier_view a)"
  shows "fixed_identifier (pre @ a @ post) off = (if padded a then Some a else None)"
proof -
  have s: "slice off 64 (pre @ a @ post) = a" using assms(1,2) by (simp add: block_simps)
  have bound: "off + 64 \<le> length (pre @ a @ post)" using assms(1,2) by simp
  have "(\<exists>v. a = pad_identifier v \<and> valid_identifier v) \<longleftrightarrow> padded a"
    using assms(3) identifier_view_pad by (auto simp: padded_def)
  then show ?thesis
    using fixed_identifier_Some [OF bound] unfolding s by (cases "fixed_identifier (pre @ a @ post) off") auto
qed

lemma load_field:
  "length pre = off \<Longrightarrow> length b = 4 \<Longrightarrow> load_u32_le (pre @ b @ post) off = Some (un32 b)"
  "length pre = off \<Longrightarrow> length b = 8 \<Longrightarrow> load_u64_le (pre @ b @ post) off = Some (un64 b)"
  by (simp_all add: load_u32_slice load_u64_slice block_simps)

lemma ucast_tier: "ucast (ucast (t :: u8) :: u32) = t"
  by (rule bit_word_eqI) (auto simp: bit_ucast_iff)

lemma un32_zeros [simp]: "un32 (replicate 4 0) = 0"
  by (simp add: un32_def upt_rec numeral_eq_Suc)

definition parsed_metadata ::
  "checkpoint_metadata \<Rightarrow> nat \<Rightarrow> nat \<Rightarrow> nat \<Rightarrow> bytes \<Rightarrow> bytes \<Rightarrow> checkpoint_metadata" where
  "parsed_metadata m n pb req h c =
     m\<lparr>cm_schema_version := checkpoint_schema_version, cm_state_payload_bytes := word_of_nat pb,
       cm_total_bytes := word_of_nat req, cm_state_hash := un64 h, cm_artifact_checksum := un64 c,
       cm_state_count := word_of_nat n\<rparr>"

lemma bytes_zero_field:
  assumes "length pre = off"
  shows "bytes_zero (pre @ replicate n 0 @ post) off n"
  using assms by (simp add: bytes_zero_def block_simps list_all_iff)

lemma header_fields:
  assumes ids: "length (cm_build_id m) = 64" "length (cm_workload_id m) = 64"
    and hc: "length h = 8" "length c = 8"
    and view: "valid_identifier (identifier_view (cm_build_id m))"
      "valid_identifier (identifier_view (cm_workload_id m))"
    and A_def: "A = header_bytes m n pb req h c @ r"
  shows "load_u32_le A 8 = Some checkpoint_schema_version"
    and "load_u32_le A 12 = Some (word_of_nat checkpoint_header_size)"
    and "load_u32_le A 16 = Some (cm_runtime_version_major m)"
    and "load_u32_le A 20 = Some (cm_runtime_version_minor m)"
    and "load_u32_le A 24 = Some (cm_runtime_version_patch m)"
    and "load_u32_le A 28 = Some (ucast (cm_determinism_tier m))"
    and "load_u32_le A 32 = Some 0"
    and "load_u32_le A 36 = Some (word_of_nat n)"
    and "load_u32_le A 40 = Some (word_of_nat checkpoint_record_header_size)"
    and "load_u32_le A 44 = Some 0"
    and "load_u64_le A 48 = Some (cm_config_id m)"
    and "load_u64_le A 56 = Some (cm_replay_id m)"
    and "load_u64_le A 64 = Some (cm_graph_id m)"
    and "load_u64_le A 72 = Some (cm_state_schema_id m)"
    and "load_u64_le A 80 = Some (cm_checkpoint_frame_index m)"
    and "load_u64_le A 88 = Some (word_of_nat pb)"
    and "load_u64_le A 96 = Some (word_of_nat req)"
    and "load_u64_le A 104 = Some (un64 h)"
    and "load_u64_le A 112 = Some (un64 c)"
    and "fixed_identifier A 120 = (if padded (cm_build_id m) then Some (cm_build_id m) else None)"
    and "fixed_identifier A 184 = (if padded (cm_workload_id m) then Some (cm_workload_id m) else None)"
    and "bytes_zero A 248 8" and "magic_matches A kCheckpointMagic"
proof -
  note A = A_def header_bytes_def
  have len: "length A = 256 + length r" unfolding A_def using length_header [OF ids hc] by simp
  have l32: "load_u32_le A off = Some (un32 (slice off 4 A))" if "off \<le> 252" for off
    using that by (simp add: load_u32_slice len)
  have l64: "load_u64_le A off = Some (un64 (slice off 8 A))" if "off \<le> 248" for off
    using that by (simp add: load_u64_slice len)
  show "load_u32_le A 8 = Some checkpoint_schema_version"
    and "load_u32_le A 12 = Some (word_of_nat checkpoint_header_size)"
    and "load_u32_le A 16 = Some (cm_runtime_version_major m)"
    and "load_u32_le A 20 = Some (cm_runtime_version_minor m)"
    and "load_u32_le A 24 = Some (cm_runtime_version_patch m)"
    and "load_u32_le A 28 = Some (ucast (cm_determinism_tier m))"
    and "load_u32_le A 32 = Some 0"
    and "load_u32_le A 36 = Some (word_of_nat n)"
    and "load_u32_le A 40 = Some (word_of_nat checkpoint_record_header_size)"
    and "load_u32_le A 44 = Some 0"
    and "load_u64_le A 48 = Some (cm_config_id m)"
    and "load_u64_le A 56 = Some (cm_replay_id m)"
    and "load_u64_le A 64 = Some (cm_graph_id m)"
    and "load_u64_le A 72 = Some (cm_state_schema_id m)"
    and "load_u64_le A 80 = Some (cm_checkpoint_frame_index m)"
    and "load_u64_le A 88 = Some (word_of_nat pb)"
    and "load_u64_le A 96 = Some (word_of_nat req)"
    and "load_u64_le A 104 = Some (un64 h)"
    and "load_u64_le A 112 = Some (un64 c)"
    using hc by (simp_all add: l32 l64) (simp_all add: A block_simps)
  let ?p1 = "take 120 A" and ?p2 = "take 184 A" and ?p3 = "take 248 A"
  have "A = ?p1 @ cm_build_id m @ drop 184 A" "length ?p1 = 120"
    using ids hc len by (simp_all add: A)
  then show "fixed_identifier A 120 = (if padded (cm_build_id m) then Some (cm_build_id m) else None)"
    using fixed_identifier_field [OF _ ids(1) view(1), of ?p1 120 "drop 184 A"] by simp
  have "A = ?p2 @ cm_workload_id m @ drop 248 A" "length ?p2 = 184"
    using ids hc len by (simp_all add: A)
  then show "fixed_identifier A 184 = (if padded (cm_workload_id m) then Some (cm_workload_id m) else None)"
    using fixed_identifier_field [OF _ ids(2) view(2), of ?p2 184 "drop 248 A"] by simp
  have "A = ?p3 @ replicate 8 0 @ r" "length ?p3 = 248"
    using ids hc len by (simp_all add: A)
  then show "bytes_zero A 248 8" using bytes_zero_field [of ?p3 248 8 r] by simp
  show "magic_matches A kCheckpointMagic" using len by (simp add: A magic_matches_def)
qed

lemma word32_small: "n \<le> 1048576 \<Longrightarrow> unat (word_of_nat n :: u32) = n"
  by (simp add: unat_of_nat_u32)

lemma word64_small: "n \<le> 1073741824 \<Longrightarrow> unat (word_of_nat n :: u64) = n"
  by (simp add: unat_of_nat_u64)

lemma parse_header_layout:
  assumes ids: "length (cm_build_id m) = 64" "length (cm_workload_id m) = 64"
    and hc: "length h = 8" "length c = 8"
    and view: "valid_identifier (identifier_view (cm_build_id m))"
      "valid_identifier (identifier_view (cm_workload_id m))"
    and tier: "valid_tier (ucast (cm_determinism_tier m))"
    and A: "A = header_bytes m n pb req h c @ r" "length A = req"
    and max: "req \<le> max_bytes" "max_bytes \<le> 1073741824" "n \<le> max_states" "max_states \<le> 1048576"
      "pb \<le> max_bytes"
  shows "parse_checkpoint_header A max_bytes max_states =
    (if padded (cm_build_id m) \<and> padded (cm_workload_id m)
     then Some (parsed_metadata m n pb req h c) else None)"
proof -
  note fields = header_fields [OF ids hc view A(1)]
  have size: "256 \<le> length A" unfolding A(1) using length_header [OF ids hc] by simp
  have words: "unat (word_of_nat n :: u32) = n" "unat (word_of_nat req :: u64) = req"
    "unat (word_of_nat pb :: u64) = pb"
    using max by (simp_all add: word32_small word64_small)
  show ?thesis
    using size max A(2) tier words
    by (simp add: parse_checkpoint_header_def fields artifact_absolute_max_bytes_def
        artifact_absolute_max_records_def checkpoint_header_size_def kCheckpointChecksumOffset_def
        checkpoint_record_header_size_def parsed_metadata_def ucast_tier)
qed

section \<open>Reading records\<close>

lemma record_fields:
  assumes s: "state_ok s" and A: "A = pre @ record_bytes s @ post" "length pre = off"
  shows "fixed_name A off = Some (state_name s)"
    and "load_u32_le A (off + 64) = Some (state_schema_version s)"
    and "load_u32_le A (off + 68) = Some 0"
    and "load_u64_le A (off + 72) = Some (word_of_nat (length (state_payload s)))"
    and "load_u64_le A (off + 80) = Some (artifact_checksum (state_payload s))"
    and "slice (off + 88) (length (state_payload s)) A = state_payload s"
proof -
  have name: "valid_identifier (state_name s)" using s by (simp add: state_ok_def)
  note pad = length_pad [OF name]
  have len: "length A = off + 88 + length (state_payload s) + length post"
    using A length_record_bytes [OF s] by simp
  have "slice off 64 A = pad_identifier (state_name s)"
    using A pad by (simp add: record_bytes_def block_simps)
  then show "fixed_name A off = Some (state_name s)"
    using fixed_name_Some [of off A] len name by simp
  show "load_u32_le A (off + 64) = Some (state_schema_version s)"
    "load_u32_le A (off + 68) = Some 0"
    "load_u64_le A (off + 72) = Some (word_of_nat (length (state_payload s)))"
    "load_u64_le A (off + 80) = Some (artifact_checksum (state_payload s))"
    "slice (off + 88) (length (state_payload s)) A = state_payload s"
    using len by (simp_all add: load_u32_slice load_u64_slice)
      (use A pad in \<open>simp_all add: record_bytes_def block_simps\<close>)
qed

lemma parse_record_layout:
  assumes s: "state_ok s" and A: "A = pre @ record_bytes s @ post" "length pre = off"
    and size: "length A \<le> artifact_absolute_max_bytes" and tot: "tot + length (state_payload s) \<le> size_max"
  shows "parse_checkpoint_record A off tot =
    Some (off + length (record_bytes s), tot + length (state_payload s))"
proof -
  have len: "length A = off + 88 + length (state_payload s) + length post"
    using A length_record_bytes [OF s] by simp
  have pay: "unat (word_of_nat (length (state_payload s)) :: u64) = length (state_payload s)"
    using len size by (simp add: unat_of_nat_u64 artifact_absolute_max_bytes_def)
  then have "word_of_nat (length (state_payload s)) \<noteq> (0 :: u64)"
    using s by (metis length_0_conv state_ok_def unsigned_0)
  then show ?thesis
    using record_fields [OF s A] s len pay size tot length_record_bytes [OF s]
    by (simp add: parse_checkpoint_record_def checkpoint_record_header_size_def state_ok_def
        checked_artifact_add_def size_max_def artifact_absolute_max_bytes_def)
qed

lemma zero32_slice: "off + 4 \<le> length A \<Longrightarrow> un32 (slice off 4 A) = 0 \<Longrightarrow> slice off 4 A = replicate 4 0"
  by (metis le_un(1) length_replicate length_slice un32_zeros)

lemma parse_record_Some:
  assumes "parse_checkpoint_record A off tot = Some (off', tot')" and size: "length A \<le> artifact_absolute_max_bytes"
  shows "\<exists>s. state_ok s \<and> tot' \<le> size_max \<and> drop off A = record_bytes s @ drop off' A \<and> off' \<le> length A \<and>
    off' = off + 88 + length (state_payload s) \<and> tot' = tot + length (state_payload s)"
proof -
  from assms(1) have room: "off + 88 \<le> length A"
    by (auto simp: parse_checkpoint_record_def checkpoint_record_header_size_def split: if_splits)
  have name: "fixed_name A off = Some v \<longleftrightarrow> slice off 64 A = pad_identifier v \<and> valid_identifier v" for v
    using room by (intro fixed_name_Some) simp
  let ?n = "unat (un64 (slice (off + 72) 8 A))"
  from assms(1) room obtain v where v: "slice off 64 A = pad_identifier v" "valid_identifier v"
    and f: "un32 (slice (off + 64) 4 A) \<noteq> 0" "un32 (slice (off + 68) 4 A) = 0"
      "un64 (slice (off + 72) 8 A) \<noteq> 0" "?n \<le> length A - (off + 88)"
      "artifact_checksum (slice (off + 88) ?n A) = un64 (slice (off + 80) 8 A)"
    and off': "off' = off + 88 + ?n" and tot': "tot' = tot + ?n" "?n = 0 \<or> tot + ?n \<le> size_max"
    by (auto simp: parse_checkpoint_record_def load_u32_slice load_u64_slice bind_eq_Some_conv name
        checkpoint_record_header_size_def checked_artifact_add_Some Let_def split: if_splits)
  let ?s = "\<lparr>state_name = v, state_schema_version = un32 (slice (off + 64) 4 A),
    state_payload = slice (off + 88) ?n A\<rparr>"
  have len: "length (slice (off + 88) ?n A) = ?n" and n0: "?n \<noteq> 0"
    using room f(3,4) by (simp_all add: unat_eq_zero)
  have "state_ok ?s"
    using v(2) f(1) len n0 by (auto simp: state_ok_def)
  moreover have "record_bytes ?s = slice off 64 A @ slice (off + 64) 4 A @ slice (off + 68) 4 A @
      slice (off + 72) 8 A @ slice (off + 80) 8 A @ slice (off + 88) ?n A"
    using len room zero32_slice [OF _ f(2)] by (simp add: record_bytes_def v(1) f(5))
  then have "record_bytes ?s @ drop off' A = drop off A"
    by (simp add: off' slice_drop)
  ultimately show ?thesis using off' tot' n0 len f(4) room by (intro exI [of _ ?s]) simp
qed

text \<open>The record section as an instance of the shared interface.\<close>

interpretation checkpoint_records: record_parser record_bytes
  "\<lambda>tot s. state_ok s \<and> tot + length (state_payload s) \<le> size_max"
  "\<lambda>tot s. tot + length (state_payload s)" parse_checkpoint_record parse_checkpoint_records
proof (unfold_locales, goal_cases)
  case (3 tot s pre post)
  then show ?case using parse_record_layout [of s _ pre post] by simp
next
  case (4 A off tot off' tot')
  then show ?case using parse_record_Some [of A off tot off' tot'] by blast
qed (simp_all add: case_prod_beta')

lemma accepted_states:
  "all_accepted (\<lambda>tot s. state_ok s \<and> tot + length (state_payload s) \<le> size_max)
     (\<lambda>tot s. tot + length (state_payload s)) tot ss \<longleftrightarrow>
   (\<forall>s \<in> set ss. state_ok s) \<and> (ss = [] \<or> tot + total_payload ss \<le> size_max)"
  by (induction ss arbitrary: tot) (auto simp: total_payload_def add.assoc)

lemma foldl_payload: "foldl (\<lambda>tot s. tot + length (state_payload s)) tot ss = tot + total_payload ss"
  by (induction ss arbitrary: tot) (auto simp: total_payload_def)

lemma parse_records_layout:
  assumes "\<forall>s \<in> set ss. state_ok s" and "A = pre @ records_bytes ss" and "length pre = off"
    and "length A \<le> 1073741824" and "total_payload ss \<le> 1073741824"
  shows "parse_checkpoint_records A (length ss) off 0 = Some (length A, total_payload ss)"
proof -
  have "1073741824 \<le> size_max" by (simp add: size_max_def)
  then show ?thesis
    using checkpoint_records.many_layout [of 0 ss A pre] assms
    by (simp add: accepted_states foldl_payload records_bytes_def artifact_absolute_max_bytes_def)
qed

lemma length_checkpoint_layout:
  assumes "length (cm_build_id m) = 64" and "length (cm_workload_id m) = 64"
    and "\<forall>s \<in> set ss. state_ok s" and "length c = 8"
  shows "length (checkpoint_layout m ss c) = 256 + length ss * 88 + total_payload ss"
  unfolding checkpoint_layout_def
  using length_header [OF assms(1,2)] length_records_bytes [OF assms(3)] assms(4) by simp

lemma parse_checkpoint_bytes:
  assumes ids: "length (cm_build_id m) = 64" "length (cm_workload_id m) = 64"
    and view: "valid_identifier (identifier_view (cm_build_id m))"
      "valid_identifier (identifier_view (cm_workload_id m))"
    and tier: "valid_tier (ucast (cm_determinism_tier m))"
    and ss: "\<forall>s \<in> set ss. state_ok s"
    and max: "256 + length ss * 88 + total_payload ss \<le> max_bytes" "max_bytes \<le> 1073741824"
      "length ss \<le> max_states" "max_states \<le> 1048576"
  shows "parse_checkpoint_artifact (checkpoint_bytes m ss) max_bytes max_states =
    (if padded (cm_build_id m) \<and> padded (cm_workload_id m)
     then Some (parsed_metadata m (length ss) (total_payload ss) (256 + length ss * 88 + total_payload ss)
       (le64 (artifact_checksum (records_bytes ss))) (le64 (layout_checksum m ss)))
     else None)"
proof -
  let ?A = "checkpoint_bytes m ss" and ?q = "256 + length ss * 88 + total_payload ss"
  let ?h = "le64 (artifact_checksum (records_bytes ss))" and ?c = "le64 (layout_checksum m ss)"
  let ?H = "header_bytes m (length ss) (total_payload ss) ?q ?h ?c"
  have A: "?A = ?H @ records_bytes ss" by (simp add: checkpoint_bytes_def checkpoint_layout_def)
  have len: "length ?A = ?q"
    unfolding checkpoint_bytes_def using length_checkpoint_layout [OF ids ss] by simp
  have head: "parse_checkpoint_header ?A max_bytes max_states =
      (if padded (cm_build_id m) \<and> padded (cm_workload_id m)
       then Some (parsed_metadata m (length ss) (total_payload ss) ?q ?h ?c) else None)"
    using max by (intro parse_header_layout [OF ids _ _ view tier A len]) simp_all
  have hl: "length ?H = 256" using length_header [OF ids] by simp
  have "put 112 ?c (checkpoint_layout m ss (replicate 8 0)) = ?A"
    using put_checksum_field [OF ids] by (simp add: checkpoint_bytes_def)
  then have sum: "checksum_excluding ?A 112 8 = layout_checksum m ss"
    using checksum_excluding_put [of ?c 8 112 "checkpoint_layout m ss (replicate 8 0)"]
      length_checkpoint_layout [OF ids ss] by (simp add: layout_checksum_def)
  have recs: "parse_checkpoint_records ?A (length ss) 256 0 = Some (?q, total_payload ss)"
    using parse_records_layout [OF ss A hl] len max by simp
  have words: "unat (word_of_nat (length ss) :: u32) = length ss"
    "unat (word_of_nat (total_payload ss) :: u64) = total_payload ss"
    using max by (simp_all add: word32_small word64_small)
  show ?thesis
    using head sum recs words len hl A
    by (simp add: parse_checkpoint_artifact_def parsed_metadata_def kCheckpointChecksumOffset_def
        checkpoint_header_size_def)
qed

end
