(* ===== verification/Checkpoint_Canonical.thy ===== *)
theory Checkpoint_Canonical
  imports Checkpoint_Parsing
begin

text \<open>
  The checksums detect every change of a single byte, the parser accepts canonical encodings only,
  and the record cursor reads every record of an accepted artifact.
\<close>

section \<open>Accepted headers\<close>

lemma ucast_small_tier: "valid_tier t \<Longrightarrow> ucast (ucast t :: u8) = t"
  by (simp add: valid_tier_def word_unat_eq_iff word_le_nat_alt unsigned_ucast_eq unsigned_take_bit_eq
      take_bit_nat_eq_self)

lemma bytes_zero_slice: "bytes_zero A off n \<Longrightarrow> slice off n A = replicate n 0"
  by (auto simp: bytes_zero_def list_all_iff intro!: replicate_eqI)

lemma header_slices:
  "take 8 A @ slice 8 4 A @ slice 12 4 A @ slice 16 4 A @ slice 20 4 A @ slice 24 4 A @ slice 28 4 A @
   slice 32 4 A @ slice 36 4 A @ slice 40 4 A @ slice 44 4 A @ slice 48 8 A @ slice 56 8 A @ slice 64 8 A @
   slice 72 8 A @ slice 80 8 A @ slice 88 8 A @ slice 96 8 A @ slice 104 8 A @ slice 112 8 A @
   slice 120 64 A @ slice 184 64 A @ slice 248 8 A @ drop 256 A = A"
  by (simp add: slice_drop)

lemma parse_header_Some:
  assumes "parse_checkpoint_header A max_bytes max_states = Some m"
  shows "256 \<le> length A" and "length A \<le> max_bytes" and "max_bytes \<le> 1073741824"
    and "max_states \<le> 1048576" and "unat (cm_state_count m) \<le> max_states"
    and "unat (cm_total_bytes m) = length A" and "cm_schema_version m = checkpoint_schema_version"
    and "cm_artifact_checksum m = un64 (slice 112 8 A)"
    and "valid_tier (ucast (cm_determinism_tier m))"
    and "\<exists>v. cm_build_id m = pad_identifier v \<and> valid_identifier v"
    and "\<exists>v. cm_workload_id m = pad_identifier v \<and> valid_identifier v"
    and "A = header_bytes m (unat (cm_state_count m)) (unat (cm_state_payload_bytes m)) (length A)
      (le64 (cm_state_hash m)) (le64 (cm_artifact_checksum m)) @ drop 256 A"
proof -
  show size: "256 \<le> length A" and "length A \<le> max_bytes" and "max_bytes \<le> 1073741824"
    and "max_states \<le> 1048576"
    using assms by (auto simp: parse_checkpoint_header_def artifact_absolute_max_bytes_def
        artifact_absolute_max_records_def checkpoint_header_size_def split: if_splits)
  have id: "fixed_identifier A off = Some a \<longleftrightarrow>
      a = slice off 64 A \<and> (\<exists>v. a = pad_identifier v \<and> valid_identifier v)" if "off \<le> 192" for off a
    using that size by (intro fixed_identifier_Some) simp
  from assms size have fields:
      "m = \<lparr>cm_schema_version = un32 (slice 8 4 A), cm_runtime_version_major = un32 (slice 16 4 A),
        cm_runtime_version_minor = un32 (slice 20 4 A), cm_runtime_version_patch = un32 (slice 24 4 A),
        cm_determinism_tier = ucast (un32 (slice 28 4 A)), cm_config_id = un64 (slice 48 8 A),
        cm_replay_id = un64 (slice 56 8 A), cm_graph_id = un64 (slice 64 8 A),
        cm_state_schema_id = un64 (slice 72 8 A), cm_checkpoint_frame_index = un64 (slice 80 8 A),
        cm_state_payload_bytes = un64 (slice 88 8 A), cm_total_bytes = un64 (slice 96 8 A),
        cm_state_hash = un64 (slice 104 8 A), cm_artifact_checksum = un64 (slice 112 8 A),
        cm_state_count = un32 (slice 36 4 A), cm_build_id = slice 120 64 A,
        cm_workload_id = slice 184 64 A\<rparr>"
    and ids: "fixed_identifier A 120 = Some (slice 120 64 A)" "fixed_identifier A 184 = Some (slice 184 64 A)"
    and checks: "un32 (slice 8 4 A) = checkpoint_schema_version" "unat (un32 (slice 12 4 A)) = 256"
      "unat (un32 (slice 40 4 A)) = 88" "un32 (slice 32 4 A) = 0" "un32 (slice 44 4 A) = 0"
      "bytes_zero A 248 8" "valid_tier (un32 (slice 28 4 A))" "unat (un32 (slice 36 4 A)) \<le> max_states"
      "unat (un64 (slice 96 8 A)) = length A" and magic: "take 8 A = kCheckpointMagic"
    by (auto simp: parse_checkpoint_header_def load_u32_slice load_u64_slice bind_eq_Some_conv id
        checkpoint_header_size_def checkpoint_record_header_size_def kCheckpointChecksumOffset_def
        magic_matches_def split: if_splits)
  show "unat (cm_state_count m) \<le> max_states" "unat (cm_total_bytes m) = length A"
    "cm_schema_version m = checkpoint_schema_version" "cm_artifact_checksum m = un64 (slice 112 8 A)"
    "valid_tier (ucast (cm_determinism_tier m))"
    using checks ucast_small_tier [OF checks(7)] unfolding fields by simp_all
  show "\<exists>v. cm_build_id m = pad_identifier v \<and> valid_identifier v"
    "\<exists>v. cm_workload_id m = pad_identifier v \<and> valid_identifier v"
    using ids unfolding fields by (simp_all add: id)
  have zeros: "slice 32 4 A = replicate 4 0" "slice 44 4 A = replicate 4 0" "slice 248 8 A = replicate 8 0"
    using zero32_slice [OF _ checks(4)] zero32_slice [OF _ checks(5)] bytes_zero_slice [OF checks(6)] size
    by simp_all
  have words: "checkpoint_schema_version = un32 (slice 8 4 A)" "word_of_nat 256 = un32 (slice 12 4 A)"
      "word_of_nat 88 = un32 (slice 40 4 A)" "word_of_nat (length A) = un64 (slice 96 8 A)"
      "ucast (ucast (un32 (slice 28 4 A)) :: u8) = un32 (slice 28 4 A)"
    using checks(1) arg_cong [OF checks(2), of "word_of_nat :: nat \<Rightarrow> u32"]
      arg_cong [OF checks(3), of "word_of_nat :: nat \<Rightarrow> u32"]
      arg_cong [OF checks(9), of "word_of_nat :: nat \<Rightarrow> u64"] ucast_small_tier [OF checks(7)] by simp_all
  show "A = header_bytes m (unat (cm_state_count m)) (unat (cm_state_payload_bytes m)) (length A)
      (le64 (cm_state_hash m)) (le64 (cm_artifact_checksum m)) @ drop 256 A"
    using header_slices [of A] size
    unfolding header_bytes_def fields checkpoint_header_size_def checkpoint_record_header_size_def words
    by (simp add: zeros magic words(5))
qed

section \<open>Accepted artifacts\<close>

text \<open>Every accepted artifact is the encoding of its metadata and of some well-formed states.\<close>

lemma parse_checkpoint_Some:
  assumes parse: "parse_checkpoint_artifact A max_bytes max_states = Some m"
  obtains ss where "length ss = unat (cm_state_count m)" and "\<forall>s \<in> set ss. state_ok s"
    and "A = checkpoint_bytes m ss" and "layout_checksum m ss = cm_artifact_checksum m"
proof -
  from parse obtain off tot where head: "parse_checkpoint_header A max_bytes max_states = Some m"
    and sum: "checksum_excluding A 112 8 = cm_artifact_checksum m"
    and recs: "parse_checkpoint_records A (unat (cm_state_count m)) 256 0 = Some (off, tot)"
    and fin: "off = length A" "tot = unat (cm_state_payload_bytes m)"
      "artifact_checksum (drop 256 A) = cm_state_hash m"
    by (auto simp: parse_checkpoint_artifact_def bind_eq_Some_conv checkpoint_header_size_def
        kCheckpointChecksumOffset_def split: if_splits)
  note h = parse_header_Some [OF head]
  obtain ss where ss: "length ss = unat (cm_state_count m)" "\<forall>s \<in> set ss. state_ok s"
    "drop 256 A = records_bytes ss" "tot = total_payload ss"
    using checkpoint_records.many_Some [OF recs] h(1-3) fin(1)
    by (auto simp: artifact_absolute_max_bytes_def accepted_states foldl_payload records_bytes_def)
  have len: "length A = 256 + length ss * 88 + total_payload ss"
    using arg_cong [OF ss(3), of length] length_records_bytes [OF ss(2)] h(1) by simp
  have ids: "length (cm_build_id m) = 64" "length (cm_workload_id m) = 64" using h(10,11) by auto
  have A: "A = checkpoint_layout m ss (le64 (cm_artifact_checksum m))"
    using h(12) fin(2,3) ss len by (simp add: checkpoint_layout_def)
  have "put 112 (replicate 8 0) A = checkpoint_layout m ss (replicate 8 0)"
    unfolding A by (rule put_checksum_field [OF ids]) simp_all
  then have "layout_checksum m ss = cm_artifact_checksum m"
    unfolding layout_checksum_def
    using checksum_excluding_put [of "replicate 8 0" 8 112 A] h(1) sum by simp
  then show ?thesis using that [OF ss(1,2)] A by (simp add: checkpoint_bytes_def)
qed

lemma accepted_header:
  assumes "parse_checkpoint_artifact A max_bytes max_states = Some m"
  shows "parse_checkpoint_header A max_bytes max_states = Some m"
  using assms by (auto simp: parse_checkpoint_artifact_def bind_eq_Some_conv split: if_splits)

interpretation checkpoint_seal: sealed_artifact
  "\<lambda>(max_bytes, max_states) A. parse_checkpoint_artifact A max_bytes max_states" 112
proof (unfold_locales, clarify)
  fix A max_bytes max_states m
  assume parse: "parse_checkpoint_artifact A max_bytes max_states = Some m"
  then have "checksum_excluding A 112 8 = cm_artifact_checksum m"
    by (auto simp: parse_checkpoint_artifact_def bind_eq_Some_conv kCheckpointChecksumOffset_def
        split: if_splits)
  then show "112 + 8 \<le> length A \<and> checksum_excluding A 112 8 = un64 (slice 112 8 A)"
    using parse_header_Some(1,8) [OF accepted_header [OF parse]] by simp
qed

section \<open>The record cursor\<close>

lemma next_record_layout:
  assumes s: "state_ok s" and A: "A = pre @ record_bytes s @ post" "length pre = off"
    and size: "length A \<le> artifact_absolute_max_bytes" and idx: "idx < cm_state_count m"
  shows "next_checkpoint_record A m \<lparr>cursor_offset = off, cursor_index = idx\<rparr> =
    (True, \<lparr>cursor_offset = off + 88 + length (state_payload s), cursor_index = idx + 1\<rparr>, s)"
proof -
  have len: "length A = off + 88 + length (state_payload s) + length post"
    using A length_record_bytes [OF s] by simp
  have pay: "unat (word_of_nat (length (state_payload s)) :: u64) = length (state_payload s)"
    using len size by (simp add: unat_of_nat_u64 artifact_absolute_max_bytes_def)
  show ?thesis
    using record_fields [OF s A] len pay size idx
    by (simp add: next_checkpoint_record_def Let_def checkpoint_record_header_size_def
        empty_record_view_def size_max_def not_le artifact_absolute_max_bytes_def)
qed

interpretation checkpoint_cursor: record_cursor record_bytes state_ok "\<lambda>s. s" cm_state_count
  next_checkpoint_record
proof (unfold_locales, goal_cases)
  case (1 s pre post i m)
  then show ?case using next_record_layout [of s _ pre post] length_record_bytes [of s] by simp
next
  case (2 m i A off)
  then show ?case by (simp add: next_checkpoint_record_def)
qed

end
