(* ===== verification/Checkpoint_Codec.thy ===== *)
theory Checkpoint_Codec
  imports Checkpoint_Canonical
begin

text \<open>
  What the checkpoint codec promises: which arguments it encodes, that encoding and parsing are
  inverse to each other in both directions, that failures leave the output alone and that no
  change of a single byte goes unnoticed.
\<close>

section \<open>A sample\<close>

definition sample_metadata :: checkpoint_metadata where
  "sample_metadata = \<lparr>cm_schema_version = 1, cm_runtime_version_major = 1, cm_runtime_version_minor = 4,
     cm_runtime_version_patch = 0, cm_determinism_tier = 2, cm_config_id = 7, cm_replay_id = 8,
     cm_graph_id = 9, cm_state_schema_id = 10, cm_checkpoint_frame_index = 100,
     cm_state_payload_bytes = 0, cm_total_bytes = 0, cm_state_hash = 0, cm_artifact_checksum = 0,
     cm_state_count = 0, cm_build_id = pad_identifier [0x62, 0x31], cm_workload_id = pad_identifier [0x77]\<rparr>"

definition sample_state :: state_write_view where
  "sample_state = \<lparr>state_name = [0x63, 0x61, 0x72], state_schema_version = 3, state_payload = [1, 2, 0, 255]\<rparr>"

definition sample_provider :: state_write_provider where
  "sample_provider pass index = Some sample_state"

lemma sample_identifiers:
  "valid_identifier [0x62, 0x31]" "valid_identifier [0x77]" "valid_identifier [0x63, 0x61, 0x72]"
  by (simp_all add: valid_identifier_def replay_identifier_capacity_def identifier_character_def)

lemma sample_ids [simp]:
  "length (cm_build_id sample_metadata) = 64" "length (cm_workload_id sample_metadata) = 64"
  "identifier_view (cm_build_id sample_metadata) = [0x62, 0x31]"
  "identifier_view (cm_workload_id sample_metadata) = [0x77]"
  using sample_identifiers by (simp_all add: sample_metadata_def identifier_view_pad)

lemma sample_state_ok [simp]: "state_ok sample_state"
  using sample_identifiers by (simp add: state_ok_def sample_state_def)

lemma sample_payload: "length (state_payload sample_state) = 4"
  by (simp add: sample_state_def)

lemma sample_arguments [simp]: "\<not> checkpoint_arguments_invalid sample_metadata 2 (Some sample_provider) 512"
  using sample_identifiers
  by (simp add: checkpoint_arguments_invalid_def artifact_absolute_max_bytes_def
      artifact_absolute_max_records_def checkpoint_header_size_def valid_tier_def) (simp add: sample_metadata_def)

lemma sample_states [simp]: "states_of sample_provider 2 = [sample_state, sample_state]"
  by (simp add: states_of_def sample_provider_def upt_rec)

lemma sample_agree: "sample_provider 1 = sample_provider 0"
  by (simp add: sample_provider_def fun_eq_iff)

section \<open>When encoding succeeds\<close>

lemma fst_ok: "fst e = ok \<longleftrightarrow> (\<exists>out' res. e = (ok, out', res))"
  by (cases e) auto

lemma write_records_total:
  "\<forall>i \<in> set idx. provider 1 i \<noteq> None \<Longrightarrow> \<exists>a'. write_checkpoint_records provider idx off a = Inr a'"
  by (induction idx arbitrary: off a) auto

lemma checkpoint_payload_complete:
  assumes "\<forall>i \<in> set idx. \<exists>s. provider 0 i = Some s \<and> state_ok s"
    and "p0 + total_payload (map (\<lambda>i. the (provider 0 i)) idx) \<le> size_max"
  shows "checkpoint_payload_bytes provider idx p0 =
    Some (p0 + total_payload (map (\<lambda>i. the (provider 0 i)) idx))"
  using assms
proof (induction idx arbitrary: p0)
  case Nil
  then show ?case by (simp add: total_payload_def)
next
  case (Cons i idx)
  then obtain s where s: "provider 0 i = Some s" "state_ok s" by auto
  have sum: "total_payload (map (\<lambda>i. the (provider 0 i)) (i # idx)) =
      length (state_payload s) + total_payload (map (\<lambda>i. the (provider 0 i)) idx)"
    using s by (simp add: total_payload_def)
  have "checked_artifact_add p0 (length (state_payload s)) = Some (p0 + length (state_payload s))"
    using Cons.prems(2) unfolding sum checked_artifact_add_Some by simp
  moreover have "checkpoint_payload_bytes provider idx (p0 + length (state_payload s)) =
      Some (p0 + length (state_payload s) + total_payload (map (\<lambda>i. the (provider 0 i)) idx))"
    using Cons.prems unfolding sum by (intro Cons.IH) auto
  ultimately show ?case using s unfolding sum by (simp add: state_ok_def)
qed

lemma checkpoint_payload_bound:
  "checkpoint_payload_bytes provider idx p0 = Some p \<Longrightarrow> p0 \<le> size_max \<Longrightarrow> p \<le> size_max"
  by (induction idx arbitrary: p0) (auto simp: checked_artifact_add_Some split: option.splits if_splits)

definition encodable ::
  "checkpoint_metadata \<Rightarrow> nat \<Rightarrow> state_write_provider \<Rightarrow> nat \<Rightarrow> bytes \<Rightarrow> bool" where
  "encodable m n provider max_bytes out \<longleftrightarrow>
     \<not> checkpoint_arguments_invalid m n (Some provider) max_bytes \<and>
     (\<forall>i \<in> set [0..<n]. case provider 0 i of None \<Rightarrow> False | Some s \<Rightarrow> state_ok s) \<and>
     256 + n * 88 + total_payload (states_of provider n) \<le> min max_bytes (length out)"

lemma supplied:
  "(case x of None \<Rightarrow> False | Some s \<Rightarrow> state_ok s) \<longleftrightarrow> (\<exists>s. x = Some s \<and> state_ok s)"
  by (cases x) auto

lemma arguments_bounds:
  "\<not> checkpoint_arguments_invalid m n p max_bytes \<Longrightarrow> n \<le> 1048576 \<and> max_bytes \<le> 1073741824"
  by (simp add: checkpoint_arguments_invalid_def artifact_absolute_max_bytes_def
      artifact_absolute_max_records_def)

lemma artifact_required_complete:
  assumes "256 + n * 88 + p \<le> 1073741824"
  shows "artifact_required 256 88 n p = Some (256 + n * 88 + p)"
proof -
  have "checked_artifact_multiply n 88 = Some (n * 88)"
    "checked_artifact_add 256 (n * 88) = Some (256 + n * 88)"
    "checked_artifact_add (256 + n * 88) p = Some (256 + n * 88 + p)"
    using assms by (simp_all only: checked_artifact_add_Some checked_artifact_multiply_Some)
      (simp_all add: size_max_def)
  then show ?thesis by (simp add: artifact_required_def)
qed

lemma encodable_encodes:
  assumes enc: "encodable m n provider max_bytes out" and agree: "provider 1 = provider 0"
  shows "fst (encode_checkpoint_artifact m n (Some provider) max_bytes out) = ok"
proof -
  let ?t = "total_payload (states_of provider n)"
  from enc have valid: "\<not> checkpoint_arguments_invalid m n (Some provider) max_bytes"
    and states: "\<forall>i \<in> set [0..<n]. \<exists>s. provider 0 i = Some s \<and> state_ok s"
    and fits: "256 + n * 88 + ?t \<le> max_bytes" "256 + n * 88 + ?t \<le> length out"
    by (auto simp: encodable_def split: option.splits)
  have small: "256 + n * 88 + ?t \<le> 1073741824" using arguments_bounds [OF valid] fits(1) by simp
  have pay: "checkpoint_payload_bytes provider [0..<n] 0 = Some ?t"
    using checkpoint_payload_complete [of "[0..<n]" provider 0] states small by (simp add: states_of_def size_max_def)
  obtain a where "write_checkpoint_records provider [0..<n] 256
      (write_checkpoint_header m n ?t (256 + n * 88 + ?t) (replicate (256 + n * 88 + ?t) 0)) = Inr a"
    using write_records_total [of "[0..<n]" provider] states agree by (metis option.distinct(1))
  then show ?thesis
    using valid pay artifact_required_complete [OF small] fits
    by (simp add: encode_checkpoint_artifact_def checkpoint_header_size_def
        checkpoint_record_header_size_def split: prod.split)
qed



lemma sample_encodable: "encodable sample_metadata 2 sample_provider 512 (replicate 500 0)"
  by (simp add: encodable_def total_payload_def)
    (simp add: sample_provider_def sample_payload)


lemma artifact_required_bound:
  "artifact_required h r n p = Some q \<Longrightarrow> h \<le> size_max \<Longrightarrow> q \<le> size_max"
  by (auto simp: artifact_required_def checked_artifact_add_Some bind_eq_Some_conv)

lemma artifact_required_None:
  assumes "artifact_required 256 88 n p = None" and "n \<le> 1048576"
  shows "size_max < 256 + n * 88 + p"
proof (rule ccontr)
  assume "\<not> size_max < 256 + n * 88 + p"
  then have "checked_artifact_multiply n 88 = Some (n * 88)"
    "checked_artifact_add 256 (n * 88) = Some (256 + n * 88)"
    "checked_artifact_add (256 + n * 88) p = Some (256 + n * 88 + p)"
    by (simp_all only: checked_artifact_add_Some checked_artifact_multiply_Some) simp_all
  then show False using assms(1) by (simp add: artifact_required_def)
qed

text \<open>
  C11. A failed encoding tells why and what it needed.  Invalid arguments, states or sizes leave the
  output untouched and report nothing; an artifact that does not fit reports the required size,
  unless that size itself overflows, and leaves the output untouched; with a callback that supplies
  the same states in both passes there is no other failure.
\<close>

theorem encode_checkpoint_failure:
  assumes enc: "encode_checkpoint_artifact m n (Some provider) max_bytes out = (st, out', res)"
    and fail: "st \<noteq> ok" and agree: "provider 1 = provider 0"
  defines "valid \<equiv> \<not> checkpoint_arguments_invalid m n (Some provider) max_bytes"
    and "needed \<equiv> 256 + n * 88 + total_payload (states_of provider n)"
    and "supplies \<equiv> list_all (\<lambda>i. case provider 0 i of None \<Rightarrow> False | Some s \<Rightarrow> state_ok s) [0..<n]"
  shows "out' = out \<and> bytes_written res = 0 \<and>
    (st = invalid_argument \<and> required_bytes res = 0 \<and>
       (\<not> valid \<or> \<not> supplies \<or> size_max < total_payload (states_of provider n)) \<or>
     st = capacity_exceeded \<and> valid \<and> supplies \<and> min max_bytes (length out) < needed \<and>
       required_bytes res = (if needed \<le> size_max then needed else 0))"
proof (cases "valid \<and> supplies \<and> total_payload (states_of provider n) \<le> size_max")
  case False
  have "checkpoint_payload_bytes provider [0..<n] 0 = None" if "\<not> supplies \<or> size_max < total_payload (states_of provider n)"
  proof (rule ccontr)
    assume "checkpoint_payload_bytes provider [0..<n] 0 \<noteq> None"
    then obtain p where p: "checkpoint_payload_bytes provider [0..<n] 0 = Some p" by auto
    have supplies
      using checkpoint_payload_Some(1) [OF p] by (simp only: supplies_def list_all_iff supplied)
    moreover have "total_payload (states_of provider n) \<le> size_max"
      using checkpoint_payload_Some(2) [OF p] checkpoint_payload_bound [OF p] by (simp add: states_of_def)
    ultimately show False using that by simp
  qed
  then have "\<not> valid \<or> checkpoint_payload_bytes provider [0..<n] 0 = None" using False by auto
  then have "encode_checkpoint_artifact m n (Some provider) max_bytes out =
      (invalid_argument, out, empty_write_result)"
    unfolding encode_checkpoint_artifact_def valid_def by auto
  then show ?thesis using False enc by (auto simp: empty_write_result_def)
next
  case True
  then have states: "\<forall>i \<in> set [0..<n]. \<exists>s. provider 0 i = Some s \<and> state_ok s"
    by (simp add: supplies_def list_all_iff supplied)
  have pay: "checkpoint_payload_bytes provider [0..<n] 0 = Some (total_payload (states_of provider n))"
    using checkpoint_payload_complete [of "[0..<n]" provider 0] states True by (simp add: states_of_def)
  have n: "n \<le> 1048576" and mb: "max_bytes \<le> 1073741824"
    using True arguments_bounds unfolding valid_def by blast+
  show ?thesis
  proof (cases "artifact_required 256 88 n (total_payload (states_of provider n))")
    case None
    then have "encode_checkpoint_artifact m n (Some provider) max_bytes out =
        (capacity_exceeded, out, empty_write_result)"
      using True pay unfolding encode_checkpoint_artifact_def valid_def
      by (simp add: checkpoint_header_size_def checkpoint_record_header_size_def)
    moreover have "size_max < needed" "min max_bytes (length out) < needed"
      using artifact_required_None [OF None n] mb by (simp_all add: needed_def size_max_def)
    ultimately show ?thesis using enc True by (simp add: empty_write_result_def)
  next
    case (Some q)
    have q: "q = needed" using artifact_required_Some [OF Some] by (simp add: needed_def)
    have "\<not> encodable m n provider max_bytes out"
      using encodable_encodes [OF _ agree] enc fail by fastforce
    then have short: "needed > max_bytes \<or> length out < needed"
      using True by (auto simp: encodable_def valid_def supplies_def list_all_iff needed_def)
    then have "encode_checkpoint_artifact m n (Some provider) max_bytes out =
        (capacity_exceeded, out, empty_write_result\<lparr>required_bytes := needed\<rparr>)"
      using True pay Some unfolding encode_checkpoint_artifact_def valid_def q
      by (simp add: checkpoint_header_size_def checkpoint_record_header_size_def)
    moreover have "needed \<le> size_max"
      using artifact_required_bound [OF Some] by (simp add: q size_max_def)
    moreover have "min max_bytes (length out) < needed" using short by auto
    ultimately show ?thesis using enc True by (simp add: empty_write_result_def)
  qed
qed

theorem encode_checkpoint_failure_witness:
  "case encode_checkpoint_artifact sample_metadata 2 (Some sample_provider) 512 (replicate 300 0) of
     (st, out', res) \<Rightarrow> st = capacity_exceeded \<and> out' = replicate 300 0 \<and> required_bytes res = 440"
proof -
  let ?out = "replicate 300 (0 :: u8)"
  obtain st out' res where enc:
    "encode_checkpoint_artifact sample_metadata 2 (Some sample_provider) 512 ?out = (st, out', res)"
    by (metis prod.collapse)
  have total: "total_payload [sample_state, sample_state] = 8"
    by (simp add: total_payload_def sample_payload)
  have "st \<noteq> ok"
    using encode_checkpoint_layout(5) [of sample_metadata 2 sample_provider 512 ?out out' res] enc sample_agree total
    by auto
  moreover have "list_all (\<lambda>i. case sample_provider 0 i of None \<Rightarrow> False | Some s \<Rightarrow> state_ok s) [0..<2]"
    by (simp add: sample_provider_def list_all_iff)
  ultimately show ?thesis
    using encode_checkpoint_failure [OF enc _ sample_agree] enc total by (simp add: size_max_def)
qed

section \<open>Round trips\<close>

lemma encode_then_parse:
  assumes enc: "encode_checkpoint_artifact m n (Some provider) max_bytes out = (ok, out', res)"
    and agree: "provider 1 = provider 0"
    and ids: "length (cm_build_id m) = 64" "length (cm_workload_id m) = 64"
    and max: "n \<le> max_states" "max_states \<le> 1048576"
  defines "ss \<equiv> states_of provider n"
  shows "parse_checkpoint_artifact (take (bytes_written res) out') max_bytes max_states =
      (if padded (cm_build_id m) \<and> padded (cm_workload_id m)
       then Some (m\<lparr>cm_schema_version := checkpoint_schema_version,
         cm_state_payload_bytes := word_of_nat (total_payload ss),
         cm_total_bytes := word_of_nat (bytes_written res),
         cm_state_hash := artifact_checksum (records_bytes ss),
         cm_artifact_checksum := result_checksum res, cm_state_count := word_of_nat n\<rparr>)
       else None)"
    and "take (bytes_written res) out' = checkpoint_bytes m ss"
    and "drop (bytes_written res) out' = drop (bytes_written res) out"
proof -
  note lay = encode_checkpoint_layout [OF enc agree ids, folded ss_def]
  have len: "length (checkpoint_bytes m ss) = 256 + n * 88 + total_payload ss"
    unfolding checkpoint_bytes_def using length_checkpoint_layout [OF ids lay(1)] lay(2) by simp
  have br: "bytes_written res = 256 + n * 88 + total_payload ss"
    "result_checksum res = layout_checksum m ss" using lay(7) by simp_all
  show tk: "take (bytes_written res) out' = checkpoint_bytes m ss"
    and "drop (bytes_written res) out' = drop (bytes_written res) out"
    using lay(6) len br(1) by simp_all
  have args: "valid_identifier (identifier_view (cm_build_id m))"
    "valid_identifier (identifier_view (cm_workload_id m))" "valid_tier (ucast (cm_determinism_tier m))"
    using lay(3) by (simp_all add: checkpoint_arguments_invalid_def)
  have "max_bytes \<le> 1073741824" using arguments_bounds [OF lay(3)] by simp
  then show "parse_checkpoint_artifact (take (bytes_written res) out') max_bytes max_states =
      (if padded (cm_build_id m) \<and> padded (cm_workload_id m)
       then Some (m\<lparr>cm_schema_version := checkpoint_schema_version,
         cm_state_payload_bytes := word_of_nat (total_payload ss),
         cm_total_bytes := word_of_nat (bytes_written res),
         cm_state_hash := artifact_checksum (records_bytes ss),
         cm_artifact_checksum := result_checksum res, cm_state_count := word_of_nat n\<rparr>)
       else None)"
    unfolding tk using parse_checkpoint_bytes [OF ids args lay(1), of max_bytes max_states] lay(2,4) max br
    by (simp add: parsed_metadata_def)
qed

text \<open>
  C12. What was encoded is what is parsed.  Parsing the written bytes under the same byte limit gives
  the metadata that was encoded with the counts, sizes and checksums filled in; the record cursor then
  reads exactly the states the callback supplied, and the bytes of the output behind the artifact are
  those that were there before.  The two identifier arrays are zero behind their terminators.
\<close>

theorem checkpoint_roundtrip:
  assumes enc: "encode_checkpoint_artifact m n (Some provider) max_bytes out = (ok, out', res)"
    and agree: "provider 1 = provider 0"
    and ids: "length (cm_build_id m) = replay_identifier_capacity" "padded (cm_build_id m)"
      "length (cm_workload_id m) = replay_identifier_capacity" "padded (cm_workload_id m)"
    and max: "n \<le> max_states" "max_states \<le> artifact_absolute_max_records"
  shows "\<exists>md. parse_checkpoint_artifact (take (bytes_written res) out') max_bytes max_states = Some md \<and>
    md = m\<lparr>cm_schema_version := checkpoint_schema_version, cm_state_payload_bytes := cm_state_payload_bytes md,
      cm_total_bytes := word_of_nat (bytes_written res), cm_state_hash := cm_state_hash md,
      cm_artifact_checksum := result_checksum res, cm_state_count := word_of_nat n\<rparr> \<and>
    read_records next_checkpoint_record (Suc n) (take (bytes_written res) out') md
      \<lparr>cursor_offset = checkpoint_header_size, cursor_index = 0\<rparr> = states_of provider n \<and>
    drop (bytes_written res) out' = drop (bytes_written res) out"
proof -
  have l: "length (cm_build_id m) = 64" "length (cm_workload_id m) = 64" "max_states \<le> 1048576"
    using ids max by (simp_all add: replay_identifier_capacity_def artifact_absolute_max_records_def)
  note rt = encode_then_parse [OF enc agree l(1,2) max(1) l(3)]
  note lay = encode_checkpoint_layout [OF enc agree l(1,2)]
  let ?ss = "states_of provider n" and ?A = "take (bytes_written res) out'"
  have A: "?A = header_bytes m (length ?ss) (total_payload ?ss) (256 + length ?ss * 88 + total_payload ?ss)
      (le64 (artifact_checksum (records_bytes ?ss))) (le64 (layout_checksum m ?ss)) @ records_bytes ?ss"
    unfolding rt(2) checkpoint_bytes_def checkpoint_layout_def ..
  have small: "length ?A \<le> 1073741824" "n \<le> 1048576"
    using length_checkpoint_layout [OF l(1,2) lay(1)] lay(2,4) arguments_bounds [OF lay(3)]
    unfolding rt(2) checkpoint_bytes_def by simp_all
  have "read_records next_checkpoint_record (Suc n) ?A md \<lparr>cursor_offset = 256, cursor_index = 0\<rparr> = ?ss"
    if "cm_state_count md = word_of_nat n" for md
    using checkpoint_cursor.read_layout [OF lay(1) A [unfolded records_bytes_def], of 0 md "Suc n"]
      length_header [OF l(1,2)] small that lay(2)
    by (simp add: word32_small artifact_absolute_max_bytes_def)
  then show ?thesis
    using rt(1,3) ids(2,4) by (simp add: checkpoint_header_size_def)
qed

lemma sample_padded [simp]: "padded (cm_build_id sample_metadata)" "padded (cm_workload_id sample_metadata)"
  using sample_identifiers by (simp_all add: padded_def sample_metadata_def identifier_view_pad)

lemma sample_encode:
  obtains out' res where
    "encode_checkpoint_artifact sample_metadata 2 (Some sample_provider) 512 (replicate 500 0) = (ok, out', res)"
  using encodable_encodes [OF sample_encodable sample_agree] that by (auto simp: fst_ok)

theorem checkpoint_roundtrip_witness:
  "case encode_checkpoint_artifact sample_metadata 2 (Some sample_provider) 512 (replicate 500 0) of
     (st, out', res) \<Rightarrow> st = ok \<and>
       (\<exists>md. parse_checkpoint_artifact (take (bytes_written res) out') 512 2 = Some md \<and>
         read_records next_checkpoint_record 3 (take (bytes_written res) out') md
           \<lparr>cursor_offset = checkpoint_header_size, cursor_index = 0\<rparr> = [sample_state, sample_state])"
proof -
  obtain out' res where enc:
    "encode_checkpoint_artifact sample_metadata 2 (Some sample_provider) 512 (replicate 500 0) = (ok, out', res)"
    by (rule sample_encode)
  have "Suc 2 = (3 :: nat)" by simp
  then show ?thesis
    using checkpoint_roundtrip [OF enc sample_agree, of 2] enc
    by (auto simp: replay_identifier_capacity_def artifact_absolute_max_records_def)
qed

text \<open>
  C13. The encoder checks an identifier array only up to its terminator but writes all its bytes, and
  the parser insists that the bytes behind the terminator are zero.  An encoding that succeeds with a
  nonzero byte behind the terminator of the build or the workload identifier is an artifact that the
  parser rejects.
\<close>

theorem checkpoint_unpadded_identifier_rejected:
  assumes enc: "encode_checkpoint_artifact m n (Some provider) max_bytes out = (ok, out', res)"
    and agree: "provider 1 = provider 0"
    and ids: "length (cm_build_id m) = replay_identifier_capacity"
      "length (cm_workload_id m) = replay_identifier_capacity"
    and tail: "\<not> (padded (cm_build_id m) \<and> padded (cm_workload_id m))"
  shows "parse_checkpoint_artifact (take (bytes_written res) out') max_bytes artifact_absolute_max_records = None"
proof -
  have "n \<le> 1048576"
    using encode_checkpoint_layout(3) [OF enc agree] ids arguments_bounds
    by (auto simp: replay_identifier_capacity_def)
  then show ?thesis
    using encode_then_parse(1) [OF enc agree, of artifact_absolute_max_records] ids tail
    by (simp add: replay_identifier_capacity_def artifact_absolute_max_records_def)
qed

definition unpadded_metadata :: checkpoint_metadata where
  "unpadded_metadata = sample_metadata\<lparr>cm_build_id := 0x62 # 0 # 1 # replicate 61 0\<rparr>"

lemma unpadded_encodable: "encodable unpadded_metadata 2 sample_provider 512 (replicate 500 0)"
proof -
  have "valid_identifier [0x62]"
    by (simp add: valid_identifier_def replay_identifier_capacity_def identifier_character_def)
  then have "\<not> checkpoint_arguments_invalid unpadded_metadata 2 (Some sample_provider) 512"
    using sample_arguments unfolding checkpoint_arguments_invalid_def
    by (simp add: unpadded_metadata_def) (simp add: identifier_view_def)
  then show ?thesis using sample_encodable by (simp add: encodable_def)
qed

theorem checkpoint_unpadded_identifier_rejected_witness:
  "case encode_checkpoint_artifact unpadded_metadata 2 (Some sample_provider) 512 (replicate 500 0) of
     (st, out', res) \<Rightarrow> st = ok \<and>
       parse_checkpoint_artifact (take (bytes_written res) out') 512 artifact_absolute_max_records = None"
proof -
  obtain out' res where enc:
    "encode_checkpoint_artifact unpadded_metadata 2 (Some sample_provider) 512 (replicate 500 0) = (ok, out', res)"
    using encodable_encodes [OF unpadded_encodable sample_agree] by (auto simp: fst_ok)
  have "replicate 63 (0 :: u8) = 0 # 0 # replicate 61 0" by (simp add: numeral_eq_Suc)
  then have "\<not> padded (cm_build_id unpadded_metadata)"
    by (simp add: padded_def unpadded_metadata_def identifier_view_def pad_identifier_def)
  then show ?thesis
    using checkpoint_unpadded_identifier_rejected [OF enc sample_agree] enc
    by (simp add: unpadded_metadata_def replay_identifier_capacity_def)
qed

text \<open>
  C14. The format is canonical.  The record cursor reads every record of an accepted artifact, and
  encoding the parsed metadata with these records reproduces the artifact byte for byte.
\<close>

theorem checkpoint_canonical:
  assumes parse: "parse_checkpoint_artifact A max_bytes max_states = Some m"
  defines "ss \<equiv> read_records next_checkpoint_record (Suc (unat (cm_state_count m))) A m
      \<lparr>cursor_offset = checkpoint_header_size, cursor_index = 0\<rparr>"
  shows "length ss = unat (cm_state_count m) \<and>
    encode_checkpoint_artifact m (length ss) (Some (\<lambda>pass i. Some (ss ! i))) max_bytes A =
      (ok, A, \<lparr>required_bytes = length A, bytes_written = length A,
        result_checksum = cm_artifact_checksum m\<rparr>)"
proof -
  obtain ss0 where ss0: "length ss0 = unat (cm_state_count m)" "\<forall>s \<in> set ss0. state_ok s"
    "A = checkpoint_bytes m ss0" "layout_checksum m ss0 = cm_artifact_checksum m"
    using parse_checkpoint_Some [OF parse] by blast
  note head = parse_header_Some [OF accepted_header [OF parse]]
  have ids: "length (cm_build_id m) = 64" "length (cm_workload_id m) = 64"
    "valid_identifier (identifier_view (cm_build_id m))"
    "valid_identifier (identifier_view (cm_workload_id m))"
    using head(10,11) identifier_view_pad by auto
  have len: "length A = 256 + length ss0 * 88 + total_payload ss0"
    using length_checkpoint_layout [OF ids(1,2) ss0(2)] by (simp add: ss0(3) checkpoint_bytes_def)
  have small: "length A \<le> 1073741824" using head(2,3) by simp
  have "ss = ss0"
    unfolding ss_def checkpoint_header_size_def
    using checkpoint_cursor.read_layout [OF ss0(2), of A "take 256 A" 0 m "Suc (length ss0)"] ss0 small len
      length_header [OF ids(1,2)]
    by (simp add: checkpoint_bytes_def checkpoint_layout_def records_bytes_def artifact_absolute_max_bytes_def)
  let ?p = "\<lambda>(pass :: nat) i. Some (ss0 ! i)"
  have states: "states_of ?p (length ss0) = ss0" by (simp add: states_of_def map_nth)
  have "encodable m (length ss0) ?p max_bytes A"
    unfolding encodable_def states using ids head(1-5,9) ss0(1,2) len
    by (simp add: checkpoint_arguments_invalid_def artifact_absolute_max_bytes_def
        artifact_absolute_max_records_def checkpoint_header_size_def)
  then obtain out' res where
    enc: "encode_checkpoint_artifact m (length ss0) (Some ?p) max_bytes A = (ok, out', res)"
    using encodable_encodes by (fastforce simp: fst_ok)
  have "out' = A" "res = \<lparr>required_bytes = length A, bytes_written = length A,
      result_checksum = cm_artifact_checksum m\<rparr>"
    using encode_checkpoint_layout(6,7) [OF enc _ ids(1,2)] ss0(3,4) len by (simp_all add: states)
  then show ?thesis using enc ss0(1) \<open>ss = ss0\<close> by simp
qed

definition sample_artifact :: bytes where
  "sample_artifact = checkpoint_bytes sample_metadata [sample_state, sample_state]"

lemma sample_parses:
  obtains m where "parse_checkpoint_artifact sample_artifact 512 2 = Some m" and "cm_state_count m = 2"
proof -
  have "valid_tier (ucast (cm_determinism_tier sample_metadata))"
    using sample_arguments by (simp add: checkpoint_arguments_invalid_def)
  then show ?thesis
    using that parse_checkpoint_bytes [of sample_metadata "[sample_state, sample_state]" 512 2] sample_identifiers
    by (simp add: sample_artifact_def total_payload_def sample_payload parsed_metadata_def)
qed

theorem checkpoint_canonical_witness:
  "\<exists>m. parse_checkpoint_artifact sample_artifact 512 2 = Some m \<and>
     length (read_records next_checkpoint_record 3 sample_artifact m
       \<lparr>cursor_offset = checkpoint_header_size, cursor_index = 0\<rparr>) = 2"
proof -
  obtain m where m: "parse_checkpoint_artifact sample_artifact 512 2 = Some m" "cm_state_count m = 2"
    by (rule sample_parses)
  have "Suc 2 = (3 :: nat)" by simp
  then show ?thesis using checkpoint_canonical [OF m(1)] m by auto
qed

text \<open>
  C15. No corruption of a single byte goes unnoticed: changing any byte of an accepted artifact, the
  stored checksums included, makes the parser reject it.
\<close>

theorem checkpoint_corruption_detected:
  assumes parse: "parse_checkpoint_artifact A max_bytes max_states = Some m"
    and change: "i < length A" "b \<noteq> A ! i"
  shows "parse_checkpoint_artifact (A[i := b]) max_bytes' max_states' = None"
  using checkpoint_seal.corruption_rejected [of "(max_bytes, max_states)" A m i b "(max_bytes', max_states')"]
    assms by simp

theorem checkpoint_corruption_detected_witness:
  "parse_checkpoint_artifact sample_artifact 512 2 \<noteq> None \<and>
   parse_checkpoint_artifact (sample_artifact[0 := 0]) 512 2 = None"
proof -
  obtain m where m: "parse_checkpoint_artifact sample_artifact 512 2 = Some m" by (rule sample_parses)
  have "sample_artifact ! 0 = 0x52" "0 < length sample_artifact"
    by (simp_all add: sample_artifact_def checkpoint_bytes_def checkpoint_layout_def header_bytes_def
        kCheckpointMagic_def)
  then show ?thesis using checkpoint_corruption_detected [OF m, of 0 0 512 2] m by simp
qed

end
