(* ===== verification/Input_Log.thy ===== *)
theory Input_Log
  imports Artifact_Streams
begin

text \<open>
  The input log artifact of \<^verbatim>\<open>rt/src/snapshot_codec.cpp\<close>: its encoder, parser and record cursor.  The
  frame time step is a signed 64-bit count of nanoseconds, kept as its two's complement word.
  A rejected artifact is None, as for checkpoints.
\<close>

section \<open>Constants and data\<close>

definition input_log_schema_version :: u32 where "input_log_schema_version = 1"
definition input_log_header_size :: nat where "input_log_header_size = 192"
definition input_log_record_header_size :: nat where "input_log_record_header_size = 48"
definition kInputLogChecksumOffset :: nat where "kInputLogChecksumOffset = 80"
definition nanoseconds_max :: u64 where "nanoseconds_max = 9223372036854775807"

definition kInputLogMagic :: bytes where
  "kInputLogMagic = [0x52, 0x54, 0x46, 0x57, 0x49, 0x4C, 0x31, 0]"

record host_frame_context =
  frame_index :: u64
  frame_delta :: u64
  deadline_ns :: "u64 option"
  nominal_release_ns :: "u64 option"

record replay_input_record =
  input_frame :: host_frame_context
  input_type :: u32
  input_payload :: bytes

record input_log_metadata =
  il_schema_version :: u32
  il_runtime_version_major :: u32
  il_runtime_version_minor :: u32
  il_runtime_version_patch :: u32
  il_determinism_tier :: determinism_tier
  il_replay_id :: u64
  il_state_schema_id :: u64
  il_payload_bytes :: u64
  il_total_bytes :: u64
  il_artifact_checksum :: u64
  il_first_frame_index :: u64
  il_last_frame_index :: u64
  il_record_count :: u32
  il_workload_id :: bytes

type_synonym input_log_record_cursor = checkpoint_record_cursor

text \<open>The frame of the i-th record.\<close>

abbreviation record_frame :: "replay_input_record \<Rightarrow> u64" where
  "record_frame r \<equiv> frame_index (input_frame r)"

section \<open>Encoding\<close>

definition input_log_arguments_invalid ::
  "input_log_metadata \<Rightarrow> replay_input_record list \<Rightarrow> nat \<Rightarrow> nat \<Rightarrow> bool" where
  "input_log_arguments_invalid metadata records max_records max_bytes \<longleftrightarrow>
     length records > max_records \<or> length records > artifact_absolute_max_records \<or>
     length records > 4294967295 \<or> max_records > artifact_absolute_max_records \<or>
     max_bytes > artifact_absolute_max_bytes \<or> max_bytes < input_log_header_size \<or>
     \<not> valid_tier (ucast (il_determinism_tier metadata)) \<or>
     \<not> valid_identifier (identifier_view (il_workload_id metadata))"

text \<open>The previous frame is None before the first record.\<close>

fun input_log_payload_bytes :: "replay_input_record list \<Rightarrow> u64 option \<Rightarrow> nat \<Rightarrow> nat option" where
  "input_log_payload_bytes [] previous_frame payload_bytes = Some payload_bytes"
| "input_log_payload_bytes (r # records) previous_frame payload_bytes =
     (if sint (frame_delta (input_frame r)) < 0 \<or> length (input_payload r) > 4294967295 \<or>
         (case previous_frame of None \<Rightarrow> False | Some p \<Rightarrow> record_frame r \<le> p)
      then None
      else case checked_artifact_add payload_bytes (length (input_payload r)) of
             None \<Rightarrow> None
           | Some payload_bytes' \<Rightarrow> input_log_payload_bytes records (Some (record_frame r)) payload_bytes')"

definition write_input_log_header ::
  "input_log_metadata \<Rightarrow> replay_input_record list \<Rightarrow> nat \<Rightarrow> nat \<Rightarrow> bytes \<Rightarrow> bytes" where
  "write_input_log_header metadata records payload_bytes required artifact0 =
     (let artifact = put 0 kInputLogMagic artifact0;
          artifact = store32 8 input_log_schema_version artifact;
          artifact = store32 12 (word_of_nat input_log_header_size) artifact;
          artifact = store32 16 (il_runtime_version_major metadata) artifact;
          artifact = store32 20 (il_runtime_version_minor metadata) artifact;
          artifact = store32 24 (il_runtime_version_patch metadata) artifact;
          artifact = store32 28 (ucast (il_determinism_tier metadata)) artifact;
          artifact = store32 36 (word_of_nat (length records)) artifact;
          artifact = store32 40 (word_of_nat input_log_record_header_size) artifact;
          artifact = store64 48 (il_replay_id metadata) artifact;
          artifact = store64 56 (il_state_schema_id metadata) artifact;
          artifact = store64 64 (word_of_nat payload_bytes) artifact;
          artifact = store64 72 (word_of_nat required) artifact;
          artifact = (if records = [] then artifact
                      else store64 96 (record_frame (last records))
                             (store64 88 (record_frame (hd records)) artifact))
      in write_identifier_array artifact 104 (il_workload_id metadata))"

definition write_input_log_record :: "replay_input_record \<Rightarrow> nat \<Rightarrow> bytes \<Rightarrow> bytes" where
  "write_input_log_record r offset artifact0 =
     (let frame = input_frame r;
          artifact = store64 offset (frame_index frame) artifact0;
          artifact = store64 (offset + 8) (frame_delta frame) artifact;
          artifact = store64 (offset + 16) (case deadline_ns frame of None \<Rightarrow> 0 | Some d \<Rightarrow> d) artifact;
          artifact = store32 (offset + 24) (input_type r) artifact;
          artifact = store32 (offset + 28) (word_of_nat (length (input_payload r))) artifact;
          artifact = store32 (offset + 32) (if deadline_ns frame \<noteq> None then 1 else 0) artifact;
          artifact = store64 (offset + 40) (artifact_checksum (input_payload r)) artifact
      in if input_payload r \<noteq> []
         then put (offset + input_log_record_header_size) (input_payload r) artifact else artifact)"

fun write_input_log_records :: "replay_input_record list \<Rightarrow> nat \<Rightarrow> bytes \<Rightarrow> bytes" where
  "write_input_log_records [] offset artifact = artifact"
| "write_input_log_records (r # records) offset artifact =
     write_input_log_records records
       (offset + input_log_record_header_size + length (input_payload r))
       (write_input_log_record r offset artifact)"

definition seal_input_log :: "bytes \<Rightarrow> bytes \<times> u64" where
  "seal_input_log artifact =
     (let checksum = checksum_excluding artifact kInputLogChecksumOffset 8
      in (store64 kInputLogChecksumOffset checksum artifact, checksum))"

definition encode_input_log_artifact ::
  "input_log_metadata \<Rightarrow> replay_input_record list \<Rightarrow> nat \<Rightarrow> nat \<Rightarrow> bytes \<Rightarrow>
     status \<times> bytes \<times> artifact_write_result" where
  "encode_input_log_artifact metadata records max_records max_bytes output =
     (if input_log_arguments_invalid metadata records max_records max_bytes
      then (invalid_argument, output, empty_write_result)
      else case input_log_payload_bytes records None 0 of
             None \<Rightarrow> (invalid_argument, output, empty_write_result)
           | Some payload_bytes \<Rightarrow>
          (case artifact_required input_log_header_size input_log_record_header_size (length records)
                  payload_bytes of
             None \<Rightarrow> (capacity_exceeded, output, empty_write_result)
           | Some required \<Rightarrow>
               if required > max_bytes \<or> length output < required
               then (capacity_exceeded, output, empty_write_result\<lparr>required_bytes := required\<rparr>)
               else case seal_input_log
                      (write_input_log_records records input_log_header_size
                        (write_input_log_header metadata records payload_bytes required
                          (replicate required 0))) of
                      (sealed, checksum) \<Rightarrow>
                        (ok, sealed @ drop required output,
                         \<lparr>required_bytes = required, bytes_written = required,
                          result_checksum = checksum\<rparr>)))"

section \<open>Parsing\<close>

definition parse_input_log_header :: "bytes \<Rightarrow> nat \<Rightarrow> nat \<Rightarrow> input_log_metadata option" where
  "parse_input_log_header artifact max_bytes max_records =
     do { require (\<not> (max_bytes > artifact_absolute_max_bytes \<or> max_records > artifact_absolute_max_records \<or>
            length artifact < input_log_header_size \<or> length artifact > max_bytes \<or>
            \<not> magic_matches artifact kInputLogMagic));
          schema \<leftarrow> load_u32_le artifact 8;
          header_size \<leftarrow> load_u32_le artifact 12;
          major \<leftarrow> load_u32_le artifact 16;
          minor \<leftarrow> load_u32_le artifact 20;
          patch \<leftarrow> load_u32_le artifact 24;
          tier \<leftarrow> load_u32_le artifact 28;
          flags \<leftarrow> load_u32_le artifact 32;
          record_count \<leftarrow> load_u32_le artifact 36;
          record_size \<leftarrow> load_u32_le artifact 40;
          reserved \<leftarrow> load_u32_le artifact 44;
          replay_id \<leftarrow> load_u64_le artifact 48;
          state_schema_id \<leftarrow> load_u64_le artifact 56;
          payload_bytes \<leftarrow> load_u64_le artifact 64;
          total_bytes \<leftarrow> load_u64_le artifact 72;
          checksum \<leftarrow> load_u64_le artifact kInputLogChecksumOffset;
          first_frame \<leftarrow> load_u64_le artifact 88;
          last_frame \<leftarrow> load_u64_le artifact 96;
          workload_id \<leftarrow> fixed_identifier artifact 104;
          require (\<not> (schema \<noteq> input_log_schema_version \<or> unat header_size \<noteq> input_log_header_size \<or>
            unat record_size \<noteq> input_log_record_header_size \<or> flags \<noteq> 0 \<or> reserved \<noteq> 0 \<or>
            \<not> bytes_zero artifact 168 24 \<or> \<not> valid_tier tier \<or> unat record_count > max_records \<or>
            unat total_bytes \<noteq> length artifact \<or> unat payload_bytes > max_bytes));
          Some \<lparr>il_schema_version = schema, il_runtime_version_major = major,
                il_runtime_version_minor = minor, il_runtime_version_patch = patch,
                il_determinism_tier = ucast tier, il_replay_id = replay_id,
                il_state_schema_id = state_schema_id, il_payload_bytes = payload_bytes,
                il_total_bytes = total_bytes, il_artifact_checksum = checksum,
                il_first_frame_index = first_frame, il_last_frame_index = last_frame,
                il_record_count = record_count, il_workload_id = workload_id\<rparr> }"

text \<open>The state of the record loop: the payload total and the frame of the previous record.\<close>

definition parse_input_log_record ::
  "bytes \<Rightarrow> nat \<Rightarrow> nat \<times> u64 option \<Rightarrow> (nat \<times> nat \<times> u64 option) option" where
  "parse_input_log_record artifact offset st =
     (case st of (payload_total, previous_frame) \<Rightarrow>
      do { require (\<not> (offset > length artifact \<or> length artifact - offset < input_log_record_header_size));
           frame \<leftarrow> load_u64_le artifact offset;
           delta \<leftarrow> load_u64_le artifact (offset + 8);
           deadline \<leftarrow> load_u64_le artifact (offset + 16);
           kind \<leftarrow> load_u32_le artifact (offset + 24);
           payload_size \<leftarrow> load_u32_le artifact (offset + 28);
           record_flags \<leftarrow> load_u32_le artifact (offset + 32);
           record_reserved \<leftarrow> load_u32_le artifact (offset + 36);
           payload_checksum \<leftarrow> load_u64_le artifact (offset + 40);
           require (\<not> (delta > nanoseconds_max \<or> (record_flags AND (NOT 1)) \<noteq> 0 \<or> record_reserved \<noteq> 0 \<or>
             ((record_flags AND 1) = 0 \<and> deadline \<noteq> 0) \<or>
             (case previous_frame of None \<Rightarrow> False | Some p \<Rightarrow> frame \<le> p)));
           let offset' = offset + input_log_record_header_size;
           require (\<not> (unat payload_size > length artifact - offset'));
           payload_total' \<leftarrow> checked_artifact_add payload_total (unat payload_size);
           require (artifact_checksum (slice offset' (unat payload_size) artifact) = payload_checksum);
           Some (offset' + unat payload_size, payload_total', Some frame) })"

fun parse_input_log_records ::
  "bytes \<Rightarrow> nat \<Rightarrow> nat \<Rightarrow> nat \<times> u64 option \<Rightarrow> (nat \<times> nat \<times> u64 option) option" where
  "parse_input_log_records artifact 0 offset st = Some (offset, st)"
| "parse_input_log_records artifact (Suc remaining) offset st =
     do { (offset', st') \<leftarrow> parse_input_log_record artifact offset st;
          parse_input_log_records artifact remaining offset' st' }"

definition parse_input_log_artifact :: "bytes \<Rightarrow> nat \<Rightarrow> nat \<Rightarrow> input_log_metadata option" where
  "parse_input_log_artifact artifact max_bytes max_records =
     do { metadata \<leftarrow> parse_input_log_header artifact max_bytes max_records;
          require (checksum_excluding artifact kInputLogChecksumOffset 8 = il_artifact_checksum metadata);
          (offset, payload_total, previous_frame) \<leftarrow>
            parse_input_log_records artifact (unat (il_record_count metadata)) input_log_header_size (0, None);
          require (\<not> (offset \<noteq> length artifact \<or> payload_total \<noteq> unat (il_payload_bytes metadata) \<or>
            (il_record_count metadata = 0 \<and>
              (il_first_frame_index metadata \<noteq> 0 \<or> il_last_frame_index metadata \<noteq> 0)) \<or>
            (il_record_count metadata \<noteq> 0 \<and>
              (il_first_frame_index metadata > il_last_frame_index metadata \<or>
               previous_frame \<noteq> Some (il_last_frame_index metadata)))));
          require (il_record_count metadata = 0 \<or>
            load_u64_le artifact input_log_header_size = Some (il_first_frame_index metadata));
          Some metadata }"

definition inspect_input_log_artifact :: "bytes \<Rightarrow> input_log_metadata option" where
  "inspect_input_log_artifact artifact =
     parse_input_log_artifact artifact artifact_absolute_max_bytes artifact_absolute_max_records"

section \<open>Reading records\<close>

definition empty_frame :: host_frame_context where
  "empty_frame = \<lparr>frame_index = 0, frame_delta = 0, deadline_ns = None, nominal_release_ns = None\<rparr>"

definition empty_input_view :: replay_input_record where
  "empty_input_view = \<lparr>input_frame = empty_frame, input_type = 0, input_payload = []\<rparr>"

text \<open>
  A step of the cursor returns whether it found a record, the cursor and the view.  Its loads are
  inside the bounds the step has checked; a load that failed would end it like a failed check.
\<close>

definition next_input_log_record ::
  "bytes \<Rightarrow> input_log_metadata \<Rightarrow> input_log_record_cursor \<Rightarrow>
     bool \<times> input_log_record_cursor \<times> replay_input_record" where
  "next_input_log_record artifact metadata cursor =
     (let offset = cursor_offset cursor in
      if cursor_index cursor \<ge> il_record_count metadata \<or> offset > length artifact \<or>
         length artifact - offset < input_log_record_header_size
      then (False, cursor, empty_input_view)
      else case (load_u64_le artifact offset, load_u64_le artifact (offset + 8),
                 load_u64_le artifact (offset + 16), load_u32_le artifact (offset + 24),
                 load_u32_le artifact (offset + 28), load_u32_le artifact (offset + 32),
                 load_u32_le artifact (offset + 36), load_u64_le artifact (offset + 40)) of
        (Some frame, Some delta, Some deadline, Some kind, Some payload_size, Some flags, Some reserved,
         Some payload_checksum) \<Rightarrow>
          let view = empty_input_view\<lparr>input_frame := empty_frame\<lparr>frame_index := frame\<rparr>, input_type := kind\<rparr> in
          if flags > 1 \<or> reserved \<noteq> 0 \<or> delta > nanoseconds_max then (False, cursor, view)
          else let view = view\<lparr>input_frame := empty_frame\<lparr>frame_index := frame, frame_delta := delta,
                     deadline_ns := (if (flags AND 1) \<noteq> 0 then Some deadline else None)\<rparr>\<rparr>;
                   offset' = offset + input_log_record_header_size; size = unat payload_size in
            if size > length artifact - offset'
            then (False, cursor\<lparr>cursor_offset := offset'\<rparr>, view)
            else let payload = slice offset' size artifact in
              (artifact_checksum payload = payload_checksum,
               \<lparr>cursor_offset = offset' + size, cursor_index = cursor_index cursor + 1\<rparr>,
               view\<lparr>input_payload := payload\<rparr>)
      | _ \<Rightarrow> (False, cursor, empty_input_view))"

end
