(* ===== verification/Input_Log_Layout.thy ===== *)
theory Input_Log_Layout
  imports Input_Log Checkpoint_Parsing
begin

text \<open>
  The layout of an encoded input log, and that the parser and the cursor read it.
\<close>

section \<open>Words\<close>

lemma delta_nonnegative: "sint (w :: u64) < 0 \<longleftrightarrow> w > nanoseconds_max"
proof -
  have "sint w < 0 \<longleftrightarrow> bit w 63" using bit_last_iff [of w] by simp
  also have "\<dots> \<longleftrightarrow> bit (unat w) 63" by (simp add: bit_unsigned_iff)
  also have "\<dots> \<longleftrightarrow> odd (unat w div 2 ^ 63)" by (rule bit_iff_odd)
  also have "\<dots> \<longleftrightarrow> unat w \<ge> 2 ^ 63"
  proof -
    have "unat w div 2 ^ 63 < 2" using unat_u64_less [of w] by (simp add: less_mult_imp_div_less)
    then have "odd (unat w div 2 ^ 63) \<longleftrightarrow> unat w div 2 ^ 63 > 0" by (cases "unat w div 2 ^ 63") auto
    then show ?thesis by (simp add: div_greater_zero_iff)
  qed
  finally show ?thesis by (auto simp: nanoseconds_max_def word_less_nat_alt)
qed

lemma flag_only: "(f :: u32) AND NOT 1 = 0 \<longleftrightarrow> f = 0 \<or> f = 1"
proof
  assume "f AND NOT 1 = 0"
  then have high: "\<not> bit f n" if "0 < n" for n
    using that bit_and_iff [of f "NOT 1" n] by (cases "n < 32") (auto simp: bit_not_iff dest: bit_imp_le_length)
  have "bit f n \<longleftrightarrow> bit (if bit f 0 then 1 else 0 :: u32) n" for n
    using high [of n] by (cases "n = 0") (auto simp: bit_1_iff)
  then have "f = (if bit f 0 then 1 else 0)" by (intro bit_word_eqI) blast
  then show "f = 0 \<or> f = 1" by (cases "bit f 0") auto
qed auto

lemma flag_only': "(f :: u32) AND - 2 = 0 \<longleftrightarrow> f = 0 \<or> f = 1"
  using flag_only [of f] by simp

section \<open>Records\<close>

definition log_record_bytes :: "replay_input_record \<Rightarrow> bytes" where
  "log_record_bytes r =
     le64 (record_frame r) @ le64 (frame_delta (input_frame r)) @
     le64 (case deadline_ns (input_frame r) of None \<Rightarrow> 0 | Some d \<Rightarrow> d) @ le32 (input_type r) @
     le32 (word_of_nat (length (input_payload r))) @
     le32 (if deadline_ns (input_frame r) \<noteq> None then 1 else 0) @ replicate 4 0 @
     le64 (artifact_checksum (input_payload r)) @ input_payload r"

definition log_record_ok :: "replay_input_record \<Rightarrow> bool" where
  "log_record_ok r \<longleftrightarrow> \<not> sint (frame_delta (input_frame r)) < 0 \<and> length (input_payload r) \<le> 4294967295"

text \<open>What the loops accept in the state of a payload total and a previous frame.\<close>

definition log_accepts :: "nat \<times> u64 option \<Rightarrow> replay_input_record \<Rightarrow> bool" where
  "log_accepts st r \<longleftrightarrow> log_record_ok r \<and>
     (length (input_payload r) = 0 \<or> fst st + length (input_payload r) \<le> size_max) \<and>
     (case snd st of None \<Rightarrow> True | Some p \<Rightarrow> p < record_frame r)"

definition log_step :: "nat \<times> u64 option \<Rightarrow> replay_input_record \<Rightarrow> nat \<times> u64 option" where
  "log_step st r = (fst st + length (input_payload r), Some (record_frame r))"

text \<open>A record as the cursor sees it: the nominal release is not part of the log.\<close>

definition log_view :: "replay_input_record \<Rightarrow> replay_input_record" where
  "log_view r = r\<lparr>input_frame := (input_frame r)\<lparr>nominal_release_ns := None\<rparr>\<rparr>"

lemma length_log_record: "length (log_record_bytes r) = 48 + length (input_payload r)"
  by (simp add: log_record_bytes_def)

lemma log_record_fields:
  assumes A: "A = pre @ log_record_bytes r @ post" "length pre = off"
  shows "load_u64_le A off = Some (record_frame r)"
    and "load_u64_le A (off + 8) = Some (frame_delta (input_frame r))"
    and "load_u64_le A (off + 16) = Some (case deadline_ns (input_frame r) of None \<Rightarrow> 0 | Some d \<Rightarrow> d)"
    and "load_u32_le A (off + 24) = Some (input_type r)"
    and "load_u32_le A (off + 28) = Some (word_of_nat (length (input_payload r)))"
    and "load_u32_le A (off + 32) = Some (if deadline_ns (input_frame r) \<noteq> None then 1 else 0)"
    and "load_u32_le A (off + 36) = Some 0"
    and "load_u64_le A (off + 40) = Some (artifact_checksum (input_payload r))"
    and "slice (off + 48) (length (input_payload r)) A = input_payload r"
proof -
  have len: "length A = off + 48 + length (input_payload r) + length post"
    using A length_log_record by simp
  show "load_u64_le A off = Some (record_frame r)"
    "load_u64_le A (off + 8) = Some (frame_delta (input_frame r))"
    "load_u64_le A (off + 16) = Some (case deadline_ns (input_frame r) of None \<Rightarrow> 0 | Some d \<Rightarrow> d)"
    "load_u32_le A (off + 24) = Some (input_type r)"
    "load_u32_le A (off + 28) = Some (word_of_nat (length (input_payload r)))"
    "load_u32_le A (off + 32) = Some (if deadline_ns (input_frame r) \<noteq> None then 1 else 0)"
    "load_u32_le A (off + 36) = Some 0"
    "load_u64_le A (off + 40) = Some (artifact_checksum (input_payload r))"
    "slice (off + 48) (length (input_payload r)) A = input_payload r"
    using len by (simp_all only: load_u32_slice load_u64_slice)
      (use A in \<open>simp_all add: log_record_bytes_def block_simps\<close>)
qed

lemma log_record_parses:
  assumes acc: "log_accepts st r" and A: "A = pre @ log_record_bytes r @ post" "length pre = off"
    and size: "length A \<le> artifact_absolute_max_bytes"
  shows "parse_input_log_record A off st = Some (off + length (log_record_bytes r), log_step st r)"
proof -
  have len: "length A = off + 48 + length (input_payload r) + length post"
    using A length_log_record by simp
  have pay: "unat (word_of_nat (length (input_payload r)) :: u32) = length (input_payload r)"
    using acc by (simp add: unat_of_nat_u32 log_accepts_def log_record_ok_def)
  have "checked_artifact_add (fst st) (length (input_payload r)) = Some (fst st + length (input_payload r))"
    using acc by (auto simp: checked_artifact_add_Some log_accepts_def)
  then show ?thesis
    using log_record_fields [OF A] acc len pay length_log_record
    by (cases st) (auto simp: parse_input_log_record_def input_log_record_header_size_def log_accepts_def
        log_record_ok_def log_step_def delta_nonnegative not_less flag_only' not_le split: option.splits)
qed

lemma log_record_Some:
  assumes parse: "parse_input_log_record A off st = Some (off', st')"
    and size: "length A \<le> artifact_absolute_max_bytes"
  shows "\<exists>r. log_accepts st r \<and> nominal_release_ns (input_frame r) = None \<and>
    drop off A = log_record_bytes r @ drop off' A \<and> off' \<le> length A \<and> st' = log_step st r"
proof -
  from parse have room: "off + 48 \<le> length A"
    by (auto simp: parse_input_log_record_def input_log_record_header_size_def split: if_splits prod.splits)
  let ?n = "unat (un32 (slice (off + 28) 4 A))"
  let ?f = "un32 (slice (off + 32) 4 A)"
  from parse room have f: "\<not> un64 (slice (off + 8) 8 A) > nanoseconds_max" "?f = 0 \<or> ?f = 1"
      "?f AND 1 \<noteq> 0 \<or> un64 (slice (off + 16) 8 A) = 0"
      "un32 (slice (off + 36) 4 A) = 0" "?n \<le> length A - (off + 48)"
      "artifact_checksum (slice (off + 48) ?n A) = un64 (slice (off + 40) 8 A)"
      "case snd st of None \<Rightarrow> True | Some p \<Rightarrow> p < un64 (slice off 8 A)"
      "?n = 0 \<or> fst st + ?n \<le> size_max"
    and res: "off' = off + 48 + ?n" "st' = (fst st + ?n, Some (un64 (slice off 8 A)))"
    by (auto simp: parse_input_log_record_def load_u32_slice load_u64_slice bind_eq_Some_conv flag_only'
        input_log_record_header_size_def checked_artifact_add_Some Let_def not_le
        split: if_splits prod.splits option.splits)
  define d where "d = (if ?f = 1 then Some (un64 (slice (off + 16) 8 A)) else None)"
  let ?r = "\<lparr>input_frame = \<lparr>frame_index = un64 (slice off 8 A), frame_delta = un64 (slice (off + 8) 8 A),
      deadline_ns = d, nominal_release_ns = None\<rparr>,
    input_type = un32 (slice (off + 24) 4 A), input_payload = slice (off + 48) ?n A\<rparr>"
  have len: "length (slice (off + 48) ?n A) = ?n" using room f(5) by simp
  have "log_accepts st ?r"
    using f(1,7,8) len unat_u32_less [of "un32 (slice (off + 28) 4 A)"]
    by (cases "snd st") (simp_all add: log_accepts_def log_record_ok_def delta_nonnegative)
  moreover have "log_record_bytes ?r = slice off 8 A @ slice (off + 8) 8 A @ slice (off + 16) 8 A @
      slice (off + 24) 4 A @ slice (off + 28) 4 A @ slice (off + 32) 4 A @ slice (off + 36) 4 A @
      slice (off + 40) 8 A @ slice (off + 48) ?n A"
  proof -
    have "le64 (case d of None \<Rightarrow> 0 | Some d \<Rightarrow> d) = slice (off + 16) 8 A"
      "le32 (if d \<noteq> None then 1 else 0) = slice (off + 32) 4 A"
      unfolding d_def using f(2,3) room by (auto intro!: le_slice)
    then show ?thesis
      using len room zero32_slice [OF _ f(4)] unfolding log_record_bytes_def by (simp add: f(6))
  qed
  then have "log_record_bytes ?r @ drop off' A = drop off A"
    by (simp add: res slice_drop)
  ultimately show ?thesis using res len f(5) room by (intro exI [of _ ?r]) (simp add: log_step_def)
qed

interpretation log_records: record_parser log_record_bytes log_accepts log_step
  parse_input_log_record parse_input_log_records
proof (unfold_locales, goal_cases)
  case (3 st r pre post)
  then show ?case using log_record_parses [of st r _ pre post] by simp
next
  case (4 A off st off' st')
  then show ?case using log_record_Some [of A off st off' st'] by blast
qed (simp_all add: case_prod_beta')

section \<open>The cursor\<close>

lemma next_log_record_layout:
  assumes r: "log_record_ok r" and A: "A = pre @ log_record_bytes r @ post" "length pre = off"
    and idx: "idx < il_record_count m"
  shows "next_input_log_record A m \<lparr>cursor_offset = off, cursor_index = idx\<rparr> =
    (True, \<lparr>cursor_offset = off + length (log_record_bytes r), cursor_index = idx + 1\<rparr>, log_view r)"
proof -
  have len: "length A = off + 48 + length (input_payload r) + length post"
    using A length_log_record by simp
  have pay: "unat (word_of_nat (length (input_payload r)) :: u32) = length (input_payload r)"
    using r by (simp add: unat_of_nat_u32 log_record_ok_def)
  have delta: "\<not> frame_delta (input_frame r) > nanoseconds_max"
    using r by (simp add: log_record_ok_def delta_nonnegative)
  show ?thesis
    using len pay idx delta length_log_record [of r]
    by (simp add: next_input_log_record_def Let_def input_log_record_header_size_def not_le
        log_record_fields [OF A] empty_input_view_def empty_frame_def log_view_def split: option.split)
qed

interpretation log_cursor: record_cursor log_record_bytes log_record_ok log_view il_record_count
  next_input_log_record
proof (unfold_locales, goal_cases)
  case (1 r pre post i m)
  then show ?case using next_log_record_layout [of r _ pre post] by simp
next
  case (2 m i A off)
  then show ?case by (simp add: next_input_log_record_def)
qed

section \<open>Sequences of records\<close>

definition log_payload :: "replay_input_record list \<Rightarrow> nat" where
  "log_payload rs = (\<Sum>r\<leftarrow>rs. length (input_payload r))"

definition log_records_bytes :: "replay_input_record list \<Rightarrow> bytes" where
  "log_records_bytes rs = concat (map log_record_bytes rs)"

text \<open>Well-formed sequences: nonnegative time steps, bounded payloads, strictly increasing frames.\<close>

definition log_ok :: "replay_input_record list \<Rightarrow> bool" where
  "log_ok rs \<longleftrightarrow> list_all log_record_ok rs \<and> sorted_wrt (<) (map record_frame rs)"

lemma length_log_records: "length (log_records_bytes rs) = length rs * 48 + log_payload rs"
  by (induction rs) (auto simp: log_records_bytes_def log_payload_def length_log_record)

lemma log_step_pair: "log_step (tot, p) r = (tot + length (input_payload r), Some (record_frame r))"
  by (simp add: log_step_def)

lemma foldl_log_step:
  "foldl log_step (tot, p) rs =
     (tot + log_payload rs, if rs = [] then p else Some (record_frame (last rs)))"
  by (induction rs arbitrary: tot p) (auto simp: log_payload_def log_step_def)

lemma log_accepted:
  "all_accepted log_accepts log_step (tot, p) rs \<longleftrightarrow>
     log_ok rs \<and> (log_payload rs = 0 \<or> tot + log_payload rs \<le> size_max) \<and>
     (case p of None \<Rightarrow> True | Some f \<Rightarrow> \<forall>r \<in> set rs. f < record_frame r)"
proof (induction rs arbitrary: tot p)
  case Nil
  then show ?case by (simp add: log_ok_def log_payload_def split: option.split)
next
  case (Cons r rs)
  have pay: "log_payload (r # rs) = length (input_payload r) + log_payload rs" by (simp add: log_payload_def)
  have "all_accepted log_accepts log_step (tot, p) (r # rs) \<longleftrightarrow>
      log_accepts (tot, p) r \<and> all_accepted log_accepts log_step (log_step (tot, p) r) rs" by simp
  also have "\<dots> \<longleftrightarrow> log_accepts (tot, p) r \<and> log_ok rs \<and>
      (log_payload rs = 0 \<or> tot + length (input_payload r) + log_payload rs \<le> size_max) \<and>
      (\<forall>r' \<in> set rs. record_frame r < record_frame r')"
    unfolding log_step_pair by (simp add: Cons.IH)
  also have "\<dots> \<longleftrightarrow> log_ok (r # rs) \<and> (log_payload (r # rs) = 0 \<or> tot + log_payload (r # rs) \<le> size_max) \<and>
      (case p of None \<Rightarrow> True | Some f \<Rightarrow> \<forall>r' \<in> set (r # rs). f < record_frame r')"
    unfolding pay log_accepts_def log_ok_def by (cases p) auto
  finally show ?case .
qed

text \<open>The loop that validates and measures the records of the encoder accepts the same sequences.\<close>

lemma input_log_payload:
  "input_log_payload_bytes rs p tot =
     (if all_accepted log_accepts log_step (tot, p) rs then Some (tot + log_payload rs) else None)"
proof (induction rs arbitrary: tot p)
  case Nil
  then show ?case by (simp add: log_payload_def)
next
  case (Cons r rs)
  have acc: "log_accepts (tot, p) r \<longleftrightarrow>
      \<not> (sint (frame_delta (input_frame r)) < 0 \<or> length (input_payload r) > 4294967295 \<or>
         (case p of None \<Rightarrow> False | Some f \<Rightarrow> record_frame r \<le> f)) \<and>
      checked_artifact_add tot (length (input_payload r)) \<noteq> None"
    using checked_artifact_add_Some [of tot "length (input_payload r)"]
    by (cases p) (auto simp: log_accepts_def log_record_ok_def not_le)
  have "checked_artifact_add tot (length (input_payload r)) = Some c \<Longrightarrow> c = tot + length (input_payload r)" for c
    by (simp add: checked_artifact_add_Some)
  then show ?case
    using Cons.IH acc
    by (auto simp: log_payload_def log_step_pair split: option.split)
qed

end
