(* ===== verification/Input_Log_Artifacts.thy ===== *)
theory Input_Log_Artifacts
  imports Input_Log_Layout Checkpoint_Canonical
begin

text \<open>
  Whole input log artifacts: what the encoder writes, what the parser accepts and that the two agree.
\<close>

section \<open>The header\<close>

definition log_header ::
  "input_log_metadata \<Rightarrow> nat \<Rightarrow> nat \<Rightarrow> nat \<Rightarrow> bytes \<Rightarrow> u64 \<Rightarrow> u64 \<Rightarrow> bytes" where
  "log_header m n pb req c first_frame last_frame =
     kInputLogMagic @ le32 input_log_schema_version @ le32 (word_of_nat input_log_header_size) @
     le32 (il_runtime_version_major m) @ le32 (il_runtime_version_minor m) @
     le32 (il_runtime_version_patch m) @ le32 (ucast (il_determinism_tier m)) @ replicate 4 0 @
     le32 (word_of_nat n) @ le32 (word_of_nat input_log_record_header_size) @ replicate 4 0 @
     le64 (il_replay_id m) @ le64 (il_state_schema_id m) @ le64 (word_of_nat pb) @ le64 (word_of_nat req) @
     c @ le64 first_frame @ le64 last_frame @ il_workload_id m @ replicate 24 0"

definition first_frame :: "replay_input_record list \<Rightarrow> u64" where
  "first_frame rs = (if rs = [] then 0 else record_frame (hd rs))"

definition last_frame :: "replay_input_record list \<Rightarrow> u64" where
  "last_frame rs = (if rs = [] then 0 else record_frame (last rs))"

lemma length_log_magic [simp]: "length kInputLogMagic = 8"
  by (simp add: kInputLogMagic_def)

lemma length_log_header:
  "length (il_workload_id m) = 64 \<Longrightarrow> length c = 8 \<Longrightarrow> length (log_header m n pb req c f l) = 192"
  by (simp add: log_header_def)

lemma le64_0: "le64 0 = replicate 8 0"
  by (simp add: le64_def numeral_eq_Suc)

lemma write_log_header_zeros:
  assumes "length (il_workload_id m) = 64"
  shows "write_input_log_header m rs pb req (replicate (192 + k) 0) =
    log_header m (length rs) pb req (replicate 8 0) (first_frame rs) (last_frame rs) @ replicate k 0"
proof -
  have zeros: "replicate (192 + k) (0 :: u8) =
      replicate 8 0 @ replicate 4 0 @ replicate 4 0 @ replicate 4 0 @ replicate 4 0 @ replicate 4 0 @
      replicate 4 0 @ replicate 4 0 @ replicate 4 0 @ replicate 4 0 @ replicate 4 0 @
      replicate 8 0 @ replicate 8 0 @ replicate 8 0 @ replicate 8 0 @ replicate 8 0 @ replicate 8 0 @
      replicate 8 0 @ replicate 64 0 @ replicate 24 0 @ replicate k 0"
    by (simp flip: replicate_add)
  show ?thesis
    unfolding zeros write_input_log_header_def Let_def log_header_def write_identifier_array_def
    using assms by (cases "rs = []") (simp_all add: store_put block_simps first_frame_def last_frame_def le64_0)
qed

section \<open>Writing records\<close>

lemma write_log_record_zeros:
  assumes "length pre = offset"
  shows "write_input_log_record r offset (pre @ replicate (48 + length (input_payload r)) 0 @ post) =
    pre @ log_record_bytes r @ post"
proof -
  have zeros: "replicate (48 + length (input_payload r)) (0 :: u8) =
      replicate 8 0 @ replicate 8 0 @ replicate 8 0 @ replicate 4 0 @ replicate 4 0 @ replicate 4 0 @
      replicate 4 0 @ replicate 8 0 @ replicate (length (input_payload r)) 0"
    by (simp flip: replicate_add)
  show ?thesis
    unfolding zeros write_input_log_record_def Let_def log_record_bytes_def
    using assms by (cases "input_payload r = []")
      (simp_all add: store_put block_simps input_log_record_header_size_def)
qed

lemma write_log_records_zeros:
  assumes "length pre = offset"
  shows "write_input_log_records rs offset (pre @ replicate (length rs * 48 + log_payload rs) 0) =
    pre @ log_records_bytes rs"
  using assms
proof (induction rs arbitrary: pre offset)
  case Nil
  then show ?case by (simp add: log_records_bytes_def log_payload_def)
next
  case (Cons r rs)
  let ?m = "length rs * 48 + log_payload rs"
  have n: "replicate (length (r # rs) * 48 + log_payload (r # rs)) (0 :: u8) =
      replicate (48 + length (input_payload r)) 0 @ replicate ?m 0"
    by (simp add: log_payload_def flip: replicate_add)
  have "write_input_log_record r offset (pre @ replicate (length (r # rs) * 48 + log_payload (r # rs)) 0) =
      (pre @ log_record_bytes r) @ replicate ?m 0"
    unfolding n using write_log_record_zeros [OF Cons.prems] by simp
  then show ?case
    using Cons.IH [of "pre @ log_record_bytes r"] Cons.prems length_log_record [of r]
    by (simp add: input_log_record_header_size_def log_records_bytes_def add.assoc)
qed

section \<open>Encoding\<close>

definition log_layout :: "input_log_metadata \<Rightarrow> replay_input_record list \<Rightarrow> bytes \<Rightarrow> bytes" where
  "log_layout m rs c =
     log_header m (length rs) (log_payload rs) (192 + length rs * 48 + log_payload rs) c
       (first_frame rs) (last_frame rs) @ log_records_bytes rs"

definition log_checksum :: "input_log_metadata \<Rightarrow> replay_input_record list \<Rightarrow> u64" where
  "log_checksum m rs = checksum_excluding (log_layout m rs (replicate 8 0)) 80 8"

definition log_bytes :: "input_log_metadata \<Rightarrow> replay_input_record list \<Rightarrow> bytes" where
  "log_bytes m rs = log_layout m rs (le64 (log_checksum m rs))"

lemma put_log_checksum:
  assumes "length (il_workload_id m) = 64" and "length c = 8" and "length c' = 8"
  shows "put 80 c' (log_layout m rs c) = log_layout m rs c'"
  using assms by (simp add: log_layout_def log_header_def block_simps)

lemma length_log_layout:
  assumes "length (il_workload_id m) = 64" and "length c = 8"
  shows "length (log_layout m rs c) = 192 + length rs * 48 + log_payload rs"
  unfolding log_layout_def using length_log_header [OF assms] length_log_records by simp

lemma seal_log:
  assumes "length (il_workload_id m) = 64"
  shows "seal_input_log (log_layout m rs (replicate 8 0)) = (log_bytes m rs, log_checksum m rs)"
  using put_log_checksum [OF assms] length_log_layout [OF assms]
  by (simp add: seal_input_log_def Let_def store_put log_bytes_def log_checksum_def
      kInputLogChecksumOffset_def)

lemma log_arguments_bounds:
  "\<not> input_log_arguments_invalid m rs max_records max_bytes \<Longrightarrow>
     length rs \<le> 1048576 \<and> max_bytes \<le> 1073741824 \<and> max_records \<le> 1048576 \<and> length rs \<le> max_records"
  by (simp add: input_log_arguments_invalid_def artifact_absolute_max_bytes_def
      artifact_absolute_max_records_def)

lemma log_required:
  assumes "length rs \<le> 1048576"
  shows "artifact_required 192 48 (length rs) p =
    (if 192 + length rs * 48 + p \<le> size_max then Some (192 + length rs * 48 + p) else None)"
proof -
  have "length rs * 48 \<le> size_max" "192 + length rs * 48 \<le> size_max" using assms by (simp_all add: size_max_def)
  then have "checked_artifact_multiply (length rs) 48 = Some (length rs * 48)"
    "checked_artifact_add 192 (length rs * 48) = Some (192 + length rs * 48)"
    by (simp_all only: checked_artifact_add_Some checked_artifact_multiply_Some) simp_all
  then show ?thesis using \<open>192 + length rs * 48 \<le> size_max\<close>
    by (auto simp: artifact_required_def checked_artifact_add_def)
qed

text \<open>The encoder as a decision over its arguments.\<close>

lemma encode_log_cases:
  assumes ids: "length (il_workload_id m) = 64"
    and needed_def: "needed = 192 + length rs * 48 + log_payload rs"
  shows "encode_input_log_artifact m rs max_records max_bytes out =
    (if input_log_arguments_invalid m rs max_records max_bytes \<or> \<not> log_ok rs \<or> size_max < log_payload rs
     then (invalid_argument, out, empty_write_result)
     else if size_max < needed then (capacity_exceeded, out, empty_write_result)
     else if min max_bytes (length out) < needed
     then (capacity_exceeded, out, empty_write_result\<lparr>required_bytes := needed\<rparr>)
     else (ok, log_bytes m rs @ drop needed out,
       \<lparr>required_bytes = needed, bytes_written = needed, result_checksum = log_checksum m rs\<rparr>))"
proof (cases "input_log_arguments_invalid m rs max_records max_bytes")
  case True
  then show ?thesis by (simp add: encode_input_log_artifact_def)
next
  case False
  note bounds = log_arguments_bounds [OF False]
  have pay: "input_log_payload_bytes rs None 0 =
      (if log_ok rs \<and> log_payload rs \<le> size_max then Some (log_payload rs) else None)"
    by (auto simp: input_log_payload log_accepted)
  have req: "artifact_required 192 48 (length rs) (log_payload rs) =
      (if needed \<le> size_max then Some needed else None)"
    using log_required [of rs] bounds by (simp add: needed_def)
  have wr: "write_input_log_records rs 192 (write_input_log_header m rs (log_payload rs) needed (replicate needed 0))
      = log_layout m rs (replicate 8 0)"
    using write_log_header_zeros [OF ids, of rs "log_payload rs" needed "length rs * 48 + log_payload rs"]
      write_log_records_zeros length_log_header [OF ids]
    by (simp add: needed_def log_layout_def add.assoc)
  show ?thesis
    using False pay req wr seal_log [OF ids]
    by (auto simp: encode_input_log_artifact_def input_log_header_size_def input_log_record_header_size_def)
qed

section \<open>Parsing headers\<close>

lemma log_header_slices:
  "take 8 A @ slice 8 4 A @ slice 12 4 A @ slice 16 4 A @ slice 20 4 A @ slice 24 4 A @ slice 28 4 A @
   slice 32 4 A @ slice 36 4 A @ slice 40 4 A @ slice 44 4 A @ slice 48 8 A @ slice 56 8 A @ slice 64 8 A @
   slice 72 8 A @ slice 80 8 A @ slice 88 8 A @ slice 96 8 A @ slice 104 64 A @ slice 168 24 A @ drop 192 A = A"
  by (simp add: slice_drop)

definition log_parsed ::
  "input_log_metadata \<Rightarrow> nat \<Rightarrow> nat \<Rightarrow> nat \<Rightarrow> u64 \<Rightarrow> u64 \<Rightarrow> u64 \<Rightarrow> input_log_metadata" where
  "log_parsed m n pb req c f l =
     m\<lparr>il_schema_version := input_log_schema_version, il_payload_bytes := word_of_nat pb,
       il_total_bytes := word_of_nat req, il_artifact_checksum := c, il_first_frame_index := f,
       il_last_frame_index := l, il_record_count := word_of_nat n\<rparr>"

lemma log_header_fields:
  assumes id: "length (il_workload_id m) = 64" and c: "length c = 8"
    and A_def: "A = log_header m n pb req c f l @ r"
  shows "load_u32_le A 8 = Some input_log_schema_version"
    and "load_u32_le A 12 = Some (word_of_nat input_log_header_size)"
    and "load_u32_le A 16 = Some (il_runtime_version_major m)"
    and "load_u32_le A 20 = Some (il_runtime_version_minor m)"
    and "load_u32_le A 24 = Some (il_runtime_version_patch m)"
    and "load_u32_le A 28 = Some (ucast (il_determinism_tier m))"
    and "load_u32_le A 32 = Some 0"
    and "load_u32_le A 36 = Some (word_of_nat n)"
    and "load_u32_le A 40 = Some (word_of_nat input_log_record_header_size)"
    and "load_u32_le A 44 = Some 0"
    and "load_u64_le A 48 = Some (il_replay_id m)"
    and "load_u64_le A 56 = Some (il_state_schema_id m)"
    and "load_u64_le A 64 = Some (word_of_nat pb)"
    and "load_u64_le A 72 = Some (word_of_nat req)"
    and "load_u64_le A 80 = Some (un64 c)"
    and "load_u64_le A 88 = Some f"
    and "load_u64_le A 96 = Some l"
proof -
  note A = A_def log_header_def
  have len: "length A = 192 + length r" unfolding A_def using length_log_header [OF id c] by simp
  have l32: "load_u32_le A off = Some (un32 (slice off 4 A))" if "off \<le> 188" for off
    using that by (simp add: load_u32_slice len)
  have l64: "load_u64_le A off = Some (un64 (slice off 8 A))" if "off \<le> 184" for off
    using that by (simp add: load_u64_slice len)
  show "load_u32_le A 8 = Some input_log_schema_version"
    and "load_u32_le A 12 = Some (word_of_nat input_log_header_size)"
    and "load_u32_le A 16 = Some (il_runtime_version_major m)"
    and "load_u32_le A 20 = Some (il_runtime_version_minor m)"
    and "load_u32_le A 24 = Some (il_runtime_version_patch m)"
    and "load_u32_le A 28 = Some (ucast (il_determinism_tier m))"
    and "load_u32_le A 32 = Some 0"
    and "load_u32_le A 36 = Some (word_of_nat n)"
    and "load_u32_le A 40 = Some (word_of_nat input_log_record_header_size)"
    and "load_u32_le A 44 = Some 0"
    and "load_u64_le A 48 = Some (il_replay_id m)"
    and "load_u64_le A 56 = Some (il_state_schema_id m)"
    and "load_u64_le A 64 = Some (word_of_nat pb)"
    and "load_u64_le A 72 = Some (word_of_nat req)"
    and "load_u64_le A 80 = Some (un64 c)"
    and "load_u64_le A 88 = Some f"
    and "load_u64_le A 96 = Some l"
    using c by (simp_all add: l32 l64) (simp_all add: A block_simps)
qed

lemma parse_log_header:
  assumes id: "length (il_workload_id m) = 64" and c: "length c = 8"
    and view: "valid_identifier (identifier_view (il_workload_id m))"
    and tier: "valid_tier (ucast (il_determinism_tier m))"
    and A: "A = log_header m n pb req c f l @ r" "length A = req"
    and max: "req \<le> max_bytes" "max_bytes \<le> 1073741824" "n \<le> max_records" "max_records \<le> 1048576"
      "pb \<le> max_bytes"
  shows "parse_input_log_header A max_bytes max_records =
    (if padded (il_workload_id m) then Some (log_parsed m n pb req (un64 c) f l) else None)"
proof -
  note fields = log_header_fields [OF id c A(1)]
  have size: "192 \<le> length A" unfolding A(1) using length_log_header [OF id c] by simp
  have words: "unat (word_of_nat n :: u32) = n" "unat (word_of_nat req :: u64) = req"
    "unat (word_of_nat pb :: u64) = pb"
    using max by (simp_all add: word32_small word64_small)
  have split: "A = take 104 A @ il_workload_id m @ drop 168 A" "length (take 104 A) = 104"
    using id c size by (simp_all add: A(1) log_header_def)
  have ident: "fixed_identifier A 104 = (if padded (il_workload_id m) then Some (il_workload_id m) else None)"
    using fixed_identifier_field [OF split(2) id view, of "drop 168 A"] split(1) by simp
  have tail: "A = take 168 A @ replicate 24 0 @ r" "length (take 168 A) = 168"
    using id c size by (simp_all add: A(1) log_header_def)
  have zero: "bytes_zero A 168 24" using bytes_zero_field [OF tail(2), of 24 r] tail(1) by simp
  have magic: "magic_matches A kInputLogMagic"
    using size by (simp add: magic_matches_def) (simp add: A(1) log_header_def)
  show ?thesis
    using size max A(2) tier words
    by (simp add: parse_input_log_header_def fields ident zero magic artifact_absolute_max_bytes_def
        artifact_absolute_max_records_def input_log_header_size_def kInputLogChecksumOffset_def
        input_log_record_header_size_def log_parsed_def ucast_tier)
qed

lemma parse_log_header_Some:
  assumes "parse_input_log_header A max_bytes max_records = Some m"
  shows "192 \<le> length A" and "length A \<le> max_bytes" and "max_bytes \<le> 1073741824"
    and "max_records \<le> 1048576" and "unat (il_record_count m) \<le> max_records"
    and "unat (il_total_bytes m) = length A" and "il_schema_version m = input_log_schema_version"
    and "il_artifact_checksum m = un64 (slice 80 8 A)"
    and "valid_tier (ucast (il_determinism_tier m))"
    and "\<exists>v. il_workload_id m = pad_identifier v \<and> valid_identifier v"
    and "A = log_header m (unat (il_record_count m)) (unat (il_payload_bytes m)) (length A)
      (le64 (il_artifact_checksum m)) (il_first_frame_index m) (il_last_frame_index m) @ drop 192 A"
proof -
  show size: "192 \<le> length A" and "length A \<le> max_bytes" and "max_bytes \<le> 1073741824"
    and "max_records \<le> 1048576"
    using assms by (auto simp: parse_input_log_header_def artifact_absolute_max_bytes_def
        artifact_absolute_max_records_def input_log_header_size_def split: if_splits)
  have id: "fixed_identifier A 104 = Some a \<longleftrightarrow>
      a = slice 104 64 A \<and> (\<exists>v. a = pad_identifier v \<and> valid_identifier v)" for a
    using size by (intro fixed_identifier_Some) simp
  from assms size have fields:
      "m = \<lparr>il_schema_version = un32 (slice 8 4 A), il_runtime_version_major = un32 (slice 16 4 A),
        il_runtime_version_minor = un32 (slice 20 4 A), il_runtime_version_patch = un32 (slice 24 4 A),
        il_determinism_tier = ucast (un32 (slice 28 4 A)), il_replay_id = un64 (slice 48 8 A),
        il_state_schema_id = un64 (slice 56 8 A), il_payload_bytes = un64 (slice 64 8 A),
        il_total_bytes = un64 (slice 72 8 A), il_artifact_checksum = un64 (slice 80 8 A),
        il_first_frame_index = un64 (slice 88 8 A), il_last_frame_index = un64 (slice 96 8 A),
        il_record_count = un32 (slice 36 4 A), il_workload_id = slice 104 64 A\<rparr>"
    and ident: "fixed_identifier A 104 = Some (slice 104 64 A)"
    and checks: "un32 (slice 8 4 A) = input_log_schema_version" "unat (un32 (slice 12 4 A)) = 192"
      "unat (un32 (slice 40 4 A)) = 48" "un32 (slice 32 4 A) = 0" "un32 (slice 44 4 A) = 0"
      "bytes_zero A 168 24" "valid_tier (un32 (slice 28 4 A))" "unat (un32 (slice 36 4 A)) \<le> max_records"
      "unat (un64 (slice 72 8 A)) = length A" and magic: "take 8 A = kInputLogMagic"
    by (auto simp: parse_input_log_header_def load_u32_slice load_u64_slice bind_eq_Some_conv id
        input_log_header_size_def input_log_record_header_size_def kInputLogChecksumOffset_def
        magic_matches_def split: if_splits)
  show "unat (il_record_count m) \<le> max_records" "unat (il_total_bytes m) = length A"
    "il_schema_version m = input_log_schema_version" "il_artifact_checksum m = un64 (slice 80 8 A)"
    "valid_tier (ucast (il_determinism_tier m))"
    using checks ucast_small_tier [OF checks(7)] unfolding fields by simp_all
  show "\<exists>v. il_workload_id m = pad_identifier v \<and> valid_identifier v"
    using ident unfolding fields by (simp add: id)
  have zeros: "slice 32 4 A = replicate 4 0" "slice 44 4 A = replicate 4 0" "slice 168 24 A = replicate 24 0"
    using zero32_slice [OF _ checks(4)] zero32_slice [OF _ checks(5)] bytes_zero_slice [OF checks(6)] size
    by simp_all
  have words: "input_log_schema_version = un32 (slice 8 4 A)" "word_of_nat 192 = un32 (slice 12 4 A)"
      "word_of_nat 48 = un32 (slice 40 4 A)" "word_of_nat (length A) = un64 (slice 72 8 A)"
      "ucast (ucast (un32 (slice 28 4 A)) :: u8) = un32 (slice 28 4 A)"
    using checks(1) arg_cong [OF checks(2), of "word_of_nat :: nat \<Rightarrow> u32"]
      arg_cong [OF checks(3), of "word_of_nat :: nat \<Rightarrow> u32"]
      arg_cong [OF checks(9), of "word_of_nat :: nat \<Rightarrow> u64"] ucast_small_tier [OF checks(7)] by simp_all
  show "A = log_header m (unat (il_record_count m)) (unat (il_payload_bytes m)) (length A)
      (le64 (il_artifact_checksum m)) (il_first_frame_index m) (il_last_frame_index m) @ drop 192 A"
    using log_header_slices [of A] size
    unfolding log_header_def fields input_log_header_size_def input_log_record_header_size_def words
    by (simp add: zeros magic words(5))
qed

end
