(* ===== verification/Input_Log_Codec.thy ===== *)
theory Input_Log_Codec
  imports Input_Log_Artifacts
begin

text \<open>
  What the input log codec promises, in both directions.
\<close>

section \<open>Parsing artifacts\<close>

lemma first_last_frame: "log_ok rs \<Longrightarrow> first_frame rs \<le> last_frame rs"
  by (cases rs) (auto simp: log_ok_def first_frame_def last_frame_def intro: less_imp_le)

lemma load_first_frame:
  assumes "A = pre @ log_records_bytes rs" and "length pre = 192" and "rs \<noteq> []"
  shows "load_u64_le A 192 = Some (first_frame rs)"
  using assms log_record_fields(1) [of A pre "hd rs" "log_records_bytes (tl rs)" 192]
  by (cases rs) (simp_all add: log_records_bytes_def first_frame_def)

lemma log_count_zero: "length rs \<le> 1048576 \<Longrightarrow> (word_of_nat (length rs) :: u32) = 0 \<longleftrightarrow> rs = []"
  using word32_small [of "length rs"] unat_eq_zero [of "word_of_nat (length rs) :: u32"] by auto

lemma checksum_log_bytes:
  assumes "length (il_workload_id m) = 64"
  shows "checksum_excluding (log_bytes m rs) 80 8 = log_checksum m rs"
proof -
  have "log_bytes m rs = put 80 (le64 (log_checksum m rs)) (log_layout m rs (replicate 8 0))"
    unfolding log_bytes_def by (rule put_log_checksum [symmetric]) (simp_all add: assms)
  then show ?thesis
    using checksum_excluding_put [of "le64 (log_checksum m rs)" 8 80 "log_layout m rs (replicate 8 0)"]
      length_log_layout [OF assms] by (simp add: log_checksum_def)
qed

lemma parse_log_bytes:
  assumes id: "length (il_workload_id m) = 64" "valid_identifier (identifier_view (il_workload_id m))"
    and tier: "valid_tier (ucast (il_determinism_tier m))" and rs: "log_ok rs"
    and max: "192 + length rs * 48 + log_payload rs \<le> max_bytes" "max_bytes \<le> 1073741824"
      "length rs \<le> max_records" "max_records \<le> 1048576"
  shows "parse_input_log_artifact (log_bytes m rs) max_bytes max_records =
    (if padded (il_workload_id m)
     then Some (log_parsed m (length rs) (log_payload rs) (192 + length rs * 48 + log_payload rs)
       (log_checksum m rs) (first_frame rs) (last_frame rs))
     else None)"
proof -
  let ?A = "log_bytes m rs" and ?q = "192 + length rs * 48 + log_payload rs"
  let ?c = "le64 (log_checksum m rs)"
  let ?H = "log_header m (length rs) (log_payload rs) ?q ?c (first_frame rs) (last_frame rs)"
  have A: "?A = ?H @ log_records_bytes rs" by (simp add: log_bytes_def log_layout_def)
  have len: "length ?A = ?q" using length_log_layout [OF id(1)] by (simp add: log_bytes_def)
  have hl: "length ?H = 192" using length_log_header [OF id(1)] by simp
  have head: "parse_input_log_header ?A max_bytes max_records =
      (if padded (il_workload_id m)
       then Some (log_parsed m (length rs) (log_payload rs) ?q (log_checksum m rs) (first_frame rs) (last_frame rs))
       else None)"
    using parse_log_header [OF id(1) _ id(2) tier A len, of max_bytes max_records] max by simp
  have "log_payload rs \<le> size_max" using max by (simp add: size_max_def)
  then have recs: "parse_input_log_records ?A (length rs) 192 (0, None) =
      Some (?q, log_payload rs, if rs = [] then None else Some (last_frame rs))"
    using log_records.many_layout [of "(0, None)" rs ?A ?H] rs len max A hl
    by (simp add: log_accepted foldl_log_step artifact_absolute_max_bytes_def last_frame_def
        flip: log_records_bytes_def)
  have words: "unat (word_of_nat (length rs) :: u32) = length rs"
    "unat (word_of_nat (log_payload rs) :: u64) = log_payload rs"
    using max by (simp_all add: word32_small word64_small)
  have zero: "(word_of_nat (length rs) :: u32) = 0 \<longleftrightarrow> rs = []" by (rule log_count_zero) (use max in simp)
  show ?thesis
  proof (cases "rs = []")
    case True
    then show ?thesis
      using head recs len checksum_log_bytes [OF id(1), of rs]
      by (simp add: parse_input_log_artifact_def log_parsed_def kInputLogChecksumOffset_def
          input_log_header_size_def first_frame_def last_frame_def log_payload_def)
  next
    case False
    then show ?thesis
      using head recs len checksum_log_bytes [OF id(1), of rs] words zero first_last_frame [OF rs]
        load_first_frame [OF A hl False]
      by (simp add: parse_input_log_artifact_def log_parsed_def kInputLogChecksumOffset_def
          input_log_header_size_def not_less del: word_of_nat_eq_0_iff)
  qed
qed

lemma log_accepted_header:
  assumes "parse_input_log_artifact A max_bytes max_records = Some m"
  shows "parse_input_log_header A max_bytes max_records = Some m"
  using assms by (auto simp: parse_input_log_artifact_def bind_eq_Some_conv split: if_splits)

lemma log_accepted_checksum:
  assumes "parse_input_log_artifact A max_bytes max_records = Some m"
  shows "checksum_excluding A 80 8 = il_artifact_checksum m"
  using assms by (auto simp: parse_input_log_artifact_def bind_eq_Some_conv kInputLogChecksumOffset_def
      split: if_splits)

interpretation log_seal: sealed_artifact
  "\<lambda>(max_bytes, max_records) A. parse_input_log_artifact A max_bytes max_records" 80
proof (unfold_locales, clarify)
  fix A max_bytes max_records m
  assume parse: "parse_input_log_artifact A max_bytes max_records = Some m"
  then show "80 + 8 \<le> length A \<and> checksum_excluding A 80 8 = un64 (slice 80 8 A)"
    using log_accepted_checksum [OF parse] parse_log_header_Some(1,8) [OF log_accepted_header [OF parse]] by simp
qed

lemma parse_log_Some:
  assumes parse: "parse_input_log_artifact A max_bytes max_records = Some m"
  obtains rs where "length rs = unat (il_record_count m)" and "log_ok rs" and "A = log_bytes m rs"
    and "log_checksum m rs = il_artifact_checksum m"
    and "il_first_frame_index m = first_frame rs" and "il_last_frame_index m = last_frame rs"
proof -
  note head = parse_log_header_Some [OF log_accepted_header [OF parse]]
  from parse obtain off tot prev where
    recs: "parse_input_log_records A (unat (il_record_count m)) 192 (0, None) = Some (off, tot, prev)"
    and fin: "off = length A" "tot = unat (il_payload_bytes m)"
      "il_record_count m = 0 \<Longrightarrow> il_first_frame_index m = 0 \<and> il_last_frame_index m = 0"
      "il_record_count m \<noteq> 0 \<Longrightarrow> prev = Some (il_last_frame_index m) \<and>
        load_u64_le A 192 = Some (il_first_frame_index m)"
    by (auto simp: parse_input_log_artifact_def bind_eq_Some_conv input_log_header_size_def
        split: if_splits)
  obtain rs where rs: "length rs = unat (il_record_count m)" "log_ok rs" "drop 192 A = log_records_bytes rs"
    "tot = log_payload rs" "prev = (if rs = [] then None else Some (last_frame rs))"
    using log_records.many_Some [OF recs] head(1-3) fin(1)
    by (auto simp: artifact_absolute_max_bytes_def log_accepted foldl_log_step log_records_bytes_def
        last_frame_def)
  have empty: "rs = [] \<longleftrightarrow> il_record_count m = 0"
    using rs(1) by (metis length_0_conv unat_eq_zero)
  have len: "length A = 192 + length rs * 48 + log_payload rs"
    using arg_cong [OF rs(3), of length] length_log_records head(1) by simp
  have id: "length (il_workload_id m) = 64" using head(10) by auto
  have last: "il_last_frame_index m = last_frame rs"
    using fin(3,4) rs(5) empty by (cases "rs = []") (auto simp: last_frame_def)
  have first: "il_first_frame_index m = first_frame rs"
  proof (cases "rs = []")
    case False
    have "A = take 192 A @ log_records_bytes rs" unfolding rs(3) [symmetric] by simp
    moreover have "length (take 192 A) = 192" using head(1) by simp
    ultimately have "load_u64_le A 192 = Some (first_frame rs)" by (rule load_first_frame [OF _ _ False])
    then show ?thesis using False fin(4) empty by simp
  qed (use fin(3) empty in \<open>simp add: first_frame_def\<close>)
  from first last have A: "A = log_layout m rs (le64 (il_artifact_checksum m))"
    using head(11) fin(2) rs len by (simp add: log_layout_def)
  have "put 80 (replicate 8 0) A = log_layout m rs (replicate 8 0)"
    unfolding A by (rule put_log_checksum [OF id]) simp_all
  then have "log_checksum m rs = il_artifact_checksum m"
    unfolding log_checksum_def
    using checksum_excluding_put [of "replicate 8 0" 8 80 A] head(1) log_accepted_checksum [OF parse] by simp
  then show ?thesis using that [OF rs(1,2)] A first last by (simp add: log_bytes_def)
qed

text \<open>The layout does not depend on the nominal releases.\<close>

lemma log_view_layout:
  "log_payload (map log_view rs) = log_payload rs" "log_ok (map log_view rs) \<longleftrightarrow> log_ok rs"
  "first_frame (map log_view rs) = first_frame rs" "last_frame (map log_view rs) = last_frame rs"
  "log_bytes m (map log_view rs) = log_bytes m rs" "log_checksum m (map log_view rs) = log_checksum m rs"
proof -
  have bytes: "log_record_bytes (log_view r) = log_record_bytes r" for r
    by (simp add: log_record_bytes_def log_view_def)
  have frames: "map record_frame (map log_view rs) = map record_frame rs"
    by (simp add: log_view_def)
  show pay: "log_payload (map log_view rs) = log_payload rs"
    by (simp add: log_payload_def log_view_def comp_def)
  show "log_ok (map log_view rs) \<longleftrightarrow> log_ok rs"
    unfolding log_ok_def frames by (simp add: list_all_iff log_record_ok_def log_view_def)
  show first: "first_frame (map log_view rs) = first_frame rs"
    by (simp add: first_frame_def hd_map log_view_def)
  show last: "last_frame (map log_view rs) = last_frame rs"
    by (simp add: last_frame_def last_map log_view_def)
  have layout: "log_layout m (map log_view rs) c = log_layout m rs c" for c
    unfolding log_layout_def pay first last log_records_bytes_def by (simp add: bytes comp_def)
  then show "log_checksum m (map log_view rs) = log_checksum m rs"
    and "log_bytes m (map log_view rs) = log_bytes m rs"
    by (simp_all add: log_checksum_def log_bytes_def)
qed

section \<open>A sample\<close>

definition sample_log_metadata :: input_log_metadata where
  "sample_log_metadata = \<lparr>il_schema_version = 1, il_runtime_version_major = 1, il_runtime_version_minor = 4,
     il_runtime_version_patch = 0, il_determinism_tier = 1, il_replay_id = 5, il_state_schema_id = 6,
     il_payload_bytes = 0, il_total_bytes = 0, il_artifact_checksum = 0, il_first_frame_index = 0,
     il_last_frame_index = 0, il_record_count = 0, il_workload_id = pad_identifier [0x77]\<rparr>"

definition sample_log :: "replay_input_record list" where
  "sample_log =
     [\<lparr>input_frame = \<lparr>frame_index = 3, frame_delta = 16, deadline_ns = Some 0, nominal_release_ns = Some 9\<rparr>,
       input_type = 2, input_payload = [1, 2]\<rparr>,
      \<lparr>input_frame = \<lparr>frame_index = 7, frame_delta = 0, deadline_ns = None, nominal_release_ns = None\<rparr>,
       input_type = 0, input_payload = []\<rparr>]"

lemma sample_workload: "valid_identifier [0x77]"
  by (simp add: valid_identifier_def replay_identifier_capacity_def identifier_character_def)

lemma sample_log_id [simp]:
  "length (il_workload_id sample_log_metadata) = 64"
  "identifier_view (il_workload_id sample_log_metadata) = [0x77]"
  "padded (il_workload_id sample_log_metadata)"
  using sample_workload by (simp_all add: sample_log_metadata_def identifier_view_pad padded_def)

lemma sample_log_sizes [simp]: "length sample_log = 2" "log_payload sample_log = 2"
  by (simp_all add: sample_log_def log_payload_def)

lemma sample_log_ok [simp]: "log_ok sample_log"
  by (simp add: log_ok_def sample_log_def log_record_ok_def delta_nonnegative nanoseconds_max_def)

lemma sample_log_arguments [simp]: "\<not> input_log_arguments_invalid sample_log_metadata sample_log 4 512"
  using sample_workload
  by (simp add: input_log_arguments_invalid_def artifact_absolute_max_bytes_def
      artifact_absolute_max_records_def input_log_header_size_def valid_tier_def)
    (simp add: sample_log_metadata_def)

section \<open>Properties\<close>



text \<open>
  C16. What was logged is what is replayed.  Parsing the written bytes under the same byte limit gives
  the metadata that was encoded with the counts, sizes, frame range and checksum filled in, and
  the cursor reads back every record, except for its nominal release, which the log does not
  hold.  The workload identifier array is zero behind its terminator.
\<close>

theorem input_log_roundtrip:
  assumes enc: "encode_input_log_artifact m rs max_records max_bytes out = (ok, out', res)"
    and id: "length (il_workload_id m) = replay_identifier_capacity" "padded (il_workload_id m)"
  shows "\<exists>md. parse_input_log_artifact (take (bytes_written res) out') max_bytes max_records = Some md \<and>
    md = m\<lparr>il_schema_version := input_log_schema_version, il_payload_bytes := word_of_nat (log_payload rs),
      il_total_bytes := word_of_nat (bytes_written res), il_artifact_checksum := result_checksum res,
      il_first_frame_index := (if rs = [] then 0 else record_frame (hd rs)),
      il_last_frame_index := (if rs = [] then 0 else record_frame (last rs)),
      il_record_count := word_of_nat (length rs)\<rparr> \<and>
    read_records next_input_log_record (Suc (length rs)) (take (bytes_written res) out') md
      \<lparr>cursor_offset = input_log_header_size, cursor_index = 0\<rparr> =
    map (\<lambda>r. r\<lparr>input_frame := (input_frame r)\<lparr>nominal_release_ns := None\<rparr>\<rparr>) rs"
proof -
  have id64: "length (il_workload_id m) = 64" using id by (simp add: replay_identifier_capacity_def)
  let ?q = "192 + length rs * 48 + log_payload rs" and ?A = "take (bytes_written res) out'"
  from enc have valid: "\<not> input_log_arguments_invalid m rs max_records max_bytes" "log_ok rs"
      "?q \<le> max_bytes"
    and out: "out' = log_bytes m rs @ drop ?q out" "bytes_written res = ?q" "result_checksum res = log_checksum m rs"
    unfolding encode_log_cases [OF id64 refl] by (auto split: if_splits)
  note bounds = log_arguments_bounds [OF valid(1)]
  have A: "?A = log_bytes m rs" "length ?A = ?q"
    using out length_log_layout [OF id64, of "le64 (log_checksum m rs)" rs] by (simp_all add: log_bytes_def)
  have args: "valid_identifier (identifier_view (il_workload_id m))" "valid_tier (ucast (il_determinism_tier m))"
    using valid(1) by (simp_all add: input_log_arguments_invalid_def)
  have parse: "parse_input_log_artifact ?A max_bytes max_records =
      Some (log_parsed m (length rs) (log_payload rs) ?q (log_checksum m rs) (first_frame rs) (last_frame rs))"
    unfolding A(1) using parse_log_bytes [OF id64 args valid(2,3)] bounds id(2) by simp
  have ok: "\<forall>r \<in> set rs. log_record_ok r" using valid(2) by (simp add: log_ok_def list_all_iff)
  have "read_records next_input_log_record (Suc (length rs)) ?A md \<lparr>cursor_offset = 192, cursor_index = 0\<rparr> =
      map log_view rs" if "il_record_count md = word_of_nat (length rs)" for md
    using log_cursor.read_layout [OF ok, of ?A "log_header m (length rs) (log_payload rs) ?q
        (le64 (log_checksum m rs)) (first_frame rs) (last_frame rs)" 0 md "Suc (length rs)"]
      A length_log_header [OF id64] that bounds valid(3)
    by (simp add: word32_small artifact_absolute_max_bytes_def log_bytes_def log_layout_def
        log_records_bytes_def)
  then show ?thesis
    using parse out(2,3)
    by (simp add: log_parsed_def input_log_header_size_def first_frame_def last_frame_def log_view_def [abs_def])
qed

lemma sample_log_encodes:
  obtains out' res where
    "encode_input_log_artifact sample_log_metadata sample_log 4 512 (replicate 300 0) = (ok, out', res)"
  using that encode_log_cases [of sample_log_metadata 290 sample_log 4 512 "replicate 300 0"]
  by (simp add: size_max_def)

theorem input_log_roundtrip_witness:
  "case encode_input_log_artifact sample_log_metadata sample_log 4 512 (replicate 300 0) of
     (st, out', res) \<Rightarrow> st = ok \<and>
       (\<exists>md. parse_input_log_artifact (take (bytes_written res) out') 512 4 = Some md \<and>
         il_first_frame_index md = 3 \<and> il_last_frame_index md = 7 \<and>
         length (read_records next_input_log_record 3 (take (bytes_written res) out') md
           \<lparr>cursor_offset = input_log_header_size, cursor_index = 0\<rparr>) = 2)"
proof -
  obtain out' res where enc:
    "encode_input_log_artifact sample_log_metadata sample_log 4 512 (replicate 300 0) = (ok, out', res)"
    by (rule sample_log_encodes)
  have "Suc 2 = (3 :: nat)" "sample_log \<noteq> []" "record_frame (hd sample_log) = 3" "record_frame (last sample_log) = 7"
    by (simp_all add: sample_log_def)
  then show ?thesis
    using input_log_roundtrip [OF enc] enc by (auto simp: replay_identifier_capacity_def)
qed

text \<open>
  C18. The format is canonical.  The cursor reads every record of an accepted log, the frames strictly
  increase from the first to the last frame index of the metadata, and encoding the parsed
  metadata with these records reproduces the artifact byte for byte.
\<close>

theorem input_log_canonical:
  assumes parse: "parse_input_log_artifact A max_bytes max_records = Some m"
    and rs: "rs = read_records next_input_log_record (Suc (unat (il_record_count m))) A m
      \<lparr>cursor_offset = input_log_header_size, cursor_index = 0\<rparr>"
  shows "length rs = unat (il_record_count m) \<and> sorted_wrt (<) (map record_frame rs) \<and>
    (rs \<noteq> [] \<longrightarrow> record_frame (hd rs) = il_first_frame_index m \<and> record_frame (last rs) = il_last_frame_index m) \<and>
    encode_input_log_artifact m rs max_records max_bytes A =
      (ok, A, \<lparr>required_bytes = length A, bytes_written = length A,
        result_checksum = il_artifact_checksum m\<rparr>)"
proof -
  obtain rs0 where rs0: "length rs0 = unat (il_record_count m)" "log_ok rs0" "A = log_bytes m rs0"
    "log_checksum m rs0 = il_artifact_checksum m" "il_first_frame_index m = first_frame rs0"
    "il_last_frame_index m = last_frame rs0"
    using parse_log_Some [OF parse] by blast
  note head = parse_log_header_Some [OF log_accepted_header [OF parse]]
  have id: "length (il_workload_id m) = 64" "valid_identifier (identifier_view (il_workload_id m))"
    using head(10) identifier_view_pad by auto
  have len: "length A = 192 + length rs0 * 48 + log_payload rs0"
    using length_log_layout [OF id(1)] by (simp add: rs0(3) log_bytes_def)
  have "rs = map log_view rs0"
    unfolding rs input_log_header_size_def
    using log_cursor.read_layout [of rs0 A "log_header m (length rs0) (log_payload rs0)
        (192 + length rs0 * 48 + log_payload rs0) (le64 (log_checksum m rs0)) (first_frame rs0)
        (last_frame rs0)" 0 m "Suc (length rs0)"]
      rs0(1-3) head(2,3) length_log_header [OF id(1)]
    by (simp add: log_ok_def list_all_iff log_bytes_def log_layout_def log_records_bytes_def
        artifact_absolute_max_bytes_def)
  then have view: "length rs = length rs0" "log_ok rs" "log_payload rs = log_payload rs0"
    "A = log_bytes m rs" "log_checksum m rs = il_artifact_checksum m"
    "first_frame rs = il_first_frame_index m" "last_frame rs = il_last_frame_index m"
    using rs0 by (simp_all add: log_view_layout)
  have "\<not> input_log_arguments_invalid m rs max_records max_bytes"
    using head(1-5,9) id rs0(1) view(1)
    by (simp add: input_log_arguments_invalid_def artifact_absolute_max_bytes_def
        artifact_absolute_max_records_def input_log_header_size_def)
  then have "encode_input_log_artifact m rs max_records max_bytes A =
      (ok, A, \<lparr>required_bytes = length A, bytes_written = length A, result_checksum = il_artifact_checksum m\<rparr>)"
    using encode_log_cases [OF id(1), of "length A" rs max_records max_bytes A] view len head(2,3)
    by (simp add: size_max_def)
  then show ?thesis
    using view rs0(1) by (simp add: log_ok_def first_frame_def last_frame_def split: if_splits)
qed

definition sample_log_artifact :: bytes where
  "sample_log_artifact = log_bytes sample_log_metadata sample_log"

lemma sample_log_parses:
  obtains m where "parse_input_log_artifact sample_log_artifact 512 4 = Some m" and "il_record_count m = 2"
proof -
  have "valid_tier (ucast (il_determinism_tier sample_log_metadata))"
    using sample_log_arguments by (simp add: input_log_arguments_invalid_def)
  then show ?thesis
    using that parse_log_bytes [of sample_log_metadata sample_log 512 4] sample_workload
    by (simp add: sample_log_artifact_def log_parsed_def)
qed

theorem input_log_canonical_witness:
  "\<exists>m. parse_input_log_artifact sample_log_artifact 512 4 = Some m \<and>
     length (read_records next_input_log_record 3 sample_log_artifact m
       \<lparr>cursor_offset = input_log_header_size, cursor_index = 0\<rparr>) = 2"
proof -
  obtain m where m: "parse_input_log_artifact sample_log_artifact 512 4 = Some m" "il_record_count m = 2"
    by (rule sample_log_parses)
  have "Suc 2 = (3 :: nat)" by simp
  then show ?thesis using input_log_canonical [OF m(1) refl] m by auto
qed

text \<open>
  C19. No corruption of a single byte goes unnoticed: changing any byte of an accepted log makes the
  parser reject it.
\<close>

theorem input_log_corruption_detected:
  assumes parse: "parse_input_log_artifact A max_bytes max_records = Some m"
    and change: "i < length A" "b \<noteq> A ! i"
  shows "parse_input_log_artifact (A[i := b]) max_bytes' max_records' = None"
  using log_seal.corruption_rejected [of "(max_bytes, max_records)" A m i b "(max_bytes', max_records')"]
    assms by simp

theorem input_log_corruption_detected_witness:
  "parse_input_log_artifact sample_log_artifact 512 4 \<noteq> None \<and>
   parse_input_log_artifact (sample_log_artifact[0 := 0]) 512 4 = None"
proof -
  obtain m where m: "parse_input_log_artifact sample_log_artifact 512 4 = Some m" by (rule sample_log_parses)
  have "sample_log_artifact ! 0 = 0x52" "0 < length sample_log_artifact"
    by (simp_all add: sample_log_artifact_def log_bytes_def log_layout_def log_header_def kInputLogMagic_def)
  then show ?thesis using input_log_corruption_detected [OF m, of 0 0 512 4] m by simp
qed

end
