(* ===== verification/Artifact_Scans.thy ===== *)
theory Artifact_Scans
  imports Checkpoint_Codec Input_Log_Codec
begin

text \<open>
  Loops over the records of an artifact.  A caller repeats \<^verbatim>\<open>next_checkpoint_record\<close> or
  \<^verbatim>\<open>next_input_log_record\<close> until it reports no record; the locale says what one call must do for
  that loop to end on any bytes, and both cursors are instances.
\<close>

section \<open>Bounded cursors\<close>

locale bounded_cursor =
  fixes advance :: "bytes \<Rightarrow> 'm \<Rightarrow> checkpoint_record_cursor \<Rightarrow> bool \<times> checkpoint_record_cursor \<times> 'v"
    and record_count :: "'m \<Rightarrow> u32"
    and header_size :: nat
  assumes advance_found: "advance A m c = (True, c', v) \<Longrightarrow>
      cursor_index c < record_count m \<and> cursor_index c' = cursor_index c + 1 \<and>
      cursor_offset c + header_size \<le> cursor_offset c' \<and> cursor_offset c' \<le> length A"
begin

lemma found_index:
  assumes "advance A m c = (True, c', v)"
  shows "unat (cursor_index c') = Suc (unat (cursor_index c))" and "unat (cursor_index c) < unat (record_count m)"
proof -
  show less: "unat (cursor_index c) < unat (record_count m)"
    using advance_found [OF assms] by (simp add: word_less_nat_alt)
  then show "unat (cursor_index c') = Suc (unat (cursor_index c))"
    using advance_found [OF assms] unat_u32_less [of "record_count m"] by (simp add: unat_word_ariths)
qed

lemma advance_wf: "wf {(c', c). \<exists>v. advance A m c = (True, c', v)}"
proof (rule wf_subset)
  show "wf (measure (\<lambda>c. unat (record_count m) - unat (cursor_index c)))" by simp
  show "{(c', c). \<exists>v. advance A m c = (True, c', v)} \<subseteq> measure (\<lambda>c. unat (record_count m) - unat (cursor_index c))"
    using found_index by fastforce
qed

lemma read_stable:
  assumes "unat (record_count m) \<le> fuel + unat (cursor_index c)"
  shows "read_records advance (fuel + k) A m c = read_records advance fuel A m c"
  using assms
proof (induction fuel arbitrary: c)
  case 0
  obtain found c' v where step: "advance A m c = (found, c', v)" by (cases "advance A m c")
  have "\<not> found" using found_index(2) [of A m c c' v] step 0 by auto
  then show ?case using step by (cases k) simp_all
next
  case (Suc fuel)
  obtain found c' v where step: "advance A m c = (found, c', v)" by (cases "advance A m c")
  show ?case
  proof (cases found)
    case True
    then have "unat (record_count m) \<le> fuel + unat (cursor_index c')"
      using found_index(1) [of A m c c' v] step Suc.prems by simp
    then show ?thesis using Suc.IH [of c'] step by simp
  qed (simp add: step)
qed

lemma read_bytes: "length (read_records advance fuel A m c) * header_size \<le> length A - cursor_offset c"
proof (induction fuel arbitrary: c)
  case 0
  then show ?case by simp
next
  case (Suc fuel)
  obtain found c' v where step: "advance A m c = (found, c', v)" by (cases "advance A m c")
  show ?case
  proof (cases found)
    case True
    then have "cursor_offset c + header_size \<le> cursor_offset c'" "cursor_offset c' \<le> length A"
      using advance_found [of A m c c' v] step by simp_all
    then show ?thesis using True Suc.IH [of c'] step by simp
  qed (simp add: step)
qed

end

interpretation checkpoint_scan: bounded_cursor next_checkpoint_record cm_state_count checkpoint_record_header_size
  by unfold_locales (auto simp: next_checkpoint_record_def Let_def split: if_splits option.splits)

interpretation input_log_scan: bounded_cursor next_input_log_record il_record_count input_log_record_header_size
  by unfold_locales (auto simp: next_input_log_record_def Let_def split: if_splits option.splits)

text \<open>
  C39. Reading the records of an artifact ends on any bytes, accepted by the parser or not: no cursor can
  find records forever, after as many calls as the metadata declares records further calls add
  nothing, and the records that were found take at least their header sizes of the bytes behind
  the cursor.
\<close>

theorem record_scans_terminate:
  "wf {(c', c). \<exists>v. next_checkpoint_record A m c = (True, c', v)} \<and>
   read_records next_checkpoint_record (unat (cm_state_count m) + k) A m c =
     read_records next_checkpoint_record (unat (cm_state_count m)) A m c \<and>
   length (read_records next_checkpoint_record k A m c) * checkpoint_record_header_size
     \<le> length A - cursor_offset c \<and>
   wf {(c', c). \<exists>v. next_input_log_record A l c = (True, c', v)} \<and>
   read_records next_input_log_record (unat (il_record_count l) + k) A l c =
     read_records next_input_log_record (unat (il_record_count l)) A l c \<and>
   length (read_records next_input_log_record k A l c) * input_log_record_header_size
     \<le> length A - cursor_offset c"
  using checkpoint_scan.advance_wf [of A m] checkpoint_scan.read_bytes [of k A m c]
    checkpoint_scan.read_stable [of m "unat (cm_state_count m)" c k A]
    input_log_scan.advance_wf [of A l] input_log_scan.read_bytes [of k A l c]
    input_log_scan.read_stable [of l "unat (il_record_count l)" c k A]
  by simp

end
