(* ===== verification/Snapshot_Contract.thy ===== *)
theory Snapshot_Contract
  imports Snapshot_Store
begin

text \<open>
  The contract of the snapshot store: a partial map from generations to payloads.
\<close>

section \<open>Well-formed stores\<close>

text \<open>
  A slot was never used, or it holds a generation that belongs to the slot, was issued before the
  next generation and is free or published.
\<close>

definition slot_wf :: "snapshot_store \<Rightarrow> nat \<Rightarrow> bool" where
  "slot_wf st i \<longleftrightarrow> (let c = control_at st i; g = control_generation c in
     c = 0 \<or>
     0 < g \<and> g \<le> maximum_generation \<and> slot_index st g = i \<and>
     (next_generation st = 0 \<or> g < next_generation st) \<and>
     (control_state c = kFree \<or> control_state c = kPublished))"

definition store_shape :: "snapshot_store \<Rightarrow> bool" where
  "store_shape st \<longleftrightarrow>
     controls st \<noteq> None \<and> payload st \<noteq> None \<and> 0 < payload_size st \<and> 0 < slot_count st \<and>
     length (the (controls st)) = slot_count st \<and>
     length (the (payload st)) = slot_count st * payload_size st \<and>
     payload_storage_bytes st = payload_size st * slot_count st"

definition store_wf :: "snapshot_store \<Rightarrow> bool" where
  "store_wf st \<longleftrightarrow>
     store_shape st \<and> next_generation st \<le> maximum_generation \<and> list_all (slot_wf st) [0..<slot_count st]"

text \<open>The published generations and their payloads.\<close>

definition snapshots :: "snapshot_store \<Rightarrow> u64 \<Rightarrow> bytes option" where
  "snapshots st g =
     (if 0 < g \<and> g \<le> maximum_generation \<and> control_at st (slot_index st g) = encode_control g kPublished
      then Some (read_slot st (slot_index st g)) else None)"

section \<open>Slots\<close>

lemma slot_less: "0 < slot_count st \<Longrightarrow> slot_index st g < slot_count st"
  by (simp add: slot_index_def)

lemma slot_range: "i < n \<Longrightarrow> i * s + s \<le> n * (s :: nat)"
proof -
  assume "i < n"
  then have "(i + 1) * s \<le> n * s" by (intro mult_le_mono1) simp
  then show ?thesis by simp
qed

lemma slots_disjoint: "i \<noteq> j \<Longrightarrow> i * s + s \<le> j * s \<or> j * s + s \<le> i * (s :: nat)"
  using slot_range [of i j s] slot_range [of j i s] by (cases "i < j") auto

lemma set_control_simps [simp]:
  "payload_size (set_control i c st) = payload_size st" "slot_count (set_control i c st) = slot_count st"
  "payload_storage_bytes (set_control i c st) = payload_storage_bytes st"
  "next_generation (set_control i c st) = next_generation st" "payload (set_control i c st) = payload st"
  "controls (set_control i c st) = map_option (\<lambda>cs. cs[i := c]) (controls st)"
  "slot_index (set_control i c st) = slot_index st" "read_slot (set_control i c st) = read_slot st"
  by (simp_all add: set_control_def slot_index_def read_slot_def fun_eq_iff)

lemma write_slot_simps [simp]:
  "payload_size (write_slot i bs st) = payload_size st" "slot_count (write_slot i bs st) = slot_count st"
  "payload_storage_bytes (write_slot i bs st) = payload_storage_bytes st"
  "next_generation (write_slot i bs st) = next_generation st" "controls (write_slot i bs st) = controls st"
  "payload (write_slot i bs st) = map_option (put (i * payload_size st) bs) (payload st)"
  "slot_index (write_slot i bs st) = slot_index st" "control_at (write_slot i bs st) = control_at st"
  by (simp_all add: write_slot_def slot_index_def control_at_def fun_eq_iff)

lemma control_at_set:
  assumes "store_shape st" and "i < slot_count st"
  shows "control_at (set_control i c st) j = (if j = i then c else control_at st j)"
  using assms by (auto simp: control_at_def store_shape_def nth_list_update)

lemma read_write_slot:
  assumes "store_shape st" and "length bs = payload_size st" and "i < slot_count st" and "j < slot_count st"
  shows "read_slot (write_slot i bs st) j = (if j = i then bs else read_slot st j)"
proof -
  obtain m where m: "payload st = Some m" "length m = slot_count st * payload_size st"
    using assms(1) by (auto simp: store_shape_def)
  show ?thesis
    using slot_range [OF assms(3), of "payload_size st"] slot_range [OF assms(4), of "payload_size st"]
      slots_disjoint [of i j "payload_size st"] assms(2) m
    by (auto simp: read_slot_def slice_put_same slice_put_other)
qed

lemma next_update [simp]:
  "control_at (st\<lparr>next_generation := g\<rparr>) = control_at st" "slot_index (st\<lparr>next_generation := g\<rparr>) = slot_index st"
  "read_slot (st\<lparr>next_generation := g\<rparr>) = read_slot st"
  by (simp_all add: control_at_def slot_index_def read_slot_def fun_eq_iff)

lemma slot_wfD: "store_wf st \<Longrightarrow> i < slot_count st \<Longrightarrow> slot_wf st i"
  by (auto simp: store_wf_def list_all_iff)

text \<open>What occupies a slot is determined by its control word.\<close>

lemma published_slot:
  assumes "store_wf st" and "i < slot_count st" and "control_state (control_at st i) \<noteq> kFree"
  shows "snapshots st (control_generation (control_at st i)) = Some (read_slot st i)"
    and "slot_index st (control_generation (control_at st i)) = i"
proof -
  let ?c = "control_at st i"
  have c: "0 < control_generation ?c" "control_generation ?c \<le> maximum_generation"
      "slot_index st (control_generation ?c) = i" "control_state ?c = kPublished"
    using slot_wfD [OF assms(1,2)] assms(3) by (auto simp: slot_wf_def Let_def)
  then show "snapshots st (control_generation ?c) = Some (read_slot st i)"
    using control_eq [of ?c] by (simp add: snapshots_def)
  show "slot_index st (control_generation ?c) = i" by (rule c(3))
qed

lemma free_slot:
  assumes "store_wf st"
  shows "control_state (control_at st (slot_index st g)) = kFree \<longleftrightarrow>
    (\<forall>g'. snapshots st g' \<noteq> None \<longrightarrow> slot_index st g' \<noteq> slot_index st g)"
proof -
  have less: "slot_index st g < slot_count st" using assms by (simp add: slot_less store_wf_def store_shape_def)
  show ?thesis
  proof
    assume free: "control_state (control_at st (slot_index st g)) = kFree"
    show "\<forall>g'. snapshots st g' \<noteq> None \<longrightarrow> slot_index st g' \<noteq> slot_index st g"
    proof (intro allI impI notI)
      fix g' assume "snapshots st g' \<noteq> None" and slot: "slot_index st g' = slot_index st g"
      then have "g' \<le> maximum_generation" "control_at st (slot_index st g) = encode_control g' kPublished"
        by (auto simp: snapshots_def split: if_splits)
      then show False using free by simp
    qed
  qed (use published_slot [OF assms less] in auto)
qed

section \<open>Updates\<close>

lemma shape_updates [simp]:
  "store_shape st \<Longrightarrow> store_shape (set_control i c st)"
  "store_shape st \<Longrightarrow> length bs = payload_size st \<Longrightarrow> i < slot_count st \<Longrightarrow> store_shape (write_slot i bs st)"
  "store_shape (st\<lparr>next_generation := n\<rparr>) = store_shape st"
  using slot_range [of i "slot_count st" "payload_size st"]
  by (auto simp: store_shape_def option.map_sel)

lemma encode_published_inj:
  "g \<le> maximum_generation \<Longrightarrow> g' \<le> maximum_generation \<Longrightarrow>
     encode_control g kPublished = encode_control g' kPublished \<longleftrightarrow> g = g'"
  by (metis control_roundtrip(5))

lemma generation_step:
  fixes g :: u64
  assumes "g \<le> maximum_generation"
  shows "g < g + 1" and "g \<noteq> maximum_generation \<Longrightarrow> g + 1 \<le> maximum_generation"
proof -
  have "maximum_generation < u64_max" by (simp add: maximum_generation_def u64_max_def drop_bit_eq_div)
  then have "g \<noteq> u64_max" using assms by auto
  then show "g < g + 1" by (simp add: word_less_nat_alt unat_inc)
  show "g + 1 \<le> maximum_generation" if "g \<noteq> maximum_generation" using assms that by (intro inc_le) simp
qed

lemma publish_ok:
  assumes wf: "store_wf st" and acc: "\<not> publish_rejected st g bs"
    and free: "control_state (control_at st (slot_index st g)) = kFree"
  defines "st' \<equiv> snd (publish g bs st)"
  shows "fst (publish g bs st) = store_ok" and "store_wf st'" and "snapshots st' = (snapshots st)(g \<mapsto> bs)"
    and "next_generation st' = (if g = maximum_generation then 0 else g + 1)"
    and "payload_size st' = payload_size st" and "slot_count st' = slot_count st"
proof -
  let ?i = "slot_index st g"
  have shape: "store_shape st" and less: "?i < slot_count st"
    using wf by (simp_all add: store_wf_def slot_less store_shape_def)
  have g: "0 < g" "g \<le> maximum_generation" "length bs = payload_size st" "g = next_generation st"
    using acc by (auto simp: publish_rejected_def word_neq_0_conv)
  show "fst (publish g bs st) = store_ok" using acc free by (simp add: publish_def Let_def)
  have st': "st' = (set_control ?i (encode_control g kPublished) (write_slot ?i bs
      (set_control ?i (encode_control g kWriting) st)))
      \<lparr>next_generation := (if g = maximum_generation then 0 else g + 1)\<rparr>"
    using acc free by (simp add: st'_def publish_def Let_def)
  then show nx: "next_generation st' = (if g = maximum_generation then 0 else g + 1)"
    and "payload_size st' = payload_size st" and "slot_count st' = slot_count st" by simp_all
  have ctl: "control_at st' j = (if j = ?i then encode_control g kPublished else control_at st j)" for j
    unfolding st' using shape less g(3) by (simp add: control_at_set)
  have rd: "read_slot st' j = (if j = ?i then bs else read_slot st j)" if "j < slot_count st" for j
    unfolding st' using shape less g(3) that by (simp add: read_write_slot)
  have idx: "slot_index st' = slot_index st" unfolding st' by simp
  have sl: "slot_wf st' j" if "j < slot_count st" for j
  proof (cases "j = ?i")
    case True
    then show ?thesis
      using g generation_step [of g] by (auto simp: slot_wf_def Let_def ctl idx nx)
  next
    case False
    then show ?thesis
      using slot_wfD [OF wf that] g generation_step [of g]
      by (auto simp: slot_wf_def Let_def ctl idx nx)
  qed
  show "store_wf st'"
    using sl shape less g(2,3) generation_step [of g]
    by (auto simp: store_wf_def list_all_iff) (simp_all add: st')
  show "snapshots st' = (snapshots st)(g \<mapsto> bs)"
  proof
    fix g'
    have less': "slot_index st g' < slot_count st" using shape by (simp add: slot_less store_shape_def)
    show "snapshots st' g' = ((snapshots st)(g \<mapsto> bs)) g'"
      using free_slot [OF wf, of g] free encode_published_inj [of g g'] g(1,2) rd [OF less']
      by (auto simp: snapshots_def ctl idx)
  qed
qed

lemma set_control_twice [simp]: "set_control i c' (set_control i c st) = set_control i c' st"
  by (cases "controls st") (simp_all add: set_control_def)

lemma set_control_same:
  "store_shape st \<Longrightarrow> i < slot_count st \<Longrightarrow> control_at st i = c \<Longrightarrow> set_control i c st = st"
  by (auto simp: set_control_def control_at_def store_shape_def)

lemma snapshots_Some:
  "snapshots st g = Some bs \<longleftrightarrow> 0 < g \<and> g \<le> maximum_generation \<and>
     control_at st (slot_index st g) = encode_control g kPublished \<and> bs = read_slot st (slot_index st g)"
  by (auto simp: snapshots_def)

lemma release_slot:
  assumes wf: "store_wf st" and pub: "snapshots st g = Some bs"
  defines "st' \<equiv> set_control (slot_index st g) (encode_control g kFree) st"
  shows "store_wf st'" and "snapshots st' = (snapshots st)(g := None)"
proof -
  let ?i = "slot_index st g"
  have shape: "store_shape st" and less: "?i < slot_count st"
    using wf by (simp_all add: store_wf_def slot_less store_shape_def)
  have g: "0 < g" "g \<le> maximum_generation" "control_at st ?i = encode_control g kPublished"
    using pub by (simp_all add: snapshots_Some)
  have ctl: "control_at st' j = (if j = ?i then encode_control g kFree else control_at st j)" for j
    unfolding st'_def using shape less by (simp add: control_at_set)
  have old: "slot_wf st ?i" by (rule slot_wfD [OF wf less])
  have nz: "encode_control g kPublished \<noteq> 0" using g(2) control_roundtrip(6) [of g] control_zero(2) by fastforce
  have "slot_wf st' j" if "j < slot_count st" for j
    using slot_wfD [OF wf that] old g nz by (auto simp: slot_wf_def Let_def ctl) (auto simp: st'_def)
  then show "store_wf st'" using wf by (simp add: store_wf_def list_all_iff st'_def)
  have ne: "encode_control g kFree \<noteq> encode_control g' kPublished" if "g' \<le> maximum_generation" for g'
    using that g(2) by (metis control_roundtrip(2,6) states_distinct(2))
  have rd: "read_slot st' = read_slot st" "slot_index st' = slot_index st" by (simp_all add: st'_def)
  show "snapshots st' = (snapshots st)(g := None)"
  proof
    fix g'
    show "snapshots st' g' = ((snapshots st)(g := None)) g'"
    proof (cases "slot_index st g' = ?i")
      case True
      then have "snapshots st' g' = None" using ne [of g'] by (simp add: snapshots_def ctl rd)
      moreover have "snapshots st g' = None" if "g' \<noteq> g"
        unfolding snapshots_def True g(3) using encode_published_inj [OF g(2), of g'] that by simp
      ultimately show ?thesis by simp
    next
      case False
      moreover have "g' \<noteq> g" using False by auto
      ultimately show ?thesis by (simp add: snapshots_def ctl rd)
    qed
  qed
qed

lemma claim_ok:
  assumes wf: "store_wf st" and g: "0 < g" "g \<le> maximum_generation"
  shows "copy_claim g (control_at st (slot_index st g)) = store_ok \<longleftrightarrow> snapshots st g \<noteq> None"
    and "retire_claim g (control_at st (slot_index st g)) = store_ok \<longleftrightarrow> snapshots st g \<noteq> None"
proof -
  let ?c = "control_at st (slot_index st g)"
  have "control_generation ?c = g \<and> control_state ?c = kPublished \<longleftrightarrow> ?c = encode_control g kPublished"
    using control_eq [of ?c] g(2) by auto
  then have iff: "snapshots st g \<noteq> None \<longleftrightarrow> control_generation ?c = g \<and> control_state ?c = kPublished"
    using g by (simp add: snapshots_def)
  show "copy_claim g ?c = store_ok \<longleftrightarrow> snapshots st g \<noteq> None"
    unfolding iff copy_claim_def Let_def by auto
  show "retire_claim g ?c = store_ok \<longleftrightarrow> snapshots st g \<noteq> None"
    unfolding iff retire_claim_def by auto
qed

section \<open>The operations\<close>

text \<open>The arguments an operation accepts.\<close>

abbreviation valid_generation :: "u64 \<Rightarrow> bool" where
  "valid_generation g \<equiv> 0 < g \<and> g \<le> maximum_generation"

lemma publish_contract:
  assumes wf: "store_wf st" and res: "publish g bs st = (r, st')"
  shows "r = store_ok \<longleftrightarrow> length bs = payload_size st \<and> valid_generation g \<and> g = next_generation st \<and>
      (\<forall>g'. snapshots st g' \<noteq> None \<longrightarrow> slot_index st g' \<noteq> slot_index st g)"
    and "store_wf st'"
    and "snapshots st' = (if r = store_ok then (snapshots st)(g \<mapsto> bs) else snapshots st)"
    and "r \<noteq> store_ok \<Longrightarrow> st' = st"
    and "payload_size st' = payload_size st" and "slot_count st' = slot_count st"
proof -
  have rej: "\<not> publish_rejected st g bs \<longleftrightarrow>
      length bs = payload_size st \<and> valid_generation g \<and> g = next_generation st"
    using wf by (auto simp: publish_rejected_def store_wf_def store_shape_def word_neq_0_conv)
  have "r = store_ok \<longleftrightarrow>
      \<not> publish_rejected st g bs \<and> control_state (control_at st (slot_index st g)) = kFree"
    using res by (auto simp: publish_def Let_def split: if_splits)
  then show "r = store_ok \<longleftrightarrow> length bs = payload_size st \<and> valid_generation g \<and> g = next_generation st \<and>
      (\<forall>g'. snapshots st g' \<noteq> None \<longrightarrow> slot_index st g' \<noteq> slot_index st g)"
    unfolding rej free_slot [OF wf] by simp
  show keep: "st' = st" if "r \<noteq> store_ok" using res that by (auto simp: publish_def Let_def split: if_splits)
  have "\<not> publish_rejected st g bs" "control_state (control_at st (slot_index st g)) = kFree" if "r = store_ok"
    using res that by (auto simp: publish_def Let_def split: if_splits)
  note ok = publish_ok [OF wf this]
  show "store_wf st'" "snapshots st' = (if r = store_ok then (snapshots st)(g \<mapsto> bs) else snapshots st)"
    "payload_size st' = payload_size st" "slot_count st' = slot_count st"
    using ok keep res wf by (cases "r = store_ok"; simp)+
qed

lemma copy_contract:
  assumes wf: "store_wf st" and res: "copy_snapshot g out retention st = (r, out', st')"
  shows "r = store_ok \<longleftrightarrow> length out = payload_size st \<and> valid_generation g \<and>
      (retention = retain \<or> retention = retire_after) \<and> snapshots st g \<noteq> None"
    and "store_wf st'"
    and "if r = store_ok then snapshots st g = Some out' else out' = out"
    and "snapshots st' =
      (if r = store_ok \<and> retention = retire_after then (snapshots st)(g := None) else snapshots st)"
    and "payload_size st' = payload_size st" and "slot_count st' = slot_count st"
    and "next_generation st' = next_generation st"
proof -
  let ?i = "slot_index st g"
  have shape: "store_shape st" and less: "?i < slot_count st"
    using wf by (simp_all add: store_wf_def slot_less store_shape_def)
  have rej: "\<not> copy_rejected st g out retention \<longleftrightarrow> length out = payload_size st \<and> valid_generation g \<and>
      (retention = retain \<or> retention = retire_after)"
    using shape by (auto simp: copy_rejected_def store_shape_def word_neq_0_conv)
  show iff: "r = store_ok \<longleftrightarrow> length out = payload_size st \<and> valid_generation g \<and>
      (retention = retain \<or> retention = retire_after) \<and> snapshots st g \<noteq> None"
    using res rej claim_ok(1) [OF wf, of g]
    by (auto simp: copy_snapshot_def Let_def split: if_splits snapshot_store_result.splits)
  have keep: "st' = st" "out' = out" if "r \<noteq> store_ok"
    using res that by (auto simp: copy_snapshot_def Let_def split: if_splits snapshot_store_result.splits)
  have out: "out' = read_slot st ?i"
    "st' = set_control ?i (encode_control g (if retention = retain then kPublished else kFree)) st"
    if "r = store_ok"
    using res that by (auto simp: copy_snapshot_def Let_def split: if_splits snapshot_store_result.splits)
  show "if r = store_ok then snapshots st g = Some out' else out' = out"
    using iff out keep by (auto simp: snapshots_Some)
  have same: "st' = st" if "r = store_ok" "retention = retain"
    using that iff out(2) set_control_same [OF shape less] by (auto simp: snapshots_Some)
  have rel: "st' = set_control ?i (encode_control g kFree) st" "\<exists>bs. snapshots st g = Some bs"
    if "r = store_ok" "retention = retire_after"
    using that iff out(2) by auto
  consider "r \<noteq> store_ok" | "r = store_ok" "retention = retain" | "r = store_ok" "retention = retire_after"
    using iff by blast
  then have "store_wf st' \<and> snapshots st' =
      (if r = store_ok \<and> retention = retire_after then (snapshots st)(g := None) else snapshots st) \<and>
    payload_size st' = payload_size st \<and> slot_count st' = slot_count st \<and>
    next_generation st' = next_generation st"
  proof cases
    case 1
    then show ?thesis using keep(1) wf by simp
  next
    case 2
    then show ?thesis using same wf by simp
  next
    case 3
    then obtain bs where "snapshots st g = Some bs" using rel(2) by blast
    then show ?thesis using rel(1) [OF 3] release_slot [OF wf] 3 by simp
  qed
  then show "store_wf st'" "snapshots st' =
      (if r = store_ok \<and> retention = retire_after then (snapshots st)(g := None) else snapshots st)"
    "payload_size st' = payload_size st" "slot_count st' = slot_count st"
    "next_generation st' = next_generation st" by blast+
qed

lemma retire_contract:
  assumes wf: "store_wf st" and res: "retire g st = (r, st')"
  shows "r = store_ok \<longleftrightarrow> valid_generation g \<and> snapshots st g \<noteq> None"
    and "store_wf st'"
    and "snapshots st' = (if r = store_ok then (snapshots st)(g := None) else snapshots st)"
    and "payload_size st' = payload_size st" and "slot_count st' = slot_count st"
    and "next_generation st' = next_generation st"
proof -
  have ctl: "controls st \<noteq> None" using wf by (simp add: store_wf_def store_shape_def)
  show iff: "r = store_ok \<longleftrightarrow> valid_generation g \<and> snapshots st g \<noteq> None"
    using res ctl claim_ok(2) [OF wf, of g]
    by (auto simp: retire_def Let_def word_neq_0_conv split: if_splits snapshot_store_result.splits)
  have "store_wf st' \<and> snapshots st' = (if r = store_ok then (snapshots st)(g := None) else snapshots st) \<and>
    payload_size st' = payload_size st \<and> slot_count st' = slot_count st \<and>
    next_generation st' = next_generation st"
  proof (cases "r = store_ok")
    case True
    then have "st' = set_control (slot_index st g) (encode_control g kFree) st"
      using res by (auto simp: retire_def Let_def split: if_splits snapshot_store_result.splits)
    moreover obtain bs where "snapshots st g = Some bs" using iff True by blast
    ultimately show ?thesis using release_slot [OF wf] True by simp
  next
    case False
    then have "st' = st"
      using res by (auto simp: retire_def Let_def split: if_splits snapshot_store_result.splits)
    then show ?thesis using wf False by simp
  qed
  then show "store_wf st'" "snapshots st' = (if r = store_ok then (snapshots st)(g := None) else snapshots st)"
    "payload_size st' = payload_size st" "slot_count st' = slot_count st"
    "next_generation st' = next_generation st" by blast+
qed

lemma create_contract:
  assumes "create_store slot_bytes slots out = (ok, st)"
  shows "store_wf st" and "snapshots st = Map.empty" and "next_generation st = 1"
    and "payload_size st = slot_bytes" and "slot_count st = slots"
proof -
  from assms have st: "st = \<lparr>payload_size = slot_bytes, slot_count = slots,
      payload_storage_bytes = slot_bytes * slots, next_generation = 1,
      controls = Some (replicate slots 0), payload = Some (replicate (slot_bytes * slots) 0)\<rparr>"
    and pos: "0 < slot_bytes" "0 < slots"
    by (auto simp: create_store_def checked_multiply_size_def split: if_splits)
  show "next_generation st = 1" "payload_size st = slot_bytes" "slot_count st = slots" by (simp_all add: st)
  have ctl: "control_at st i = 0" if "i < slots" for i using that by (simp add: control_at_def st)
  have "slot_wf st i" if "i < slots" for i using ctl [OF that] by (simp add: slot_wf_def)
  moreover have "(1 :: u64) \<le> maximum_generation"
    by (simp add: maximum_generation_def u64_max_def drop_bit_eq_div)
  ultimately show "store_wf st" using pos by (simp add: store_wf_def store_shape_def list_all_iff st mult.commute)
  have "encode_control g kPublished \<noteq> 0" if "g \<le> maximum_generation" for g
    using that by (metis control_roundtrip(6) control_zero(2) states_distinct(2))
  moreover have "slot_index st g < slots" for g using pos by (simp add: slot_index_def st)
  ultimately show "snapshots st = Map.empty" using ctl by (auto simp: snapshots_def fun_eq_iff)
qed

lemma restore_contract:
  assumes wf: "store_wf st" and res: "restore_committed g next_gen bs st = (r, st')"
  shows "r = store_ok \<longleftrightarrow> length bs = payload_size st \<and> valid_generation g \<and>
      (next_gen = 0 \<or> next_gen \<le> maximum_generation \<and> next_gen = g + 1)"
    and "store_wf st'" and "snapshots st' = (if r = store_ok then [g \<mapsto> bs] else snapshots st)"
    and "next_generation st' = (if r = store_ok then next_gen else next_generation st)"
proof -
  have shape: "store_shape st" using wf by (simp add: store_wf_def)
  have rej: "\<not> restore_rejected st g next_gen bs \<longleftrightarrow> length bs = payload_size st \<and> valid_generation g \<and>
      (next_gen = 0 \<or> next_gen \<le> maximum_generation \<and> next_gen = g + 1)"
    using shape by (auto simp: restore_rejected_def store_shape_def word_neq_0_conv)
  have ok: "r = store_ok \<longleftrightarrow> \<not> restore_rejected st g next_gen bs"
    using res by (auto simp: restore_committed_def Let_def split: if_splits)
  then show "r = store_ok \<longleftrightarrow> length bs = payload_size st \<and> valid_generation g \<and>
      (next_gen = 0 \<or> next_gen \<le> maximum_generation \<and> next_gen = g + 1)" using rej by simp
  have "store_wf st' \<and> snapshots st' = [g \<mapsto> bs] \<and> next_generation st' = next_gen" if "r = store_ok"
  proof -
    let ?i = "slot_index st g"
    let ?z = "st\<lparr>controls := Some (replicate (slot_count st) 0)\<rparr>"
    have g: "valid_generation g" "length bs = payload_size st"
      "next_gen = 0 \<or> next_gen \<le> maximum_generation \<and> next_gen = g + 1" using that ok rej by auto
    have less: "?i < slot_count st" using shape by (simp add: slot_less store_shape_def)
    have zs: "store_shape ?z" and zi: "slot_index ?z = slot_index st" and zn: "slot_count ?z = slot_count st"
      "payload_size ?z = payload_size st"
      using shape by (auto simp: store_shape_def slot_index_def fun_eq_iff)
    have st': "st' = (set_control ?i (encode_control g kPublished) (write_slot ?i bs ?z))\<lparr>next_generation := next_gen\<rparr>"
      using res that ok shape
      by (auto simp: restore_committed_def Let_def store_shape_def zi split: if_splits)
    have z0: "control_at ?z j = 0" if "j < slot_count st" for j using that by (simp add: control_at_def)
    have ctl: "control_at st' j = (if j = ?i then encode_control g kPublished else 0)" if "j < slot_count st" for j
      unfolding st' using zs less that g(2) by (simp add: control_at_set zn z0)
    have rd: "read_slot st' ?i = bs" unfolding st' using zs less g(2) by (simp add: read_write_slot zn)
    have idx: "slot_index st' = slot_index st" and shape': "store_shape st'" and cnt: "slot_count st' = slot_count st"
      and nx: "next_generation st' = next_gen"
      unfolding st' using zs less g(2) by (simp_all add: zi zn)
    have "slot_wf st' j" if "j < slot_count st" for j
      using g generation_step(1) [of g] ctl [OF that]
      by (cases "j = ?i") (auto simp: slot_wf_def Let_def idx nx)
    then have "store_wf st'" using shape' g(3) by (auto simp: store_wf_def list_all_iff cnt nx)
    moreover have "snapshots st' = [g \<mapsto> bs]"
    proof
      fix g'
      have less': "slot_index st g' < slot_count st" using shape by (simp add: slot_less store_shape_def)
      have nz: "encode_control g' kPublished \<noteq> 0" if "g' \<le> maximum_generation"
        using that by (metis control_roundtrip(6) control_zero(2) states_distinct(2))
      show "snapshots st' g' = [g \<mapsto> bs] g'"
      proof (cases "g' = g")
        case True
        then show ?thesis using g(1) ctl [OF less] rd by (simp add: snapshots_def idx)
      next
        case False
        then show ?thesis
          using ctl [OF less'] nz encode_published_inj [of g g'] g(1) by (simp add: snapshots_def idx)
      qed
    qed
    ultimately show ?thesis using nx by simp
  qed
  moreover have "st' = st" if "r \<noteq> store_ok"
    using res that ok by (auto simp: restore_committed_def Let_def split: if_splits)
  ultimately show "store_wf st'" "snapshots st' = (if r = store_ok then [g \<mapsto> bs] else snapshots st)"
    "next_generation st' = (if r = store_ok then next_gen else next_generation st)"
    using wf by (cases "r = store_ok"; simp)+
qed

end
