(* ===== verification/Snapshot_Protocol.thy ===== *)
theory Snapshot_Protocol
  imports Snapshot_Contract
begin

text \<open>
  Clients of a store see a map from generations to payloads.  The interface says what each
  operation does to the map; what a sequence of operations does follows from it.
\<close>

section \<open>The interface\<close>

datatype store_op = Publish u64 bytes | Copy u64 snapshot_retention | Retire u64

text \<open>The operations that may end the availability of a generation.\<close>

fun ends :: "u64 \<Rightarrow> store_op \<Rightarrow> bool" where
  "ends g (Publish g' bs) \<longleftrightarrow> g' = g"
| "ends g (Copy g' retention) \<longleftrightarrow> g' = g \<and> retention = retire_after"
| "ends g (Retire g') \<longleftrightarrow> g' = g"

locale generation_store =
  fixes wf :: "'s \<Rightarrow> bool"
    and view :: "'s \<Rightarrow> u64 \<Rightarrow> bytes option"
    and width :: "'s \<Rightarrow> nat"
    and do_publish :: "u64 \<Rightarrow> bytes \<Rightarrow> 's \<Rightarrow> snapshot_store_result \<times> 's"
    and do_copy :: "u64 \<Rightarrow> bytes \<Rightarrow> snapshot_retention \<Rightarrow> 's \<Rightarrow> snapshot_store_result \<times> bytes \<times> 's"
    and do_retire :: "u64 \<Rightarrow> 's \<Rightarrow> snapshot_store_result \<times> 's"
  assumes publish_law: "wf st \<Longrightarrow> do_publish g bs st = (r, st') \<Longrightarrow>
      wf st' \<and> width st' = width st \<and> view st' = (if r = store_ok then (view st)(g \<mapsto> bs) else view st)"
    and copy_law: "wf st \<Longrightarrow> do_copy g out retention st = (r, out', st') \<Longrightarrow>
      wf st' \<and> width st' = width st \<and>
      view st' = (if r = store_ok \<and> retention = retire_after then (view st)(g := None) else view st)"
    and read_law: "wf st \<Longrightarrow> view st g = Some bs \<Longrightarrow> length out = width st \<Longrightarrow>
      retention = retain \<or> retention = retire_after \<Longrightarrow>
      fst (do_copy g out retention st) = store_ok \<and> fst (snd (do_copy g out retention st)) = bs"
    and retire_law: "wf st \<Longrightarrow> do_retire g st = (r, st') \<Longrightarrow>
      wf st' \<and> width st' = width st \<and> view st' = (if r = store_ok then (view st)(g := None) else view st)"
begin

text \<open>A sequence of operations, each with the output buffer of the store's width.\<close>

primrec run :: "store_op list \<Rightarrow> 's \<Rightarrow> 's" where
  "run [] st = st"
| "run (x # xs) st = run xs
     (case x of Publish g bs \<Rightarrow> snd (do_publish g bs st)
      | Copy g retention \<Rightarrow> snd (snd (do_copy g (replicate (width st) 0) retention st))
      | Retire g \<Rightarrow> snd (do_retire g st))"

lemma run_keeps:
  assumes "wf st" and "view st g = Some bs" and "\<not> list_ex (ends g) xs"
  shows "wf (run xs st) \<and> width (run xs st) = width st \<and> view (run xs st) g = Some bs"
  using assms
proof (induction xs arbitrary: st)
  case Nil
  then show ?case by simp
next
  case (Cons x xs)
  show ?case
  proof (cases x)
    case (Publish g' bs')
    obtain r st' where e: "do_publish g' bs' st = (r, st')" by (metis prod.collapse)
    then show ?thesis
      using Cons.IH [of st'] Cons.prems publish_law [OF Cons.prems(1) e] Publish by (simp split: if_splits)
  next
    case (Copy g' retention)
    obtain r out' st' where e: "do_copy g' (replicate (width st) 0) retention st = (r, out', st')"
      by (metis prod.collapse)
    then show ?thesis
      using Cons.IH [of st'] Cons.prems copy_law [OF Cons.prems(1) e] Copy by (auto split: if_splits)
  next
    case (Retire g')
    obtain r st' where e: "do_retire g' st = (r, st')" by (metis prod.collapse)
    then show ?thesis
      using Cons.IH [of st'] Cons.prems retire_law [OF Cons.prems(1) e] Retire by (simp split: if_splits)
  qed
qed

lemma published_then_read:
  assumes wf: "wf st" and pub: "do_publish g bs st = (store_ok, st')" and keep: "\<not> list_ex (ends g) xs"
    and args: "length out = width st" "retention = retain \<or> retention = retire_after"
  shows "fst (do_copy g out retention (run xs st')) = store_ok \<and>
    fst (snd (do_copy g out retention (run xs st'))) = bs"
proof -
  have st': "wf st'" "width st' = width st" "view st' g = Some bs"
    using publish_law [OF wf pub] by simp_all
  then show ?thesis using run_keeps [OF st'(1,3) keep] read_law args by metis
qed

end

text \<open>The same run on the store of the runtime, at the top level.\<close>

primrec run_store :: "store_op list \<Rightarrow> snapshot_store \<Rightarrow> snapshot_store" where
  "run_store [] st = st"
| "run_store (x # xs) st = run_store xs
     (case x of Publish g bs \<Rightarrow> snd (publish g bs st)
      | Copy g retention \<Rightarrow> snd (snd (copy_snapshot g (replicate (payload_size st) 0) retention st))
      | Retire g \<Rightarrow> snd (retire g st))"

interpretation store: generation_store store_wf snapshots payload_size publish copy_snapshot retire
proof (unfold_locales, goal_cases)
  case (1 st g bs r st')
  then show ?case using publish_contract [OF 1] by simp
next
  case (2 st g out retention r out' st')
  then show ?case using copy_contract [OF 2] by simp
next
  case (3 st g bs out retention)
  obtain r out' st' where e: "copy_snapshot g out retention st = (r, out', st')" by (metis prod.collapse)
  have "valid_generation g" using 3(2) by (simp add: snapshots_Some)
  then show ?case using copy_contract(1,3) [OF 3(1) e] 3 e by (auto split: if_splits)
next
  case (4 st g r st')
  then show ?case using retire_contract [OF 4] by simp
qed

lemma run_store_run: "run_store xs st = store.run xs st"
  by (induction xs arbitrary: st) auto

end
