(* ===== verification/Snapshot_Interleaving.thy ===== *)
theory Snapshot_Interleaving
  imports Snapshot_Protocol
begin

text \<open>
  One producer and one consumer on the same store, interleaved at the level of the atomic accesses
  of \<^verbatim>\<open>SnapshotStore::publish\<close>, \<^verbatim>\<open>SnapshotStore::copy\<close> and \<^verbatim>\<open>SnapshotStore::retire\<close>: the load of the control
  word, the compare-and-exchange, each byte of the two payload copies, the final store of the
  control word and the producer's own update of the next generation.  A rejected call and a load that
  does not find the state it needs change nothing and are not steps.  The log records what
  each generation was published with; no step depends on it.
\<close>

section \<open>The system\<close>

datatype producer =
    P_idle
  | P_loaded u64 bytes u64
  | P_writing u64 bytes nat
  | P_advancing u64

datatype consumer =
    C_idle
  | C_loaded u64 snapshot_retention u64
  | C_reading u64 snapshot_retention bytes
  | C_returned u64 bytes
  | R_loaded u64 u64

record snapshot_system =
  sys_store :: snapshot_store
  sys_producer :: producer
  sys_consumer :: consumer
  sys_log :: "u64 \<Rightarrow> bytes option"

definition write_byte :: "nat \<Rightarrow> nat \<Rightarrow> u8 \<Rightarrow> snapshot_store \<Rightarrow> snapshot_store" where
  "write_byte slot k b st =
     st\<lparr>payload := map_option (\<lambda>m. m[slot * payload_size st + k := b]) (payload st)\<rparr>"

definition read_byte :: "snapshot_store \<Rightarrow> nat \<Rightarrow> nat \<Rightarrow> u8" where
  "read_byte st slot k = the (payload st) ! (slot * payload_size st + k)"

inductive system_step :: "snapshot_system \<Rightarrow> snapshot_system \<Rightarrow> bool" where
  p_load: "sys_producer s = P_idle \<Longrightarrow> st = sys_store s \<Longrightarrow> \<not> publish_rejected st g bs \<Longrightarrow>
    observed = control_at st (slot_index st g) \<Longrightarrow> control_state observed = kFree \<Longrightarrow>
    system_step s (s\<lparr>sys_producer := P_loaded g bs observed\<rparr>)"
| p_claim: "sys_producer s = P_loaded g bs observed \<Longrightarrow> st = sys_store s \<Longrightarrow>
    control_at st (slot_index st g) = observed \<Longrightarrow>
    system_step s (s\<lparr>sys_producer := P_writing g bs 0,
      sys_store := set_control (slot_index st g) (encode_control g kWriting) st\<rparr>)"
| p_lost: "sys_producer s = P_loaded g bs observed \<Longrightarrow> st = sys_store s \<Longrightarrow>
    control_at st (slot_index st g) \<noteq> observed \<Longrightarrow>
    system_step s (s\<lparr>sys_producer := P_idle\<rparr>)"
| p_byte: "sys_producer s = P_writing g bs k \<Longrightarrow> st = sys_store s \<Longrightarrow> k < payload_size st \<Longrightarrow>
    system_step s (s\<lparr>sys_producer := P_writing g bs (Suc k),
      sys_store := write_byte (slot_index st g) k (bs ! k) st\<rparr>)"
| p_publish: "sys_producer s = P_writing g bs k \<Longrightarrow> st = sys_store s \<Longrightarrow> k = payload_size st \<Longrightarrow>
    system_step s (s\<lparr>sys_producer := P_advancing g, sys_log := (sys_log s)(g \<mapsto> bs),
      sys_store := set_control (slot_index st g) (encode_control g kPublished) st\<rparr>)"
| p_advance: "sys_producer s = P_advancing g \<Longrightarrow> st = sys_store s \<Longrightarrow>
    system_step s (s\<lparr>sys_producer := P_idle,
      sys_store := st\<lparr>next_generation := (if g = maximum_generation then 0 else g + 1)\<rparr>\<rparr>)"
| c_load: "sys_consumer s = C_idle \<Longrightarrow> st = sys_store s \<Longrightarrow> \<not> copy_rejected st g out retention \<Longrightarrow>
    observed = control_at st (slot_index st g) \<Longrightarrow> copy_claim g observed = store_ok \<Longrightarrow>
    system_step s (s\<lparr>sys_consumer := C_loaded g retention observed\<rparr>)"
| c_claim: "sys_consumer s = C_loaded g retention observed \<Longrightarrow> st = sys_store s \<Longrightarrow>
    control_at st (slot_index st g) = observed \<Longrightarrow>
    system_step s (s\<lparr>sys_consumer := C_reading g retention [],
      sys_store := set_control (slot_index st g) (encode_control g kReading) st\<rparr>)"
| c_lost: "sys_consumer s = C_loaded g retention observed \<Longrightarrow> st = sys_store s \<Longrightarrow>
    control_at st (slot_index st g) \<noteq> observed \<Longrightarrow>
    system_step s (s\<lparr>sys_consumer := C_idle\<rparr>)"
| c_byte: "sys_consumer s = C_reading g retention buf \<Longrightarrow> st = sys_store s \<Longrightarrow>
    length buf < payload_size st \<Longrightarrow>
    system_step s (s\<lparr>sys_consumer :=
      C_reading g retention (buf @ [read_byte st (slot_index st g) (length buf)])\<rparr>)"
| c_finish: "sys_consumer s = C_reading g retention buf \<Longrightarrow> st = sys_store s \<Longrightarrow>
    length buf = payload_size st \<Longrightarrow>
    system_step s (s\<lparr>sys_consumer := C_returned g buf,
      sys_store := set_control (slot_index st g)
        (encode_control g (if retention = retain then kPublished else kFree)) st\<rparr>)"
| c_return: "sys_consumer s = C_returned g buf \<Longrightarrow> system_step s (s\<lparr>sys_consumer := C_idle\<rparr>)"
| r_load: "sys_consumer s = C_idle \<Longrightarrow> st = sys_store s \<Longrightarrow> g \<noteq> 0 \<Longrightarrow> g \<le> maximum_generation \<Longrightarrow>
    observed = control_at st (slot_index st g) \<Longrightarrow> retire_claim g observed = store_ok \<Longrightarrow>
    system_step s (s\<lparr>sys_consumer := R_loaded g observed\<rparr>)"
| r_claim: "sys_consumer s = R_loaded g observed \<Longrightarrow> st = sys_store s \<Longrightarrow>
    control_at st (slot_index st g) = observed \<Longrightarrow>
    system_step s (s\<lparr>sys_consumer := C_idle,
      sys_store := set_control (slot_index st g) (encode_control g kFree) st\<rparr>)"
| r_lost: "sys_consumer s = R_loaded g observed \<Longrightarrow> st = sys_store s \<Longrightarrow>
    control_at st (slot_index st g) \<noteq> observed \<Longrightarrow>
    system_step s (s\<lparr>sys_consumer := C_idle\<rparr>)"

definition initial_system :: "snapshot_store \<Rightarrow> snapshot_system" where
  "initial_system st = \<lparr>sys_store = st, sys_producer = P_idle, sys_consumer = C_idle, sys_log = Map.empty\<rparr>"

inductive reachable :: "nat \<Rightarrow> nat \<Rightarrow> snapshot_system \<Rightarrow> bool" for slot_bytes slots where
  start: "create_store slot_bytes slots empty_store = (ok, st) \<Longrightarrow> reachable slot_bytes slots (initial_system st)"
| step: "reachable slot_bytes slots s \<Longrightarrow> system_step s s' \<Longrightarrow> reachable slot_bytes slots s'"

section \<open>The invariant\<close>

definition producer_inv :: "snapshot_store \<Rightarrow> producer \<Rightarrow> bool" where
  "producer_inv st p \<longleftrightarrow>
     (case p of
       P_idle \<Rightarrow> True
     | P_loaded g bs observed \<Rightarrow>
         valid_generation g \<and> g = next_generation st \<and> length bs = payload_size st \<and>
         control_state observed = kFree
     | P_writing g bs k \<Rightarrow>
         valid_generation g \<and> g = next_generation st \<and> length bs = payload_size st \<and> k \<le> payload_size st \<and>
         control_at st (slot_index st g) = encode_control g kWriting \<and>
         take k (read_slot st (slot_index st g)) = take k bs
     | P_advancing g \<Rightarrow> valid_generation g \<and> g = next_generation st)"

definition consumer_inv :: "snapshot_store \<Rightarrow> (u64 \<Rightarrow> bytes option) \<Rightarrow> consumer \<Rightarrow> bool" where
  "consumer_inv st log c \<longleftrightarrow>
     (case c of
       C_idle \<Rightarrow> True
     | C_loaded g retention observed \<Rightarrow> valid_generation g \<and> observed = encode_control g kPublished
     | C_reading g retention buf \<Rightarrow>
         valid_generation g \<and> control_at st (slot_index st g) = encode_control g kReading \<and>
         length buf \<le> payload_size st \<and> buf = take (length buf) (read_slot st (slot_index st g))
     | C_returned g buf \<Rightarrow> log g = Some buf
     | R_loaded g observed \<Rightarrow> valid_generation g \<and> observed = encode_control g kPublished)"

definition writes_slot :: "snapshot_store \<Rightarrow> producer \<Rightarrow> nat \<Rightarrow> bool" where
  "writes_slot st p i \<longleftrightarrow> (case p of P_writing g bs k \<Rightarrow> slot_index st g = i | _ \<Rightarrow> False)"

definition reads_slot :: "snapshot_store \<Rightarrow> consumer \<Rightarrow> nat \<Rightarrow> bool" where
  "reads_slot st c i \<longleftrightarrow> (case c of C_reading g retention buf \<Rightarrow> slot_index st g = i | _ \<Rightarrow> False)"

text \<open>
  A slot in the state writing or reading is owned by the producer or the consumer, and the bytes of a
  published slot, being read or not, are those its generation was published with.
\<close>

definition slot_inv ::
  "snapshot_store \<Rightarrow> (u64 \<Rightarrow> bytes option) \<Rightarrow> producer \<Rightarrow> consumer \<Rightarrow> nat \<Rightarrow> bool" where
  "slot_inv st log p c i \<longleftrightarrow> (let w = control_at st i; g = control_generation w in
     (control_state w = kWriting \<longrightarrow> writes_slot st p i) \<and>
     (control_state w = kReading \<longrightarrow> reads_slot st c i) \<and>
     (control_state w = kPublished \<or> control_state w = kReading \<longrightarrow>
        valid_generation g \<and> slot_index st g = i \<and> log g = Some (read_slot st i)))"

definition log_inv :: "snapshot_store \<Rightarrow> (u64 \<Rightarrow> bytes option) \<Rightarrow> producer \<Rightarrow> bool" where
  "log_inv st log p \<longleftrightarrow> (\<forall>g. log g \<noteq> None \<longrightarrow>
     next_generation st = 0 \<or> g < next_generation st \<or> p = P_advancing g)"

definition system_inv :: "snapshot_system \<Rightarrow> bool" where
  "system_inv s \<longleftrightarrow> store_shape (sys_store s) \<and> producer_inv (sys_store s) (sys_producer s) \<and>
     consumer_inv (sys_store s) (sys_log s) (sys_consumer s) \<and>
     log_inv (sys_store s) (sys_log s) (sys_producer s) \<and>
     (\<forall>i < slot_count (sys_store s).
        slot_inv (sys_store s) (sys_log s) (sys_producer s) (sys_consumer s) i)"

lemmas inv_defs = system_inv_def producer_inv_def consumer_inv_def slot_inv_def log_inv_def writes_slot_def
  reads_slot_def Let_def

lemma claimed_published:
  "valid_generation g \<Longrightarrow> copy_claim g c = store_ok \<Longrightarrow> c = encode_control g kPublished"
  "valid_generation g \<Longrightarrow> retire_claim g c = store_ok \<Longrightarrow> c = encode_control g kPublished"
  using control_eq [of c]
  by (auto simp: copy_claim_def retire_claim_def Let_def split: if_splits)

lemma system_slot_less: "system_inv s \<Longrightarrow> slot_index (sys_store s) g < slot_count (sys_store s)"
  by (simp add: system_inv_def store_shape_def slot_less)

lemma step_p_load:
  assumes "system_inv s" and "sys_producer s = P_idle" and "\<not> publish_rejected (sys_store s) g bs"
    and "control_state c = kFree"
  shows "system_inv (s\<lparr>sys_producer := P_loaded g bs c\<rparr>)"
  using assms by (auto simp: inv_defs publish_rejected_def word_neq_0_conv)

lemma step_p_lost:
  assumes "system_inv s" and "sys_producer s = P_loaded g bs c"
  shows "system_inv (s\<lparr>sys_producer := P_idle\<rparr>)"
  using assms by (auto simp: inv_defs)

lemma step_c_load:
  assumes "system_inv s" and "sys_consumer s = C_idle" and "\<not> copy_rejected (sys_store s) g out retention"
    and "copy_claim g c = store_ok"
  shows "system_inv (s\<lparr>sys_consumer := C_loaded g retention c\<rparr>)"
  using assms claimed_published(1) [of g c] by (auto simp: inv_defs copy_rejected_def word_neq_0_conv)

lemma step_r_load:
  assumes "system_inv s" and "sys_consumer s = C_idle" and "g \<noteq> 0" and "g \<le> maximum_generation"
    and "retire_claim g c = store_ok"
  shows "system_inv (s\<lparr>sys_consumer := R_loaded g c\<rparr>)"
  using assms claimed_published(2) [of g c] by (auto simp: inv_defs word_neq_0_conv)

lemma step_c_idle:
  assumes "system_inv s" and "\<forall>g retention buf. sys_consumer s \<noteq> C_reading g retention buf"
  shows "system_inv (s\<lparr>sys_consumer := C_idle\<rparr>)"
  using assms by (cases "sys_consumer s") (auto simp: inv_defs)

lemma step_c_byte:
  assumes inv: "system_inv s" and pc: "sys_consumer s = C_reading g retention buf"
    and st: "st = sys_store s" and k: "length buf < payload_size st"
  shows "system_inv (s\<lparr>sys_consumer := C_reading g retention
    (buf @ [read_byte st (slot_index st g) (length buf)])\<rparr>)"
proof -
  let ?i = "slot_index st g"
  have less: "?i < slot_count st" using system_slot_less [OF inv] st by simp
  have buf: "buf = take (length buf) (read_slot st ?i)" and len: "length (read_slot st ?i) = payload_size st"
    using inv pc slot_range [OF less, of "payload_size st"] st
    by (auto simp: inv_defs store_shape_def read_slot_def)
  have "read_byte st ?i (length buf) = read_slot st ?i ! length buf"
    using k slot_range [OF less, of "payload_size st"] inv st
    by (simp add: read_byte_def read_slot_def nth_slice system_inv_def store_shape_def)
  then have "buf @ [read_byte st ?i (length buf)] = take (Suc (length buf)) (read_slot st ?i)"
    using buf len k by (simp add: take_Suc_conv_app_nth)
  then show ?thesis
    using inv pc k st len by (auto simp: inv_defs min_def)
qed

text \<open>Steps that change one control word.\<close>

lemma owner_set_control [simp]:
  "writes_slot (set_control i w st) p j = writes_slot st p j"
  "reads_slot (set_control i w st) c j = reads_slot st c j"
  by (cases p; simp add: writes_slot_def) (cases c; simp add: reads_slot_def)

lemma control_step:
  assumes inv: "system_inv s" and st: "st = sys_store s" and i: "i < slot_count st"
    and p': "producer_inv (set_control i w st) p'" and c': "consumer_inv (set_control i w st) log' c'"
    and log': "log_inv st log' p'"
    and self: "slot_inv (set_control i w st) log' p' c' i"
    and others: "\<And>j. j < slot_count st \<Longrightarrow> j \<noteq> i \<Longrightarrow> slot_inv st (sys_log s) (sys_producer s) (sys_consumer s) j \<Longrightarrow>
      slot_inv (set_control i w st) log' p' c' j"
  shows "system_inv \<lparr>sys_store = set_control i w st, sys_producer = p', sys_consumer = c', sys_log = log'\<rparr>"
proof -
  have "slot_inv (set_control i w st) log' p' c' j" if "j < slot_count st" for j
    using that self others inv st by (cases "j = i") (auto simp: system_inv_def)
  then show ?thesis using inv p' c' log' st by (simp add: system_inv_def log_inv_def)
qed

lemma other_slot:
  assumes "store_shape st" and "i < slot_count st" and "j \<noteq> i"
    and "slot_inv st log p c j" and "writes_slot st p j \<Longrightarrow> writes_slot st p' j"
    and "reads_slot st c j \<Longrightarrow> reads_slot st c' j"
    and "\<And>g. log g \<noteq> None \<Longrightarrow> log' g = log g"
  shows "slot_inv (set_control i w st) log' p' c' j"
  using assms control_at_set [OF assms(1,2), of w j]
  by (auto simp: slot_inv_def Let_def)

lemma producer_keeps:
  assumes "store_shape st" and "i < slot_count st" and "producer_inv st p"
    and "control_state (control_at st i) \<noteq> kWriting"
  shows "producer_inv (set_control i w st) p"
  using assms by (cases p) (auto simp: producer_inv_def control_at_set)

lemma consumer_keeps:
  assumes "store_shape st" and "i < slot_count st" and "consumer_inv st log c"
    and "control_state (control_at st i) \<noteq> kReading" and "\<And>g. log g \<noteq> None \<Longrightarrow> log' g = log g"
  shows "consumer_inv (set_control i w st) log' c"
  using assms by (cases c) (auto simp: consumer_inv_def control_at_set)

lemma step_p_claim:
  assumes inv: "system_inv s" and pc: "sys_producer s = P_loaded g bs (control_at st (slot_index st g))"
    and st: "st = sys_store s"
  shows "system_inv (s\<lparr>sys_producer := P_writing g bs 0,
    sys_store := set_control (slot_index st g) (encode_control g kWriting) st\<rparr>)"
proof -
  let ?i = "slot_index st g" and ?w = "encode_control g kWriting"
  have less: "?i < slot_count st" using system_slot_less [OF inv] st by simp
  have shape: "store_shape st" using inv st by (simp add: system_inv_def)
  have p: "valid_generation g" "next_generation st = g" "length bs = payload_size st"
    "control_state (control_at st ?i) = kFree"
    using inv pc st by (auto simp: system_inv_def producer_inv_def)
  have ctl: "control_at (set_control ?i ?w st) j = (if j = ?i then ?w else control_at st j)" for j
    using control_at_set [OF shape less] by simp
  have c: "consumer_inv st (sys_log s) (sys_consumer s)" using inv st by (simp add: system_inv_def)
  have c': "consumer_inv (set_control ?i ?w st) (sys_log s) (sys_consumer s)"
    using p(4) by (intro consumer_keeps [OF shape less c]) simp_all
  have "system_inv \<lparr>sys_store = set_control ?i ?w st, sys_producer = P_writing g bs 0,
      sys_consumer = sys_consumer s, sys_log = sys_log s\<rparr>"
  proof (rule control_step [OF inv st less _ c'])
    show "producer_inv (set_control ?i ?w st) (P_writing g bs 0)"
      using p by (simp add: producer_inv_def ctl)
    show "log_inv st (sys_log s) (P_writing g bs 0)"
      using inv st pc by (auto simp: system_inv_def log_inv_def)
    show "slot_inv (set_control ?i ?w st) (sys_log s) (P_writing g bs 0) (sys_consumer s) ?i"
      using p by (simp add: slot_inv_def Let_def ctl writes_slot_def)
    fix j assume "j \<noteq> ?i" and old: "slot_inv st (sys_log s) (sys_producer s) (sys_consumer s) j"
    then show "slot_inv (set_control ?i ?w st) (sys_log s) (P_writing g bs 0) (sys_consumer s) j"
      using pc by (intro other_slot [OF shape less _ old]) (auto simp: writes_slot_def)
  qed
  then show ?thesis by (cases s) simp
qed

lemma step_p_publish:
  assumes inv: "system_inv s" and pc: "sys_producer s = P_writing g bs (payload_size st)"
    and st: "st = sys_store s"
  shows "system_inv (s\<lparr>sys_producer := P_advancing g, sys_log := (sys_log s)(g \<mapsto> bs),
    sys_store := set_control (slot_index st g) (encode_control g kPublished) st\<rparr>)"
proof -
  let ?i = "slot_index st g" and ?w = "encode_control g kPublished" and ?log = "(sys_log s)(g \<mapsto> bs)"
  have less: "?i < slot_count st" using system_slot_less [OF inv] st by simp
  have shape: "store_shape st" using inv st by (simp add: system_inv_def)
  have p: "valid_generation g" "next_generation st = g" "length bs = payload_size st"
    "control_at st ?i = encode_control g kWriting"
    "take (payload_size st) (read_slot st ?i) = take (payload_size st) bs"
    using inv pc st by (auto simp: system_inv_def producer_inv_def)
  have full: "read_slot st ?i = bs"
    using p(3,5) slot_range [OF less, of "payload_size st"] shape
    by (simp add: read_slot_def store_shape_def)
  have ctl: "control_at (set_control ?i ?w st) j = (if j = ?i then ?w else control_at st j)" for j
    using control_at_set [OF shape less] by simp
  have fresh: "sys_log s g = None"
    using inv pc st p(1,2) by (auto simp: system_inv_def log_inv_def)
  have c: "consumer_inv st (sys_log s) (sys_consumer s)" using inv st by (simp add: system_inv_def)
  have c': "consumer_inv (set_control ?i ?w st) ?log (sys_consumer s)"
    using p(1,4) fresh by (intro consumer_keeps [OF shape less c]) auto
  have "system_inv \<lparr>sys_store = set_control ?i ?w st, sys_producer = P_advancing g,
      sys_consumer = sys_consumer s, sys_log = ?log\<rparr>"
  proof (rule control_step [OF inv st less _ c'])
    show "producer_inv (set_control ?i ?w st) (P_advancing g)" using p by (simp add: producer_inv_def)
    show "log_inv st ?log (P_advancing g)" using inv st pc by (auto simp: system_inv_def log_inv_def)
    show "slot_inv (set_control ?i ?w st) ?log (P_advancing g) (sys_consumer s) ?i"
      using p full by (simp add: slot_inv_def Let_def ctl)
    fix j assume j: "j \<noteq> ?i" and old: "slot_inv st (sys_log s) (sys_producer s) (sys_consumer s) j"
    then show "slot_inv (set_control ?i ?w st) ?log (P_advancing g) (sys_consumer s) j"
      using pc fresh by (intro other_slot [OF shape less j old]) (auto simp: writes_slot_def)
  qed
  then show ?thesis by (cases s) simp
qed

lemma step_c_claim:
  assumes inv: "system_inv s" and pc: "sys_consumer s = C_loaded g retention (control_at st (slot_index st g))"
    and st: "st = sys_store s"
  shows "system_inv (s\<lparr>sys_consumer := C_reading g retention [],
    sys_store := set_control (slot_index st g) (encode_control g kReading) st\<rparr>)"
proof -
  let ?i = "slot_index st g" and ?w = "encode_control g kReading"
  have less: "?i < slot_count st" using system_slot_less [OF inv] st by simp
  have shape: "store_shape st" using inv st by (simp add: system_inv_def)
  have c: "valid_generation g" "control_at st ?i = encode_control g kPublished"
    using inv pc st by (auto simp: system_inv_def consumer_inv_def)
  have old: "slot_inv st (sys_log s) (sys_producer s) (sys_consumer s) ?i"
    using inv less st by (simp add: system_inv_def)
  have ctl: "control_at (set_control ?i ?w st) j = (if j = ?i then ?w else control_at st j)" for j
    using control_at_set [OF shape less] by simp
  have p: "producer_inv st (sys_producer s)" using inv st by (simp add: system_inv_def)
  have p': "producer_inv (set_control ?i ?w st) (sys_producer s)"
    using c by (intro producer_keeps [OF shape less p]) simp
  have "system_inv \<lparr>sys_store = set_control ?i ?w st, sys_producer = sys_producer s,
      sys_consumer = C_reading g retention [], sys_log = sys_log s\<rparr>"
  proof (rule control_step [OF inv st less p'])
    show "consumer_inv (set_control ?i ?w st) (sys_log s) (C_reading g retention [])"
      using c by (simp add: consumer_inv_def ctl)
    show "log_inv st (sys_log s) (sys_producer s)" using inv st by (simp add: system_inv_def)
    show "slot_inv (set_control ?i ?w st) (sys_log s) (sys_producer s) (C_reading g retention []) ?i"
      using c old by (simp add: slot_inv_def Let_def ctl reads_slot_def)
    fix j assume j: "j \<noteq> ?i" and old: "slot_inv st (sys_log s) (sys_producer s) (sys_consumer s) j"
    then show "slot_inv (set_control ?i ?w st) (sys_log s) (sys_producer s) (C_reading g retention []) j"
      using pc by (intro other_slot [OF shape less j old]) (auto simp: reads_slot_def)
  qed
  then show ?thesis by (cases s) simp
qed

lemma step_c_finish:
  assumes inv: "system_inv s" and pc: "sys_consumer s = C_reading g retention buf"
    and st: "st = sys_store s" and len: "length buf = payload_size st"
    and w: "w = encode_control g kPublished \<or> w = encode_control g kFree"
  shows "system_inv (s\<lparr>sys_consumer := C_returned g buf, sys_store := set_control (slot_index st g) w st\<rparr>)"
proof -
  let ?i = "slot_index st g"
  have less: "?i < slot_count st" using system_slot_less [OF inv] st by simp
  have shape: "store_shape st" using inv st by (simp add: system_inv_def)
  have c: "valid_generation g" "control_at st ?i = encode_control g kReading"
    "buf = take (length buf) (read_slot st ?i)"
    using inv pc st by (auto simp: system_inv_def consumer_inv_def)
  have old: "slot_inv st (sys_log s) (sys_producer s) (sys_consumer s) ?i"
    using inv less st by (simp add: system_inv_def)
  have "length (read_slot st ?i) = payload_size st"
    using slot_range [OF less, of "payload_size st"] shape by (simp add: read_slot_def store_shape_def)
  then have log: "sys_log s g = Some buf" "read_slot st ?i = buf"
    using old c len by (auto simp: slot_inv_def Let_def)
  have p: "producer_inv st (sys_producer s)" using inv st by (simp add: system_inv_def)
  have p': "producer_inv (set_control ?i w st) (sys_producer s)"
    using c by (intro producer_keeps [OF shape less p]) simp
  have "system_inv \<lparr>sys_store = set_control ?i w st, sys_producer = sys_producer s,
      sys_consumer = C_returned g buf, sys_log = sys_log s\<rparr>"
  proof (rule control_step [OF inv st less p'])
    show "consumer_inv (set_control ?i w st) (sys_log s) (C_returned g buf)"
      using log by (simp add: consumer_inv_def)
    show "log_inv st (sys_log s) (sys_producer s)" using inv st by (simp add: system_inv_def)
    show "slot_inv (set_control ?i w st) (sys_log s) (sys_producer s) (C_returned g buf) ?i"
      using c w log control_at_set [OF shape less, of w ?i] by (auto simp: slot_inv_def Let_def)
    fix j assume j: "j \<noteq> ?i" and old: "slot_inv st (sys_log s) (sys_producer s) (sys_consumer s) j"
    then show "slot_inv (set_control ?i w st) (sys_log s) (sys_producer s) (C_returned g buf) j"
      using pc by (intro other_slot [OF shape less j old]) (auto simp: reads_slot_def)
  qed
  then show ?thesis by (cases s) simp
qed

lemma step_r_claim:
  assumes inv: "system_inv s" and pc: "sys_consumer s = R_loaded g (control_at st (slot_index st g))"
    and st: "st = sys_store s"
  shows "system_inv (s\<lparr>sys_consumer := C_idle,
    sys_store := set_control (slot_index st g) (encode_control g kFree) st\<rparr>)"
proof -
  let ?i = "slot_index st g" and ?w = "encode_control g kFree"
  have less: "?i < slot_count st" using system_slot_less [OF inv] st by simp
  have shape: "store_shape st" using inv st by (simp add: system_inv_def)
  have c: "valid_generation g" "control_at st ?i = encode_control g kPublished"
    using inv pc st by (auto simp: system_inv_def consumer_inv_def)
  have p: "producer_inv st (sys_producer s)" using inv st by (simp add: system_inv_def)
  have p': "producer_inv (set_control ?i ?w st) (sys_producer s)"
    using c by (intro producer_keeps [OF shape less p]) simp
  have "system_inv \<lparr>sys_store = set_control ?i ?w st, sys_producer = sys_producer s,
      sys_consumer = C_idle, sys_log = sys_log s\<rparr>"
  proof (rule control_step [OF inv st less p'])
    show "consumer_inv (set_control ?i ?w st) (sys_log s) C_idle" by (simp add: consumer_inv_def)
    show "log_inv st (sys_log s) (sys_producer s)" using inv st by (simp add: system_inv_def)
    show "slot_inv (set_control ?i ?w st) (sys_log s) (sys_producer s) C_idle ?i"
      using c control_at_set [OF shape less, of ?w ?i] by (simp add: slot_inv_def Let_def)
    fix j assume j: "j \<noteq> ?i" and old: "slot_inv st (sys_log s) (sys_producer s) (sys_consumer s) j"
    then show "slot_inv (set_control ?i ?w st) (sys_log s) (sys_producer s) C_idle j"
      using pc by (intro other_slot [OF shape less j old]) (auto simp: reads_slot_def)
  qed
  then show ?thesis by (cases s) simp
qed

lemma step_p_advance:
  assumes inv: "system_inv s" and pc: "sys_producer s = P_advancing g" and st: "st = sys_store s"
  shows "system_inv (s\<lparr>sys_producer := P_idle,
    sys_store := st\<lparr>next_generation := (if g = maximum_generation then 0 else g + 1)\<rparr>\<rparr>)"
proof -
  let ?st = "st\<lparr>next_generation := (if g = maximum_generation then 0 else g + 1)\<rparr>"
  have p: "valid_generation g" "next_generation st = g" and shape: "store_shape st"
    using inv pc st by (auto simp: system_inv_def producer_inv_def)
  have c: "consumer_inv ?st (sys_log s) (sys_consumer s)"
    using inv st by (cases "sys_consumer s") (auto simp: system_inv_def consumer_inv_def)
  have "log_inv ?st (sys_log s) P_idle"
    unfolding log_inv_def
  proof (intro allI impI)
    fix g' assume "sys_log s g' \<noteq> None"
    then have "g' < g \<or> g' = g" using inv pc st p by (auto simp: system_inv_def log_inv_def)
    then have "g' < g + 1" using generation_step(1) [of g] p(1) by auto
    then show "next_generation ?st = 0 \<or> g' < next_generation ?st \<or> P_idle = P_advancing g'" by simp
  qed
  moreover have "slot_inv ?st (sys_log s) P_idle (sys_consumer s) i" if "i < slot_count st" for i
    using inv st pc that
    by (cases "sys_consumer s") (auto simp: system_inv_def slot_inv_def Let_def writes_slot_def reads_slot_def)
  ultimately have "system_inv \<lparr>sys_store = ?st, sys_producer = P_idle, sys_consumer = sys_consumer s,
      sys_log = sys_log s\<rparr>"
    using shape c by (simp add: system_inv_def producer_inv_def)
  then show ?thesis by (cases s) simp
qed

lemma write_byte_simps [simp]:
  "payload_size (write_byte i k b st) = payload_size st" "slot_count (write_byte i k b st) = slot_count st"
  "next_generation (write_byte i k b st) = next_generation st"
  "control_at (write_byte i k b st) = control_at st" "slot_index (write_byte i k b st) = slot_index st"
  by (simp_all add: write_byte_def control_at_def slot_index_def fun_eq_iff)

lemma owner_write_byte [simp]:
  "writes_slot (write_byte i k b st) p j = writes_slot st p j"
  "reads_slot (write_byte i k b st) c j = reads_slot st c j"
  by (cases p; simp add: writes_slot_def) (cases c; simp add: reads_slot_def)

lemma shape_write_byte: "store_shape st \<Longrightarrow> store_shape (write_byte i k b st)"
  by (auto simp: store_shape_def write_byte_def)

lemma read_write_byte:
  assumes "store_shape st" and "i < slot_count st" and "j < slot_count st" and "k < payload_size st"
  shows "read_slot (write_byte i k b st) j = (if j = i then (read_slot st i)[k := b] else read_slot st j)"
proof -
  obtain m where m: "payload st = Some m" "length m = slot_count st * payload_size st"
    using assms(1) by (auto simp: store_shape_def)
  have "slice (j * n) n (m[i * n + k := b]) = (if j = i then (slice (i * n) n m)[k := b] else slice (j * n) n m)"
    if "n = payload_size st" for n
    using that m assms slot_range [OF assms(2), of n] slot_range [OF assms(3), of n] slots_disjoint [of i j n]
    by (intro nth_equalityI) (auto simp: nth_slice nth_list_update)
  then show ?thesis using m by (simp add: read_slot_def write_byte_def)
qed

lemma step_p_byte:
  assumes inv: "system_inv s" and pc: "sys_producer s = P_writing g bs k"
    and st: "st = sys_store s" and k: "k < payload_size st"
  shows "system_inv (s\<lparr>sys_producer := P_writing g bs (Suc k),
    sys_store := write_byte (slot_index st g) k (bs ! k) st\<rparr>)"
proof -
  let ?i = "slot_index st g" and ?st = "write_byte (slot_index st g) k (bs ! k) st"
  have less: "slot_index st g' < slot_count st" for g' using system_slot_less [OF inv] st by simp
  have shape: "store_shape st" using inv st by (simp add: system_inv_def)
  have p: "valid_generation g" "next_generation st = g" "length bs = payload_size st"
    "control_at st ?i = encode_control g kWriting" "take k (read_slot st ?i) = take k bs"
    using inv pc st by (auto simp: system_inv_def producer_inv_def)
  have len: "length (read_slot st ?i) = payload_size st"
    using slot_range [OF less [of g], of "payload_size st"] shape by (simp add: read_slot_def store_shape_def)
  have rd: "read_slot ?st j = (if j = ?i then (read_slot st ?i)[k := bs ! k] else read_slot st j)"
    if "j < slot_count st" for j using read_write_byte [OF shape less [of g] that k] .
  have "take (Suc k) (read_slot ?st ?i) = take (Suc k) bs"
    using p(3,5) len k rd [OF less [of g]] by (simp add: take_Suc_conv_app_nth)
  then have p': "producer_inv ?st (P_writing g bs (Suc k))" using p k by (simp add: producer_inv_def)
  have c: "consumer_inv st (sys_log s) (sys_consumer s)" using inv st by (simp add: system_inv_def)
  have other: "slot_index st g' \<noteq> ?i" if "control_at st (slot_index st g') = encode_control g' kReading"
      "g' \<le> maximum_generation" for g'
    using that p(1,4) by (metis control_roundtrip(4,8) states_distinct(5))
  have c': "consumer_inv ?st (sys_log s) (sys_consumer s)"
    using c other less rd by (cases "sys_consumer s") (auto simp: consumer_inv_def)
  have "slot_inv ?st (sys_log s) (P_writing g bs (Suc k)) (sys_consumer s) j" if "j < slot_count st" for j
  proof -
    have "slot_inv st (sys_log s) (P_writing g bs k) (sys_consumer s) j"
      using inv st pc that by (simp add: system_inv_def)
    then show ?thesis
      using rd [OF that] p(1,4) by (cases "j = ?i") (auto simp: slot_inv_def Let_def writes_slot_def)
  qed
  moreover have "log_inv ?st (sys_log s) (P_writing g bs (Suc k))"
    using inv st pc by (auto simp: system_inv_def log_inv_def)
  ultimately have "system_inv \<lparr>sys_store = ?st, sys_producer = P_writing g bs (Suc k),
      sys_consumer = sys_consumer s, sys_log = sys_log s\<rparr>"
    using p' c' shape_write_byte [OF shape] by (simp add: system_inv_def)
  then show ?thesis by (cases s) simp
qed

lemma system_inv_step:
  assumes "system_step s s'" and "system_inv s"
  shows "system_inv s'"
  using assms
proof (cases rule: system_step.cases)
  case (p_load st g bs c) then show ?thesis using step_p_load assms(2) by blast
next
  case (p_claim g bs c st) then show ?thesis using step_p_claim [OF assms(2)] by blast
next
  case (p_lost g bs c st) then show ?thesis using step_p_lost assms(2) by blast
next
  case (p_byte g bs k st) then show ?thesis using step_p_byte [OF assms(2)] by blast
next
  case (p_publish g bs k st) then show ?thesis using step_p_publish [OF assms(2)] by blast
next
  case (p_advance g st) then show ?thesis using step_p_advance [OF assms(2)] by blast
next
  case (c_load st g out retention c) then show ?thesis using step_c_load assms(2) by blast
next
  case (c_claim g retention c st) then show ?thesis using step_c_claim [OF assms(2)] by blast
next
  case (c_lost g retention c st) then show ?thesis using step_c_idle [OF assms(2)] by simp
next
  case (c_byte g retention buf st) then show ?thesis using step_c_byte [OF assms(2)] by blast
next
  case (c_finish g retention buf st) then show ?thesis using step_c_finish [OF assms(2)] by simp
next
  case (c_return g buf) then show ?thesis using step_c_idle [OF assms(2)] by simp
next
  case (r_load st g c) then show ?thesis using step_r_load assms(2) by blast
next
  case (r_claim g c st) then show ?thesis using step_r_claim [OF assms(2)] by blast
next
  case (r_lost g c st) then show ?thesis using step_c_idle [OF assms(2)] by simp
qed

lemma system_inv_initial:
  assumes "create_store slot_bytes slots out = (ok, st)"
  shows "system_inv (initial_system st)"
proof -
  have wf: "store_wf st" and empty: "snapshots st = Map.empty"
    using create_contract [OF assms] by simp_all
  have "control_state (control_at st i) = kFree" if "i < slot_count st" for i
    using published_slot(1) [OF wf that] empty by auto
  then show ?thesis
    using wf by (auto simp: system_inv_def initial_system_def producer_inv_def consumer_inv_def log_inv_def
        slot_inv_def Let_def store_wf_def)
qed

lemma reachable_inv: "reachable slot_bytes slots s \<Longrightarrow> system_inv s"
  by (induction rule: reachable.induct) (auto intro: system_inv_initial system_inv_step)

end
