(* ===== verification/Snapshot_Properties.thy ===== *)
theory Snapshot_Properties
  imports Snapshot_Interleaving
begin

text \<open>
  What the snapshot store promises, for one caller and for a producer and a consumer that run
  concurrently.
\<close>

section \<open>One caller\<close>

text \<open>The stores that creation and any calls after it can lead to.\<close>

inductive store_history :: "nat \<Rightarrow> nat \<Rightarrow> snapshot_store \<Rightarrow> bool" for slot_bytes slots where
  created: "create_store slot_bytes slots out = (ok, st) \<Longrightarrow> store_history slot_bytes slots st"
| published: "store_history slot_bytes slots st \<Longrightarrow> store_history slot_bytes slots (snd (publish g bs st))"
| copied: "store_history slot_bytes slots st \<Longrightarrow>
    store_history slot_bytes slots (snd (snd (copy_snapshot g out retention st)))"
| retired: "store_history slot_bytes slots st \<Longrightarrow> store_history slot_bytes slots (snd (retire g st))"
| restored: "store_history slot_bytes slots st \<Longrightarrow>
    store_history slot_bytes slots (snd (restore_committed g next_gen bs st))"

text \<open>
  C22. Every store that creation and later publications, copies, retirements and restorations lead to is
  well formed: its arrays have the sizes of its slots, and every slot is unused or holds a
  generation that belongs to the slot, precedes the next generation and is free or published.
\<close>

theorem snapshot_store_invariant:
  assumes "store_history slot_bytes slots st"
  shows "store_wf st"
  using assms
proof (induction rule: store_history.induct)
  case (created out st)
  then show ?case by (rule create_contract(1))
next
  case (published st g bs)
  then show ?case using publish_contract(2) [of st g bs] by (metis prod.collapse)
next
  case (copied st g out retention)
  then show ?case using copy_contract(2) [of st g out retention] by (metis prod.collapse)
next
  case (retired st g)
  then show ?case using retire_contract(2) [of st g] by (metis prod.collapse)
next
  case (restored st g next_gen bs)
  then show ?case using restore_contract(2) [of st g next_gen bs] by (metis prod.collapse)
qed

definition sample_store :: snapshot_store where
  "sample_store = \<lparr>payload_size = 1, slot_count = 1, payload_storage_bytes = 1, next_generation = 1,
     controls = Some [0], payload = Some [0]\<rparr>"

lemma sample_created: "create_store 1 1 empty_store = (ok, sample_store)"
  by (simp add: create_store_def checked_multiply_size_def size_max_def sample_store_def)

theorem snapshot_store_invariant_witness: "store_wf (snd (publish 1 [7] sample_store))"
  by (rule snapshot_store_invariant [of 1 1])
    (rule store_history.published [OF store_history.created [OF sample_created]])

text \<open>
  C21. A well-formed store implements a map from generations to payloads.  Publishing succeeds exactly
  for the next generation, with a payload of the right size and no published generation in its slot,
  and then adds the generation to the map; copying succeeds exactly for a generation of the map,
  returns its payload and removes it when asked to; retiring succeeds exactly for a generation of the
  map and removes it; nothing else changes the map or the caller's buffer.
\<close>

theorem snapshot_store_refines_map:
  assumes wf: "store_wf st"
  shows "(case publish g bs st of (r, st') \<Rightarrow>
      (r = store_ok \<longleftrightarrow> length bs = payload_size st \<and> 0 < g \<and> g \<le> maximum_generation \<and>
        g = next_generation st \<and> (\<forall>g'. snapshots st g' \<noteq> None \<longrightarrow> slot_index st g' \<noteq> slot_index st g)) \<and>
      snapshots st' = (if r = store_ok then (snapshots st)(g \<mapsto> bs) else snapshots st)) \<and>
    (case copy_snapshot g out retention st of (r, out', st') \<Rightarrow>
      (r = store_ok \<longleftrightarrow> length out = payload_size st \<and> snapshots st g \<noteq> None \<and>
        (retention = retain \<or> retention = retire_after)) \<and>
      (if r = store_ok then snapshots st g = Some out' else out' = out) \<and>
      snapshots st' =
        (if r = store_ok \<and> retention = retire_after then (snapshots st)(g := None) else snapshots st)) \<and>
    (case retire g st of (r, st') \<Rightarrow>
      (r = store_ok \<longleftrightarrow> snapshots st g \<noteq> None) \<and>
      snapshots st' = (if r = store_ok then (snapshots st)(g := None) else snapshots st))"
proof -
  obtain r st' where p: "publish g bs st = (r, st')" by (metis prod.collapse)
  obtain r2 out' st2 where c: "copy_snapshot g out retention st = (r2, out', st2)" by (metis prod.collapse)
  obtain r3 st3 where t: "retire g st = (r3, st3)" by (metis prod.collapse)
  have dom: "valid_generation g" if "snapshots st g \<noteq> None" using that by (auto simp: snapshots_def split: if_splits)
  show ?thesis
    unfolding p c t prod.case
  proof (intro conjI)
    show "r = store_ok \<longleftrightarrow> length bs = payload_size st \<and> 0 < g \<and> g \<le> maximum_generation \<and>
        g = next_generation st \<and> (\<forall>g'. snapshots st g' \<noteq> None \<longrightarrow> slot_index st g' \<noteq> slot_index st g)"
      using publish_contract(1) [OF wf p] by (simp only: conj_assoc)
    show "r2 = store_ok \<longleftrightarrow> length out = payload_size st \<and> snapshots st g \<noteq> None \<and>
        (retention = retain \<or> retention = retire_after)"
      using copy_contract(1) [OF wf c] dom by blast
    show "r3 = store_ok \<longleftrightarrow> snapshots st g \<noteq> None"
      using retire_contract(1) [OF wf t] dom by blast
  qed (rule publish_contract(3) [OF wf p] copy_contract(3,4) [OF wf c] retire_contract(3) [OF wf t])+
qed

theorem snapshot_store_refines_map_witness:
  "fst (publish 1 [7] sample_store) = store_ok \<and> fst (retire 1 sample_store) \<noteq> store_ok"
proof -
  have wf: "store_wf sample_store" by (rule create_contract(1) [OF sample_created])
  have "snapshots sample_store = Map.empty" by (rule create_contract(2) [OF sample_created])
  moreover have "(1 :: u64) \<le> maximum_generation"
    by (simp add: maximum_generation_def u64_max_def drop_bit_eq_div)
  ultimately show ?thesis
    using snapshot_store_refines_map [OF wf, where g = 1 and bs = "[7]" and out = "[]" and retention = retain]
      create_contract(3,4) [OF sample_created]
    by (simp add: case_prod_beta)
qed



text \<open>
  C25. Restoring a committed snapshot succeeds exactly for a payload of the right size, a valid
  generation and a next generation that is its successor or zero; it leaves that snapshot as the only
  one, and with next generation zero the store accepts no further publication.
\<close>

theorem snapshot_store_restore:
  assumes wf: "store_wf st" and res: "restore_committed g next_gen bs st = (r, st')"
  shows "(r = store_ok \<longleftrightarrow> length bs = payload_size st \<and> 0 < g \<and> g \<le> maximum_generation \<and>
      (next_gen = 0 \<or> next_gen \<le> maximum_generation \<and> next_gen = g + 1)) \<and>
    snapshots st' = (if r = store_ok then [g \<mapsto> bs] else snapshots st) \<and>
    (if r = store_ok \<and> next_gen = 0 then fst (publish g' bs' st') = store_invalid_argument else True)"
proof -
  have "fst (publish g' bs' st') = store_invalid_argument" if "r = store_ok" "next_gen = 0"
    using restore_contract(4) [OF wf res] that by (auto simp: publish_def publish_rejected_def)
  then show ?thesis using restore_contract(1,3) [OF wf res] by simp
qed

theorem snapshot_store_restore_witness:
  "snapshots (snd (restore_committed 5 6 [9] sample_store)) = [5 \<mapsto> [9]]"
proof -
  have "(6 :: u64) \<le> maximum_generation" "(5 :: u64) \<le> maximum_generation"
    by (simp_all add: maximum_generation_def u64_max_def drop_bit_eq_div)
  then show ?thesis
    using snapshot_store_restore [OF create_contract(1) [OF sample_created], where g = 5 and next_gen = 6 and bs = "[9]"]
    by (cases "restore_committed 5 6 [9] sample_store") (simp add: sample_store_def)
qed

section \<open>A producer and a consumer\<close>

text \<open>
  C20. In every interleaving of a producer and a consumer, a copy that completes returns exactly the bytes
  its generation was published with, never a mixture of two payloads; and the slot the producer is
  writing is never the slot the consumer is reading.
\<close>

theorem snapshot_store_no_torn_reads:
  assumes "reachable slot_bytes slots s"
  shows "(\<forall>g buf. sys_consumer s = C_returned g buf \<longrightarrow> sys_log s g = Some buf) \<and>
    (\<forall>g bs k g' retention buf. sys_producer s = P_writing g bs k \<and> sys_consumer s = C_reading g' retention buf \<longrightarrow>
      slot_index (sys_store s) g \<noteq> slot_index (sys_store s) g')"
proof -
  have inv: "system_inv s" by (rule reachable_inv [OF assms])
  have "slot_index (sys_store s) g \<noteq> slot_index (sys_store s) g'"
    if "sys_producer s = P_writing g bs k" "sys_consumer s = C_reading g' retention buf" for g bs k g' retention buf
  proof
    assume "slot_index (sys_store s) g = slot_index (sys_store s) g'"
    moreover have "g \<le> maximum_generation" "g' \<le> maximum_generation"
      "control_at (sys_store s) (slot_index (sys_store s) g) = encode_control g kWriting"
      "control_at (sys_store s) (slot_index (sys_store s) g') = encode_control g' kReading"
      using inv that by (auto simp: system_inv_def producer_inv_def consumer_inv_def)
    ultimately show False by (metis control_roundtrip(4,8) states_distinct(5))
  qed
  then show ?thesis using inv by (auto simp: system_inv_def consumer_inv_def)
qed

text \<open>A complete exchange of one payload, step by step.\<close>

definition exchange_state :: "u64 \<Rightarrow> u64 \<Rightarrow> u8 \<Rightarrow> producer \<Rightarrow> consumer \<Rightarrow> (u64 \<Rightarrow> bytes option) \<Rightarrow> snapshot_system" where
  "exchange_state next_gen control b p c log =
     \<lparr>sys_store = sample_store\<lparr>next_generation := next_gen, controls := Some [control], payload := Some [b]\<rparr>,
      sys_producer = p, sys_consumer = c, sys_log = log\<rparr>"

lemmas exchange_simps = exchange_state_def sample_store_def publish_rejected_def copy_rejected_def control_at_def
  slot_index_def set_control_def write_byte_def read_byte_def maximum_generation_def u64_max_def drop_bit_eq_div

lemma encode_one: "encode_control 1 kWriting = 5" "encode_control 1 kPublished = 6" "encode_control 1 kReading = 7"
  by (simp_all add: encode_control_def kWriting_def kPublished_def kReading_def)

lemma exchange_reachable:
  "reachable 1 1 (exchange_state 2 6 7 P_idle (C_returned 1 [7]) [1 \<mapsto> [7]])"
proof -
  have 0: "reachable 1 1 (exchange_state 1 0 0 P_idle C_idle Map.empty)"
    using reachable.start [OF sample_created] by (simp add: initial_system_def exchange_state_def sample_store_def)
  have 1: "reachable 1 1 (exchange_state 1 0 0 (P_loaded 1 [7] 0) C_idle Map.empty)"
    using reachable.step [OF 0 p_load [of _ _ 1 "[7]"]] by (simp add: exchange_simps)
  have 2: "reachable 1 1 (exchange_state 1 5 0 (P_writing 1 [7] 0) C_idle Map.empty)"
    using reachable.step [OF 1 p_claim [of _ 1 "[7]" 0]] by (simp add: exchange_simps encode_one)
  have 3: "reachable 1 1 (exchange_state 1 5 7 (P_writing 1 [7] 1) C_idle Map.empty)"
    using reachable.step [OF 2 p_byte [of _ 1 "[7]" 0]] by (simp add: exchange_simps)
  have 4: "reachable 1 1 (exchange_state 1 6 7 (P_advancing 1) C_idle [1 \<mapsto> [7]])"
    using reachable.step [OF 3 p_publish [of _ 1 "[7]" 1]] by (simp add: exchange_simps encode_one)
  have 5: "reachable 1 1 (exchange_state 2 6 7 P_idle C_idle [1 \<mapsto> [7]])"
    using reachable.step [OF 4 p_advance [of _ 1]] by (simp add: exchange_simps)
  have "copy_claim 1 6 = store_ok"
    by (simp add: copy_claim_def control_generation_def control_state_def kStateMask_def kWriting_def kFree_def
        kPublished_def drop_bit_eq_div)
  then have "system_step (exchange_state 2 6 7 P_idle C_idle [1 \<mapsto> [7]])
      (exchange_state 2 6 7 P_idle C_idle [1 \<mapsto> [7]]\<lparr>sys_consumer := C_loaded 1 retain 6\<rparr>)"
    by (intro c_load [where out = "[0]", OF _ refl]) (simp_all add: exchange_simps)
  then have 6: "reachable 1 1 (exchange_state 2 6 7 P_idle (C_loaded 1 retain 6) [1 \<mapsto> [7]])"
    using reachable.step [OF 5] by (simp add: exchange_state_def)
  have 7: "reachable 1 1 (exchange_state 2 7 7 P_idle (C_reading 1 retain []) [1 \<mapsto> [7]])"
    using reachable.step [OF 6 c_claim [of _ 1 retain 6]] by (simp add: exchange_simps encode_one)
  have 8: "reachable 1 1 (exchange_state 2 7 7 P_idle (C_reading 1 retain [7]) [1 \<mapsto> [7]])"
    using reachable.step [OF 7 c_byte [of _ 1 retain "[]"]] by (simp add: exchange_simps)
  show ?thesis
    using reachable.step [OF 8 c_finish [of _ 1 retain "[7]"]] by (simp add: exchange_simps encode_one)
qed

theorem snapshot_store_no_torn_reads_witness:
  "\<exists>s. reachable 1 1 s \<and> sys_consumer s = C_returned 1 [7] \<and> sys_log s 1 = Some [7]"
  using snapshot_store_no_torn_reads [OF exchange_reachable] exchange_reachable
  by (intro exI [of _ "exchange_state 2 6 7 P_idle (C_returned 1 [7]) [1 \<mapsto> [7]]"]) (simp add: exchange_state_def)

text \<open>The steps a pending publication and a pending copy still need.\<close>

definition producer_work :: "snapshot_system \<Rightarrow> nat" where
  "producer_work s = (case sys_producer s of
     P_idle \<Rightarrow> 0
   | P_loaded g bs observed \<Rightarrow> payload_size (sys_store s) + 3
   | P_writing g bs k \<Rightarrow> payload_size (sys_store s) - k + 2
   | P_advancing g \<Rightarrow> 1)"

definition consumer_work :: "snapshot_system \<Rightarrow> nat" where
  "consumer_work s = (case sys_consumer s of
     C_idle \<Rightarrow> 0
   | C_loaded g retention observed \<Rightarrow> payload_size (sys_store s) + 3
   | C_reading g retention buf \<Rightarrow> payload_size (sys_store s) - length buf + 2
   | C_returned g buf \<Rightarrow> 1
   | R_loaded g observed \<Rightarrow> 1)"

lemmas work_simps = producer_work_def consumer_work_def

lemma producer_progress:
  assumes inv: "system_inv s" and busy: "sys_producer s \<noteq> P_idle"
  shows "\<exists>s'. system_step s s' \<and> producer_work s' < producer_work s \<and> consumer_work s' = consumer_work s"
proof -
  let ?st = "sys_store s"
  consider (claim) g bs observed where "sys_producer s = P_loaded g bs observed"
        "control_at ?st (slot_index ?st g) = observed"
    | (lost) g bs observed where "sys_producer s = P_loaded g bs observed"
        "control_at ?st (slot_index ?st g) \<noteq> observed"
    | (byte) g bs k where "sys_producer s = P_writing g bs k" "k < payload_size ?st"
    | (publish) g bs where "sys_producer s = P_writing g bs (payload_size ?st)"
    | (advance) g where "sys_producer s = P_advancing g"
    using busy inv by (cases "sys_producer s") (fastforce simp: system_inv_def producer_inv_def)+
  then show ?thesis
  proof cases
    case claim
    show ?thesis
      by (intro exI conjI, rule p_claim [OF claim(1) refl claim(2)])
        (use claim in \<open>simp_all add: work_simps split: consumer.split\<close>)
  next
    case lost
    show ?thesis
      by (intro exI conjI, rule p_lost [OF lost(1) refl lost(2)])
        (use lost in \<open>simp_all add: work_simps split: consumer.split\<close>)
  next
    case byte
    show ?thesis
      by (intro exI conjI, rule p_byte [OF byte(1) refl byte(2)])
        (use byte in \<open>auto simp: work_simps split: consumer.split\<close>)
  next
    case publish
    show ?thesis
      by (intro exI conjI, rule p_publish [OF publish refl refl])
        (use publish in \<open>simp_all add: work_simps split: consumer.split\<close>)
  next
    case advance
    show ?thesis
      by (intro exI conjI, rule p_advance [OF advance refl])
        (use advance in \<open>simp_all add: work_simps split: consumer.split\<close>)
  qed
qed

lemma consumer_progress:
  assumes inv: "system_inv s" and busy: "sys_consumer s \<noteq> C_idle"
  shows "\<exists>s'. system_step s s' \<and> consumer_work s' < consumer_work s \<and> producer_work s' = producer_work s"
proof -
  let ?st = "sys_store s"
  consider (claim) g retention observed where "sys_consumer s = C_loaded g retention observed"
        "control_at ?st (slot_index ?st g) = observed"
    | (lost) g retention observed where "sys_consumer s = C_loaded g retention observed"
        "control_at ?st (slot_index ?st g) \<noteq> observed"
    | (byte) g retention buf where "sys_consumer s = C_reading g retention buf" "length buf < payload_size ?st"
    | (finish) g retention buf where "sys_consumer s = C_reading g retention buf" "length buf = payload_size ?st"
    | (return) g buf where "sys_consumer s = C_returned g buf"
    | (retire) g observed where "sys_consumer s = R_loaded g observed"
        "control_at ?st (slot_index ?st g) = observed"
    | (unretired) g observed where "sys_consumer s = R_loaded g observed"
        "control_at ?st (slot_index ?st g) \<noteq> observed"
    using busy inv by (cases "sys_consumer s") (fastforce simp: system_inv_def consumer_inv_def)+
  then show ?thesis
  proof cases
    case claim
    show ?thesis
      by (intro exI conjI, rule c_claim [OF claim(1) refl claim(2)])
        (use claim in \<open>simp_all add: work_simps split: producer.split\<close>)
  next
    case lost
    show ?thesis
      by (intro exI conjI, rule c_lost [OF lost(1) refl lost(2)])
        (use lost in \<open>simp_all add: work_simps split: producer.split\<close>)
  next
    case byte
    show ?thesis
      by (intro exI conjI, rule c_byte [OF byte(1) refl byte(2)])
        (use byte in \<open>auto simp: work_simps split: producer.split\<close>)
  next
    case finish
    show ?thesis
      by (intro exI conjI, rule c_finish [OF finish(1) refl finish(2)])
        (use finish in \<open>simp_all add: work_simps split: producer.split\<close>)
  next
    case return
    show ?thesis
      by (intro exI conjI, rule c_return [OF return])
        (use return in \<open>simp_all add: work_simps split: producer.split\<close>)
  next
    case retire
    show ?thesis
      by (intro exI conjI, rule r_claim [OF retire(1) refl retire(2)])
        (use retire in \<open>simp_all add: work_simps split: producer.split\<close>)
  next
    case unretired
    show ?thesis
      by (intro exI conjI, rule r_lost [OF unretired(1) refl unretired(2)])
        (use unretired in \<open>simp_all add: work_simps split: producer.split\<close>)
  qed
qed

text \<open>
  C23. The store never blocks.  In every reachable state a pending publication and a pending copy each
  have a step of their own that they can take and that brings them closer to returning, whatever the
  other side is doing, and neither ever needs more than three steps and one for each payload byte.
\<close>

theorem snapshot_store_wait_free:
  assumes "reachable slot_bytes slots s"
  shows "(if sys_producer s = P_idle then producer_work s = 0 else
      (\<exists>s'. system_step s s' \<and> producer_work s' < producer_work s \<and> consumer_work s' = consumer_work s)) \<and>
    (if sys_consumer s = C_idle then consumer_work s = 0 else
      (\<exists>s'. system_step s s' \<and> consumer_work s' < consumer_work s \<and> producer_work s' = producer_work s)) \<and>
    producer_work s \<le> payload_size (sys_store s) + 3 \<and> consumer_work s \<le> payload_size (sys_store s) + 3"
proof -
  have "producer_work s \<le> payload_size (sys_store s) + 3" "consumer_work s \<le> payload_size (sys_store s) + 3"
    by (auto simp: work_simps split: producer.split consumer.split)
  moreover have "producer_work s = 0" if "sys_producer s = P_idle" using that by (simp add: work_simps)
  moreover have "consumer_work s = 0" if "sys_consumer s = C_idle" using that by (simp add: work_simps)
  ultimately show ?thesis
    using producer_progress [OF reachable_inv [OF assms]] consumer_progress [OF reachable_inv [OF assms]] by simp
qed

theorem snapshot_store_wait_free_witness:
  "\<exists>s. reachable 1 1 s \<and> sys_consumer s = C_returned 1 [7] \<and>
     (\<exists>s'. system_step s s' \<and> consumer_work s' < consumer_work s)"
proof -
  let ?s = "exchange_state 2 6 7 P_idle (C_returned 1 [7]) [1 \<mapsto> [7]]"
  have "sys_consumer ?s = C_returned 1 [7]" by (simp add: exchange_state_def)
  then show ?thesis using snapshot_store_wait_free [OF exchange_reachable] exchange_reachable by fastforce
qed

end
