(* ===== verification/Spec2Isabelle.thy ===== *)
theory Spec2Isabelle
  imports Graph_Correctness Rate_Cycles Rate_Ages Artifact_Scans Snapshot_Properties
begin

text \<open>
  This library verifies the compilers, codecs and stores of the bounded simulation runtime under
  \<^verbatim>\<open>src/rt\<close>: the code that decides, before the first step runs, what the runtime will execute and
  exchange, and the code that writes down what it did.

  \<^bold>\<open>The parts and how they interact.\<close>  A host registers phases, resources, dependencies and accesses;
  \<^verbatim>\<open>compile_graph\<close> checks them and fixes a total order of the phases.  Phases are bound to periodic rate
  domains, and \<^verbatim>\<open>compile_rate_timeline\<close> lists every release of one supercycle over that order.
  \<^verbatim>\<open>compile_rate_dispatch\<close> reads the timeline, admits the mandatory CPU work on one lane and builds the
  tables a step walks through; \<^verbatim>\<open>compile_cross_rate_data\<close> reads the same timeline and decides which sample
  every consumer release reads, where device samples live, and creates a snapshot store per channel,
  the lock-free buffer between one producer and one consumer.  Checkpoints and input logs are byte
  artifacts that the snapshot codec writes and parses.  All parts name things by 64-bit handles.

  \<^bold>\<open>Theories and sources.\<close>
    \<^item> \<^verbatim>\<open>Rt_Prelude\<close>: word types, \<^verbatim>\<open>Status\<close> (\<^verbatim>\<open>rt/include/rt/status.hpp\<close>), checked 64-bit arithmetic
      (\<^verbatim>\<open>rate_timeline.cpp\<close>, \<^verbatim>\<open>rate_dispatch.cpp\<close>), the error sum and generic list lemmas.
    \<^item> \<^verbatim>\<open>Graph_Handles\<close> (\<^verbatim>\<open>rt/include/rt/graph.hpp\<close>): the four handle structs, their shared interface
      \<open>graph_handle\<close> and its instances.
    \<^item> \<^verbatim>\<open>Compiled_Graph\<close> (\<^verbatim>\<open>rt/src/compiled_graph.cpp\<close>), with \<^verbatim>\<open>Graph_Order\<close>, \<^verbatim>\<open>Graph_Cycles\<close>,
      \<^verbatim>\<open>Graph_Conflicts\<close> and \<^verbatim>\<open>Graph_Correctness\<close>: Kahn's loop, the cycle search and the conflict check.
    \<^item> \<^verbatim>\<open>Rate_Timeline\<close> (\<^verbatim>\<open>rt/src/rate_timeline.cpp\<close>), with \<^verbatim>\<open>Rate_Plans\<close> and \<^verbatim>\<open>Rate_Schedule\<close>.
    \<^item> \<^verbatim>\<open>Rate_Dispatch\<close> (\<^verbatim>\<open>rt/src/rate_dispatch.cpp\<close>), with \<^verbatim>\<open>Dispatch_Slices\<close>, \<^verbatim>\<open>Dispatch_Walk\<close>,
      \<^verbatim>\<open>Dispatch_Groups\<close>, \<^verbatim>\<open>Dispatch_Validation\<close>, \<^verbatim>\<open>Dispatch_Plans\<close>, \<^verbatim>\<open>Dispatch_Properties\<close>; \<^verbatim>\<open>Rate_Cycles\<close>
      composes timeline and dispatch.
    \<^item> \<^verbatim>\<open>Cross_Rate_Types\<close> and \<^verbatim>\<open>Cross_Rate_Data\<close> (\<^verbatim>\<open>rt/src/cross_rate_data.cpp\<close>, \<^verbatim>\<open>cross_rate_data.hpp\<close>), with
      \<^verbatim>\<open>Cross_Rate_Selections\<close>, \<^verbatim>\<open>Cross_Rate_Channels\<close>, \<^verbatim>\<open>Cross_Rate_Validation\<close>, \<^verbatim>\<open>Cross_Rate_Plans\<close> and
      \<^verbatim>\<open>Cross_Rate_Properties\<close>; \<^verbatim>\<open>Rate_Ages\<close> composes timeline and channels.
    \<^item> \<^verbatim>\<open>Snapshot_Store\<close> (class \<^verbatim>\<open>SnapshotStore\<close> of \<^verbatim>\<open>cross_rate_data.cpp\<close>), with \<^verbatim>\<open>Snapshot_Contract\<close>,
      \<^verbatim>\<open>Snapshot_Protocol\<close>, \<^verbatim>\<open>Snapshot_Interleaving\<close> and \<^verbatim>\<open>Snapshot_Properties\<close>.
    \<^item> \<^verbatim>\<open>Canonical_Bytes\<close> (\<^verbatim>\<open>rt/include/rt/canonical_bytes.hpp\<close>) and \<^verbatim>\<open>Snapshot_Codec\<close>, \<^verbatim>\<open>Input_Log\<close>
      (\<^verbatim>\<open>rt/src/snapshot_codec.cpp\<close>), with \<^verbatim>\<open>Artifact_Streams\<close> (interfaces \<open>sealed_artifact\<close>,
      \<open>record_parser\<close>, \<open>record_cursor\<close>), \<^verbatim>\<open>Checkpoint_Roundtrip\<close>, \<^verbatim>\<open>Checkpoint_Parsing\<close>,
      \<^verbatim>\<open>Checkpoint_Canonical\<close>, \<^verbatim>\<open>Checkpoint_Codec\<close>, \<^verbatim>\<open>Input_Log_Layout\<close>, \<^verbatim>\<open>Input_Log_Artifacts\<close>,
      \<^verbatim>\<open>Input_Log_Codec\<close> and \<^verbatim>\<open>Artifact_Scans\<close> (interface \<open>bounded_cursor\<close>).

  \<^bold>\<open>How the code is modelled.\<close>  Structs are records, enumerations datatypes; an enumerator outside the
  declared ones, which a caller can pass, is an extra constructor.  64-, 32- and 8-bit integers are
  words and wrap; \<^verbatim>\<open>size_t\<close> values are naturals with the bound \<open>size_max\<close> where the code compares with
  it, and a sentinel \<^verbatim>\<open>size_t\<close> is None.  A fallible routine is a sum with the diagnostic on the left;
  a routine with output parameters takes the old output and returns the new one, so that what a
  failure leaves behind is visible.  Loops are structural recursions, or functions with a measure
  (\<open>kahn_loop\<close>, \<open>cycle_search\<close>, \<open>mark_loop\<close>, \<open>check_groups\<close>); no fuel bounds any modelled routine.  The only fuel is
  that of \<open>read_records\<close>, a caller's loop over a cursor, and the record count is always enough.  The
  callback that supplies checkpoint states is a parameter, a function of the pass.  A snapshot
  store shared by a producer and a consumer is a step relation, \<open>system_step\<close>, whose steps are the
  single atomic accesses and the single bytes of the two calls.

  \<^bold>\<open>What the lemmas show.\<close>
    \<^item> Handles: every word but the invalid one is a handle of exactly one kind (\<open>handle_kinds\<close>).
    \<^item> Graphs: acceptance is characterised by the graph alone, the order is topological, greedy and
      independent of the order of registration, and every diagnostic names a real violation.
    \<^item> Timelines: acceptance, the exact set of releases in strict order, the supercycle as least
      common multiple, absence of wrap-around, bindings and period ratios.
    \<^item> Dispatch: acceptance is equivalent to the existence of any single-lane schedule, so the greedy
      admission rejects nothing feasible; admitted intervals never overlap; groups, slices and
      prerequisites are what their names say; the closed-form due counter counts releases.
    \<^item> Channels: acceptance, which sample every consumer reads and how old it is, device slots that
      stay inside their envelopes and apart from each other, capacity bounds, and over compiled
      timelines an age of at most one supercycle.
    \<^item> Snapshot store: an invariant of all call sequences, refinement of a map from generations to
      payloads, and under every interleaving no torn read and progress of each side.
    \<^item> Artifacts: round trips, canonical encodings, detection of every single-byte change, outcome on
      every error path, and termination of record scans on arbitrary bytes.

  \<^bold>\<open>Not modelled.\<close>  \<^verbatim>\<open>host_runtime.cpp\<close> and \<^verbatim>\<open>live_control_mailbox.cpp\<close> are the thread-level glue around the parts
  above: their behaviour is mostly the order of effects on clocks, threads, condition variables and
  host callbacks.  \<^verbatim>\<open>compile_device_rate_plan\<close> and the command-batch validation it needs are left out, as
  are the telemetry rings, the watchdog and the mixed-rate and live-control replay artifacts.  Device
  backends (CUDA, XDMA, loopback, mock), the device manager, thread, memory and resource policies,
  platform preflight and crash handling call drivers and the operating system.  The C ABI, the
  plugin loader, \<^verbatim>\<open>include/simcore\<close>, samples, benchmarks, integrations and tools are clients of the
  runtime.  Failed allocations are not modelled anywhere, and memory orders weaker than sequential
  consistency are not distinguished.
\<close>

end
